(* ===== verification/Go_Prelude.thy ===== *)
theory Go_Prelude
  imports Main "HOL-Library.Char_ord" "HOL-Library.List_Lexorder" "HOL-Library.Multiset"
begin

text \<open>
  What every component of the model shares: how a Go function ends (a value, a panic that
  unwinds the goroutine, a \<open>log.Fatal\<close> that ends the process), how one service calls another
  over gRPC, and the parts of Go's standard library the sources use on strings and maps
  (\<open>strings.Split\<close>, \<open>strings.Join\<close>, ranging over a map in an order Go does not fix).
\<close>

named_theorems go_simps \<open>unfolds the outcome combinators on constructors\<close>

section \<open>Errors and outcomes\<close>

text \<open>
  A Go \<open>error\<close> is a value. \<open>ErrText\<close> is one made by \<open>errors.New\<close> or \<open>fmt.Errorf\<close>, or one a
  library returned; \<open>ErrStatus e\<close> is how a gRPC client sees the error \<open>e\<close> its server returned;
  \<open>ErrUnavailable\<close> is what the client sees when the server's process died during the call.
\<close>

datatype go_error = ErrText string | ErrStatus go_error | ErrUnavailable

text \<open>
  How a Go call ends. A function with results \<open>(T, error)\<close> has the result type
  \<open>(go_error + T) run\<close>: a returned error is a \<^emph>\<open>value\<close> the caller may inspect or drop, while
  \<open>Panicked\<close> (a nil dereference, an index out of range, \<open>panic(err)\<close>) and \<open>Exited\<close>
  (\<open>log.Fatal\<close>) are not seen by the caller.
\<close>

datatype 'a run = Value 'a | Panicked string | Exited string

fun returns :: "'a run \<Rightarrow> bool" where
  "returns (Value _) = True"
| "returns _ = False"

definition nil_dereference :: string where
  "nil_dereference = ''invalid memory address or nil pointer dereference''"

definition index_out_of_range :: string where
  "index_out_of_range = ''index out of range''"

text \<open>Sequencing: the continuation runs on the value and the state the first call left.\<close>

definition run_then ::
    "'a run \<times> 's \<Rightarrow> ('a \<Rightarrow> 's \<Rightarrow> 'b run \<times> 's) \<Rightarrow> 'b run \<times> 's" where
  "run_then r k =
     (case r of
        (Value x, s) \<Rightarrow> k x s
      | (Panicked p, s) \<Rightarrow> (Panicked p, s)
      | (Exited m, s) \<Rightarrow> (Exited m, s))"

lemma run_then_simps [simp, go_simps]:
  "run_then (Value x, s) k = k x s"
  "run_then (Panicked p, s) k = (Panicked p, s)"
  "run_then (Exited m, s) k = (Exited m, s)"
  by (simp_all add: run_then_def)

lemma run_then_Value:
  "run_then r k = (Value y, s') \<longleftrightarrow> (\<exists>x s. r = (Value x, s) \<and> k x s = (Value y, s'))"
  by (auto simp: run_then_def split: prod.splits run.splits)

lemma run_then_ValueE [elim]:
  assumes "run_then r k = (Value y, s')"
  obtains x s where "r = (Value x, s)" and "k x s = (Value y, s')"
  using assms by (auto simp: run_then_Value)

text \<open>
  An invariant of the state that holds after the first call and that the continuation keeps
  holds after both, however they end.
\<close>

lemma run_then_state:
  assumes "P (snd r)" and "\<And>x s. r = (Value x, s) \<Longrightarrow> P s \<Longrightarrow> P (snd (k x s))"
  shows "P (snd (run_then r k))"
  using assms by (cases r; cases "fst r") auto

section \<open>Remote calls\<close>

text \<open>
  What a gRPC client gets from one call. A handler that returns sends its result or its error;
  a handler that panics or exits takes the whole server process with it (gRPC for Go installs no
  recovery handler), so the client sees the service unavailable and the server starts again from
  \<open>restart\<close>, which keeps only what outlives the process.
\<close>

definition rpc :: "('s \<Rightarrow> 's) \<Rightarrow> (go_error + 'r) run \<times> 's \<Rightarrow> (go_error + 'r) \<times> 's" where
  "rpc restart r =
     (case r of
        (Value (Inr x), s) \<Rightarrow> (Inr x, s)
      | (Value (Inl e), s) \<Rightarrow> (Inl (ErrStatus e), s)
      | (_, s) \<Rightarrow> (Inl ErrUnavailable, restart s))"

lemma rpc_simps [simp, go_simps]:
  "rpc f (Value (Inr x), s) = (Inr x, s)"
  "rpc f (Value (Inl e), s) = (Inl (ErrStatus e), s)"
  "rpc f (Panicked p, s) = (Inl ErrUnavailable, f s)"
  "rpc f (Exited m, s) = (Inl ErrUnavailable, f s)"
  by (simp_all add: rpc_def)

lemma rpc_Inr: "rpc f r = (Inr x, s) \<longleftrightarrow> r = (Value (Inr x), s)"
  by (auto simp: rpc_def split: prod.splits run.splits sum.splits)

lemma rpc_state:
  assumes "P (snd r)" and "\<And>s. P s \<Longrightarrow> P (f s)"
  shows "P (snd (rpc f r))"
  using assms by (auto simp: rpc_def split: prod.splits run.splits sum.splits)

section \<open>Strings\<close>

text \<open>
  \<open>strings.Split(s, sep)\<close> for a separator of one byte. Like Go's, it never gives an empty list:
  the empty string splits into one empty field.
\<close>

fun split_on :: "char \<Rightarrow> string \<Rightarrow> string list" where
  "split_on c [] = [[]]"
| "split_on c (x # xs) =
     (if x = c then [] # split_on c xs
      else (case split_on c xs of [] \<Rightarrow> [[x]] | w # ws \<Rightarrow> (x # w) # ws))"

text \<open>\<open>strings.Join(fields, sep)\<close>.\<close>

fun join_with :: "string \<Rightarrow> string list \<Rightarrow> string" where
  "join_with sep [] = []"
| "join_with sep [w] = w"
| "join_with sep (w # ws) = w @ sep @ join_with sep ws"

text \<open>The high digit of a byte.\<close>

lemma of_char_div_16: "(of_char c :: nat) div 16 < 16"
  by (rule less_mult_imp_div_less) simp

lemma split_on_not_Nil [simp]: "split_on c s \<noteq> []"
  by (induction s) (auto split: list.splits)

lemma join_with_Cons: "ws \<noteq> [] \<Longrightarrow> join_with sep (w # ws) = w @ sep @ join_with sep ws"
  by (cases ws) auto

lemma join_split_on: "join_with [c] (split_on c s) = s"
proof (induction s)
  case Nil
  then show ?case by simp
next
  case (Cons x xs)
  obtain w ws where ws: "split_on c xs = w # ws"
    by (cases "split_on c xs") auto
  with Cons.IH show ?case
    by (cases ws) (auto simp: join_with_Cons)
qed

lemma split_on_no_sep: "c \<notin> set s \<Longrightarrow> split_on c s = [s]"
  by (induction s) auto

lemma split_on_append_sep: "c \<notin> set w \<Longrightarrow> split_on c (w @ c # s) = w # split_on c s"
  by (induction w) auto

lemma split_on_fields: "w \<in> set (split_on c s) \<Longrightarrow> c \<notin> set w"
  by (induction s arbitrary: w) (auto split: list.splits if_splits)

lemma split_on_join_with:
  "ws \<noteq> [] \<Longrightarrow> (\<forall>w \<in> set ws. c \<notin> set w) \<Longrightarrow> split_on c (join_with [c] ws) = ws"
  by (induction "[c]" ws rule: join_with.induct) (auto simp: split_on_no_sep split_on_append_sep)

lemma split_on_inject: "split_on c s = split_on c t \<longleftrightarrow> s = t"
  by (metis join_split_on)

text \<open>Decimal numerals, as \<open>%d\<close> prints a length.\<close>

fun decimal :: "nat \<Rightarrow> string" where
  "decimal n =
     (if n < 10 then [''0123456789'' ! n]
      else decimal (n div 10) @ [''0123456789'' ! (n mod 10)])"

declare decimal.simps [simp del]

section \<open>Ranging over a map\<close>

text \<open>
  \<open>for k, v := range m\<close> visits every entry once, in an order the language leaves open and the
  runtime changes from loop to loop. A loop over a map takes the order it happened to use as an
  argument; \<open>range_order m ks\<close> says that \<open>ks\<close> is one such order.
\<close>

definition range_order :: "('k \<rightharpoonup> 'v) \<Rightarrow> 'k list \<Rightarrow> bool" where
  "range_order m ks \<longleftrightarrow> distinct ks \<and> set ks = dom m"

fun range_entries :: "('k \<rightharpoonup> 'v) \<Rightarrow> 'k list \<Rightarrow> ('k \<times> 'v) list" where
  "range_entries m [] = []"
| "range_entries m (k # ks) =
     (case m k of None \<Rightarrow> range_entries m ks | Some v \<Rightarrow> (k, v) # range_entries m ks)"

lemma set_range_entries: "set (range_entries m ks) = {(k, v). k \<in> set ks \<and> m k = Some v}"
  by (induction ks) (auto split: option.splits)

lemma fst_range_entries: "set ks \<subseteq> dom m \<Longrightarrow> map fst (range_entries m ks) = ks"
  by (induction ks) auto

lemma range_order_fst [simp]: "range_order m ks \<Longrightarrow> map fst (range_entries m ks) = ks"
  by (rule fst_range_entries) (simp add: range_order_def)

lemma map_of_range_entries: "range_order m ks \<Longrightarrow> map_of (range_entries m ks) = m"
proof
  fix k
  assume m: "range_order m ks"
  then have d: "distinct (map fst (range_entries m ks))"
    by (simp add: range_order_def)
  show "map_of (range_entries m ks) k = m k"
  proof (cases "m k")
    case None
    then have "k \<notin> fst ` set (range_entries m ks)"
      by (auto simp: set_range_entries)
    with None show ?thesis by (simp add: map_of_eq_None_iff)
  next
    case (Some v)
    with m have "(k, v) \<in> set (range_entries m ks)"
      by (auto simp: set_range_entries range_order_def)
    with d Some show ?thesis by simp
  qed
qed

lemma range_order_mset:
  "range_order m ks \<Longrightarrow> range_order m ks' \<Longrightarrow> mset ks = mset ks'"
  by (metis range_order_def set_eq_iff_mset_eq_distinct)

lemma find_append: "find P (xs @ ys) = (case find P xs of Some x \<Rightarrow> Some x | None \<Rightarrow> find P ys)"
  by (induction xs) auto

section \<open>Options as nil pointers\<close>

text \<open>Reading a field through a pointer panics when the pointer is nil.\<close>

definition deref :: "'a option \<Rightarrow> 's \<Rightarrow> 'a run \<times> 's" where
  "deref p s = (case p of None \<Rightarrow> (Panicked nil_dereference, s) | Some x \<Rightarrow> (Value x, s))"

lemma deref_simps [simp, go_simps]:
  "deref None s = (Panicked nil_dereference, s)"
  "deref (Some x) s = (Value x, s)"
  by (simp_all add: deref_def)

lemma deref_state [simp]: "snd (deref p s) = s"
  by (cases p) auto

lemma deref_Value: "deref p s = (Value x, s') \<longleftrightarrow> p = Some x \<and> s' = s"
  by (cases p) auto

end
