(* ===== verification/Go_Sha256.thy ===== *)
theory Go_Sha256
  imports Go_Prelude "HOL-Library.Word"
begin

unbundle bit_operations_syntax

text \<open>
  Go's \<open>crypto/sha256\<close> as \<open>pkg/actions\<close> and \<open>pkg/hash\<close> use it: a hash is a writer that collects
  bytes, \<open>Sum(nil)\<close> gives the 32 bytes of the SHA-256 digest of everything written (FIPS 180-4),
  and \<open>fmt.Sprintf("%x", sum)\<close> prints it in lower case hexadecimal. Strings are lists of bytes.
\<close>

section \<open>The compression function\<close>

definition Sha_Ch :: "32 word \<Rightarrow> 32 word \<Rightarrow> 32 word \<Rightarrow> 32 word" where
  "Sha_Ch x y z = (x AND y) XOR (NOT x AND z)"

definition Sha_Maj :: "32 word \<Rightarrow> 32 word \<Rightarrow> 32 word \<Rightarrow> 32 word" where
  "Sha_Maj x y z = (x AND y) XOR (x AND z) XOR (y AND z)"

definition Sha_Sum0 :: "32 word \<Rightarrow> 32 word" where
  "Sha_Sum0 x = word_rotr 2 x XOR word_rotr 13 x XOR word_rotr 22 x"

definition Sha_Sum1 :: "32 word \<Rightarrow> 32 word" where
  "Sha_Sum1 x = word_rotr 6 x XOR word_rotr 11 x XOR word_rotr 25 x"

definition Sha_Sched0 :: "32 word \<Rightarrow> 32 word" where
  "Sha_Sched0 x = word_rotr 7 x XOR word_rotr 18 x XOR drop_bit 3 x"

definition Sha_Sched1 :: "32 word \<Rightarrow> 32 word" where
  "Sha_Sched1 x = word_rotr 17 x XOR word_rotr 19 x XOR drop_bit 10 x"

text \<open>The constants of the rounds, eight rounds to a row.\<close>

definition Sha_K :: "32 word list" where
  "Sha_K = concat
    [[0x428a2f98, 0x71374491, 0xb5c0fbcf, 0xe9b5dba5, 0x3956c25b, 0x59f111f1, 0x923f82a4, 0xab1c5ed5],
     [0xd807aa98, 0x12835b01, 0x243185be, 0x550c7dc3, 0x72be5d74, 0x80deb1fe, 0x9bdc06a7, 0xc19bf174],
     [0xe49b69c1, 0xefbe4786, 0x0fc19dc6, 0x240ca1cc, 0x2de92c6f, 0x4a7484aa, 0x5cb0a9dc, 0x76f988da],
     [0x983e5152, 0xa831c66d, 0xb00327c8, 0xbf597fc7, 0xc6e00bf3, 0xd5a79147, 0x06ca6351, 0x14292967],
     [0x27b70a85, 0x2e1b2138, 0x4d2c6dfc, 0x53380d13, 0x650a7354, 0x766a0abb, 0x81c2c92e, 0x92722c85],
     [0xa2bfe8a1, 0xa81a664b, 0xc24b8b70, 0xc76c51a3, 0xd192e819, 0xd6990624, 0xf40e3585, 0x106aa070],
     [0x19a4c116, 0x1e376c08, 0x2748774c, 0x34b0bcb5, 0x391c0cb3, 0x4ed8aa4a, 0x5b9cca4f, 0x682e6ff3],
     [0x748f82ee, 0x78a5636f, 0x84c87814, 0x8cc70208, 0x90befffa, 0xa4506ceb, 0xbef9a3f7, 0xc67178f2]]"

type_synonym sha_state =
  "32 word \<times> 32 word \<times> 32 word \<times> 32 word \<times> 32 word \<times> 32 word \<times> 32 word \<times> 32 word"

definition Sha_H0 :: sha_state where
  "Sha_H0 = (0x6a09e667, 0xbb67ae85, 0x3c6ef372, 0xa54ff53a,
             0x510e527f, 0x9b05688c, 0x1f83d9ab, 0x5be0cd19)"

text \<open>The message schedule, newest word first while it grows.\<close>

fun sha_schedule :: "nat \<Rightarrow> 32 word list \<Rightarrow> 32 word list" where
  "sha_schedule 0 ws = rev ws"
| "sha_schedule (Suc n) ws =
     sha_schedule n ((Sha_Sched1 (ws ! 1) + ws ! 6 + Sha_Sched0 (ws ! 14) + ws ! 15) # ws)"

fun sha_round :: "sha_state \<Rightarrow> 32 word \<Rightarrow> 32 word \<Rightarrow> sha_state" where
  "sha_round (a, b, c, d, e, f, g, h) k w =
     (let t1 = h + Sha_Sum1 e + Sha_Ch e f g + k + w;
          t2 = Sha_Sum0 a + Sha_Maj a b c
      in (t1 + t2, a, b, c, d + t1, e, f, g))"

fun sha_rounds :: "sha_state \<Rightarrow> (32 word \<times> 32 word) list \<Rightarrow> sha_state" where
  "sha_rounds s [] = s"
| "sha_rounds s (kw # kws) = sha_rounds (sha_round s (fst kw) (snd kw)) kws"

definition sha_block :: "sha_state \<Rightarrow> 32 word list \<Rightarrow> sha_state" where
  "sha_block s ws =
     (case (s, sha_rounds s (zip Sha_K (sha_schedule 48 (rev ws)))) of
        ((a, b, c, d, e, f, g, h), (a', b', c', d', e', f', g', h')) \<Rightarrow>
          (a + a', b + b', c + c', d + d', e + e', f + f', g + g', h + h'))"

section \<open>Padding and the digest\<close>

definition sha_length_bytes :: "64 word \<Rightarrow> string" where
  "sha_length_bytes bits = map (\<lambda>i. char_of (uint (drop_bit i bits))) [56, 48, 40, 32, 24, 16, 8, 0]"

definition sha_pad :: "string \<Rightarrow> string" where
  "sha_pad m =
     m @ [char_of (128 :: int)] @ replicate ((119 - length m mod 64) mod 64) (char_of (0 :: int))
       @ sha_length_bytes (8 * of_nat (length m))"

definition sha_word :: "char \<Rightarrow> char \<Rightarrow> char \<Rightarrow> char \<Rightarrow> 32 word" where
  "sha_word a b c d = ((of_char a * 256 + of_char b) * 256 + of_char c) * 256 + of_char d"

fun sha_words :: "string \<Rightarrow> 32 word list" where
  "sha_words (a # b # c # d # rest) = sha_word a b c d # sha_words rest"
| "sha_words _ = []"

fun sha_blocks :: "sha_state \<Rightarrow> 32 word list \<Rightarrow> sha_state" where
  "sha_blocks s [] = s"
| "sha_blocks s (w # ws) = sha_blocks (sha_block s (w # take 15 ws)) (drop 15 ws)"

definition sha_bytes :: "32 word \<Rightarrow> string" where
  "sha_bytes w = map (\<lambda>i. char_of (uint (drop_bit i w))) [24, 16, 8, 0]"

definition sha256 :: "string \<Rightarrow> string" where
  "sha256 m =
     (case sha_blocks Sha_H0 (sha_words (sha_pad m)) of
        (a, b, c, d, e, f, g, h) \<Rightarrow> concat (map sha_bytes [a, b, c, d, e, f, g, h]))"

section \<open>The writer and the hexadecimal form\<close>

text \<open>A \<open>hash.Hash\<close> from \<open>sha256.New()\<close> is the bytes written to it so far.\<close>

type_synonym sha_writer = string

definition sha_New :: sha_writer where
  "sha_New = []"

definition sha_Write :: "sha_writer \<Rightarrow> string \<Rightarrow> sha_writer" where
  "sha_Write h p = h @ p"

definition sha_Sum :: "sha_writer \<Rightarrow> string" where
  "sha_Sum h = sha256 h"

definition hex_digit :: "nat \<Rightarrow> char" where
  "hex_digit n = ''0123456789abcdef'' ! n"

definition hex_byte :: "char \<Rightarrow> string" where
  "hex_byte c = [hex_digit (of_char c div 16), hex_digit (of_char c mod 16)]"

text \<open>\<open>fmt.Sprintf("%x", bytes)\<close>\<close>

definition hex_string :: "string \<Rightarrow> string" where
  "hex_string bs = concat (map hex_byte bs)"

section \<open>Shape of the digest\<close>

lemma length_sha_pad: "length (sha_pad m) mod 64 = 0"
proof -
  define q where "q = length m div 64"
  define r where "r = length m mod 64"
  have len: "length m = 64 * q + r" and r: "r < 64"
    by (simp_all add: q_def r_def)
  have z: "(119 - r) mod 64 = (if r \<le> 55 then 55 - r else 119 - r)"
  proof (cases "r \<le> 55")
    case True
    then have "119 - r = (55 - r) + 64" by simp
    with True show ?thesis by (metis mod_add_self2 mod_less le_imp_diff_is_add less_imp_diff_less
        numeral_less_iff semiring_norm(76) semiring_norm(78) semiring_norm(80) semiring_norm(81))
  qed simp
  have "length (sha_pad m) = 64 * q + r + 1 + (119 - r) mod 64 + 8"
    by (simp add: sha_pad_def sha_length_bytes_def flip: r_def) (simp add: len)
  also have "\<dots> = 64 * (if r \<le> 55 then q + 1 else q + 2)"
    using r by (simp add: z)
  finally show ?thesis by simp
qed

lemma length_sha256 [simp]: "length (sha256 m) = 32"
  by (simp add: sha256_def sha_bytes_def split: prod.splits)

lemma length_hex_string [simp]: "length (hex_string bs) = 2 * length bs"
  by (induction bs) (simp_all add: hex_string_def hex_byte_def)

lemma hex_digit_inj: "m < 16 \<Longrightarrow> n < 16 \<Longrightarrow> hex_digit m = hex_digit n \<Longrightarrow> m = n"
  unfolding hex_digit_def by (subst (asm) nth_eq_iff_index_eq) simp_all

lemma hex_byte_inj: "hex_byte c = hex_byte d \<longleftrightarrow> c = d"
proof
  assume h: "hex_byte c = hex_byte d"
  from h have "(of_char c :: nat) div 16 = of_char d div 16"
    by (intro hex_digit_inj) (auto simp: hex_byte_def of_char_div_16)
  moreover from h have "(of_char c :: nat) mod 16 = of_char d mod 16"
    by (intro hex_digit_inj) (auto simp: hex_byte_def)
  ultimately have "(of_char c :: nat) = of_char d"
    by (metis div_mult_mod_eq)
  then show "c = d" by simp
qed simp

lemma hex_string_inj: "hex_string bs = hex_string cs \<longleftrightarrow> bs = cs"
proof
  show "hex_string bs = hex_string cs \<Longrightarrow> bs = cs"
  proof (induction bs arbitrary: cs)
    case Nil
    then show ?case by (cases cs) (auto simp: hex_string_def hex_byte_def)
  next
    case (Cons b bs)
    then obtain c cs' where cs: "cs = c # cs'"
      by (cases cs) (auto simp: hex_string_def hex_byte_def)
    with Cons.prems have "hex_byte b = hex_byte c \<and> hex_string bs = hex_string cs'"
      by (auto simp: hex_string_def hex_byte_def)
    with Cons.IH cs show ?case by (simp add: hex_byte_inj)
  qed
qed simp

lemma hex_digit_set: "n < 16 \<Longrightarrow> hex_digit n \<in> set ''0123456789abcdef''"
  unfolding hex_digit_def by (rule nth_mem) simp

lemma hex_string_set: "set (hex_string bs) \<subseteq> set ''0123456789abcdef''"
proof (induction bs)
  case Nil
  show ?case by (simp add: hex_string_def)
next
  case (Cons b bs)
  have "set (hex_byte b) \<subseteq> set ''0123456789abcdef''"
    using hex_digit_set [OF of_char_div_16 [of b]] hex_digit_set [of "of_char b mod 16"]
    by (simp add: hex_byte_def)
  with Cons.IH show ?case by (simp add: hex_string_def)
qed

text \<open>The published digest of the empty message, evaluated by the kernel.\<close>

lemma sha_words_empty:
  "sha_words (sha_pad []) = [0x80000000, 0, 0, 0, 0, 0, 0, 0, 0, 0, 0, 0, 0, 0, 0, 0]"
  by code_simp

lemma sha_block_empty:
  "sha_block Sha_H0 [0x80000000, 0, 0, 0, 0, 0, 0, 0, 0, 0, 0, 0, 0, 0, 0, 0] =
    (0xe3b0c442, 0x98fc1c14, 0x9afbf4c8, 0x996fb924, 0x27ae41e4, 0x649b934c, 0xa495991b, 0x7852b855)"
  by code_simp

lemma sha256_empty:
  "hex_string (sha256 [])
     = ''e3b0c44298fc1c149afbf4c8996fb92427ae41e4649b934ca495991b7852b855''"
proof -
  have 1: "sha256 [] = concat (map sha_bytes [0xe3b0c442, 0x98fc1c14, 0x9afbf4c8, 0x996fb924,
      0x27ae41e4, 0x649b934c, 0xa495991b, 0x7852b855])"
    by (simp add: sha256_def sha_words_empty sha_block_empty)
  have 2: "hex_string (concat (map sha_bytes [0xe3b0c442, 0x98fc1c14, 0x9afbf4c8, 0x996fb924,
      0x27ae41e4, 0x649b934c, 0xa495991b, 0x7852b855])) =
      ''e3b0c44298fc1c149afbf4c8996fb92427ae41e4649b934ca495991b7852b855''"
    by code_simp
  show ?thesis by (simp only: 1 2)
qed

end
