(* ===== verification/Proto_Messages.thy ===== *)
theory Proto_Messages
  imports Go_Prelude
begin

text \<open>
  The messages of \<open>proto/\<close> the services exchange, one record per message with the fields of its
  \<open>.proto\<close> file, and the interface to the protobuf runtime, which is not part of the repository.
  A message field is an option (nil when unset), a repeated field a list, a map field a partial
  map. The type \<open>'any\<close> stands for \<open>google.protobuf.Any\<close>.
\<close>

section \<open>proto/types\<close>

datatype atomic_type = AT_UNKNOWN | AT_STRING | AT_BOOL | AT_CONTAINER_IMAGE | AT_IMAGE

datatype ptype = PType "type_impl option"
and type_impl =
    Atomic atomic_type
  | Bag "ptype option"
  | Vector "ptype option"
  | Tuple "pfield list"
  | Dictionary "pfield list"
and pfield = PField string "ptype option"

fun pfield_name :: "pfield \<Rightarrow> string" where
  "pfield_name (PField n t) = n"

datatype scalar = ScalarS string | ScalarB bool

datatype scalar_value = ScalarValue "scalar option"

record field_value =
  fv_name :: string
  fv_value :: "scalar_value option"

record typed_value =
  tv_type :: "ptype option"
  tv_fields :: "field_value list"

definition zero_typed_value :: typed_value where
  "zero_typed_value = \<lparr>tv_type = None, tv_fields = []\<rparr>"

section \<open>proto/channel and proto/action\<close>

record channel =
  ch_name :: string
  ch_type :: "ptype option"

record commit_point =
  cp_name :: string
  cp_branch :: string
  cp_commit_sha :: string
  cp_commit_required :: string

record 'any action =
  act_kind :: string
  act_inputs :: "channel list"
  act_outputs :: "channel list"
  act_base_image :: string
  act_commit_point :: "commit_point option"
  act_cmd_target :: string
  act_config :: "'any option"

record build_image_config =
  bic_image_name :: string
  bic_image_tag :: string
  bic_base_image :: string
  bic_commit_point :: "commit_point option"
  bic_bazel_targets :: "string list"

definition zero_build_image_config :: build_image_config where
  "zero_build_image_config =
     \<lparr>bic_image_name = [], bic_image_tag = [], bic_base_image = [], bic_commit_point = None,
      bic_bazel_targets = []\<rparr>"

record generate_config =
  gc_id :: string

definition zero_generate_config :: generate_config where
  "zero_generate_config = \<lparr>gc_id = []\<rparr>"

section \<open>proto/agraph and proto/context\<close>

record 'any agraph =
  ag_name :: string
  ag_actions :: "string \<rightharpoonup> 'any action"

record substitution =
  sub_variable :: string
  sub_replace_value :: string
  sub_value :: string

record 'any eval_context =
  ctx_actions :: "'any agraph option"
  ctx_substitutions :: "substitution list"

section \<open>proto/async_service\<close>

record 'any op_status =
  st_code :: int
  st_message :: string
  st_details :: "'any list"

datatype 'any op_result =
    OperationError "'any op_status option"
  | OperationResponse "'any option"

record 'any operation =
  op_name :: string
  op_done :: bool
  op_metadata :: "'any option"
  op_result :: "'any op_result option"

text \<open>The generated getter: the response of an operation, nil unless that arm is set.\<close>

definition GetResponse :: "'any operation \<Rightarrow> 'any option" where
  "GetResponse o' =
     (case op_result o' of
        Some (OperationResponse a) \<Rightarrow> a
      | _ \<Rightarrow> None)"

section \<open>Requests and responses of the services\<close>

record build_request =
  br_commitSHA :: string
  br_branch :: string
  br_target :: "string list"

record build_response =
  bresp_response :: string
  bresp_imageName :: string
  bresp_imageTag :: string
  bresp_imageDigest :: string

definition zero_build_response :: build_response where
  "zero_build_response =
     \<lparr>bresp_response = [], bresp_imageName = [], bresp_imageTag = [], bresp_imageDigest = []\<rparr>"

record 'any get_request =
  gr_evaluation :: string
  gr_context :: "'any eval_context option"
  gr_value :: string
  gr_skip_caching :: bool

record get_response =
  gresp_name :: string
  gresp_value :: "typed_value option"

definition zero_get_response :: get_response where
  "zero_get_response = \<lparr>gresp_name = [], gresp_value = None\<rparr>"

record 'any eval_request =
  er_context :: "'any eval_context option"
  er_values :: "string list"
  er_skip_caching :: bool

record eval_response =
  eresp_values :: "string \<rightharpoonup> typed_value option"

definition zero_eval_response :: eval_response where
  "zero_eval_response = \<lparr>eresp_values = Map.empty\<rparr>"

record 'any create_job_request =
  cjr_actions :: "'any agraph option"

section \<open>The protobuf runtime\<close>

text \<open>
  \<open>anypb.New(m)\<close> gives an \<open>Any\<close> or an error; \<open>x.UnmarshalTo(m)\<close> fills a fresh message and gives
  an error or nil. The code sometimes drops that error and goes on with what the message holds,
  so unpacking gives both. \<open>commit_point_text\<close> is what \<open>fmt.Sprintf("%v", p)\<close> prints for a
  \<open>*CommitPoint\<close>, nil included.
\<close>

record 'any proto_lib =
  pack_build_image_config :: "build_image_config \<Rightarrow> go_error + 'any"
  unpack_build_image_config :: "'any option \<Rightarrow> build_image_config \<times> go_error option"
  pack_generate_config :: "generate_config \<Rightarrow> go_error + 'any"
  unpack_generate_config :: "'any option \<Rightarrow> generate_config \<times> go_error option"
  pack_build_response :: "build_response \<Rightarrow> go_error + 'any"
  unpack_build_response :: "'any option \<Rightarrow> build_response \<times> go_error option"
  pack_get_response :: "get_response \<Rightarrow> go_error + 'any"
  unpack_get_response :: "'any option \<Rightarrow> get_response \<times> go_error option"
  pack_eval_response :: "eval_response \<Rightarrow> go_error + 'any"
  unpack_eval_response :: "'any option \<Rightarrow> eval_response \<times> go_error option"
  commit_point_text :: "commit_point option \<Rightarrow> string"

text \<open>
  What the code relies on, as the package's documentation states it: an \<open>Any\<close> made from a message
  unpacks into a message of the same type with the same contents (a nil message in a map field
  comes back as an empty one), \<open>UnmarshalTo\<close> reports an error on a nil \<open>Any\<close> and on one that
  holds another message type, and in both cases leaves a fresh message as it was.
\<close>

definition wire_eval_response :: "eval_response \<Rightarrow> eval_response" where
  "wire_eval_response r =
     \<lparr>eresp_values = (\<lambda>k. case eresp_values r k of
         Some None \<Rightarrow> Some (Some zero_typed_value)
       | v \<Rightarrow> v)\<rparr>"

definition unpacks :: "('m \<Rightarrow> go_error + 'any) \<Rightarrow> ('any option \<Rightarrow> 'm \<times> go_error option) \<Rightarrow>
    ('m \<Rightarrow> 'm) \<Rightarrow> bool" where
  "unpacks pack unpack norm \<longleftrightarrow> (\<forall>m a. pack m = Inr a \<longrightarrow> unpack (Some a) = (norm m, None))"

definition rejects :: "('m \<Rightarrow> go_error + 'any) \<Rightarrow> ('any option \<Rightarrow> 'n \<times> go_error option) \<Rightarrow>
    'n \<Rightarrow> bool" where
  "rejects pack unpack zero \<longleftrightarrow>
     (\<forall>m a. pack m = Inr a \<longrightarrow> (\<exists>e. unpack (Some a) = (zero, Some e)))"

definition rejects_nil :: "('any option \<Rightarrow> 'n \<times> go_error option) \<Rightarrow> 'n \<Rightarrow> bool" where
  "rejects_nil unpack zero \<longleftrightarrow> (\<exists>e. unpack None = (zero, Some e))"

definition proto_laws :: "'any proto_lib \<Rightarrow> bool" where
  "proto_laws L \<longleftrightarrow>
     unpacks (pack_build_image_config L) (unpack_build_image_config L) id \<and>
     unpacks (pack_generate_config L) (unpack_generate_config L) id \<and>
     unpacks (pack_build_response L) (unpack_build_response L) id \<and>
     unpacks (pack_get_response L) (unpack_get_response L) id \<and>
     unpacks (pack_eval_response L) (unpack_eval_response L) wire_eval_response \<and>
     rejects (pack_generate_config L) (unpack_build_image_config L) zero_build_image_config \<and>
     rejects (pack_build_image_config L) (unpack_generate_config L) zero_generate_config \<and>
     rejects (pack_build_response L) (unpack_get_response L) zero_get_response \<and>
     rejects (pack_get_response L) (unpack_build_response L) zero_build_response \<and>
     rejects (pack_get_response L) (unpack_eval_response L) zero_eval_response \<and>
     rejects_nil (unpack_build_image_config L) zero_build_image_config \<and>
     rejects_nil (unpack_generate_config L) zero_generate_config \<and>
     rejects_nil (unpack_build_response L) zero_build_response \<and>
     rejects_nil (unpack_get_response L) zero_get_response \<and>
     rejects_nil (unpack_eval_response L) zero_eval_response"

text \<open>Packing also reports an error for text that is not UTF-8; some results need it not to.\<close>

definition packs_all :: "('m \<Rightarrow> go_error + 'any) \<Rightarrow> bool" where
  "packs_all pack \<longleftrightarrow> (\<forall>m. \<exists>a. pack m = Inr a)"

named_theorems proto_facts \<open>the laws of the protobuf runtime, one per message pair\<close>

lemma proto_laws_unpack [proto_facts]:
  assumes "proto_laws L"
  shows "pack_build_image_config L c = Inr a \<Longrightarrow> unpack_build_image_config L (Some a) = (c, None)"
    and "pack_generate_config L g = Inr a \<Longrightarrow> unpack_generate_config L (Some a) = (g, None)"
    and "pack_build_response L b = Inr a \<Longrightarrow> unpack_build_response L (Some a) = (b, None)"
    and "pack_get_response L r = Inr a \<Longrightarrow> unpack_get_response L (Some a) = (r, None)"
    and "pack_eval_response L v = Inr a \<Longrightarrow>
           unpack_eval_response L (Some a) = (wire_eval_response v, None)"
  using assms by (simp_all add: proto_laws_def unpacks_def)

lemma proto_laws_reject [proto_facts]:
  assumes "proto_laws L"
  shows "pack_generate_config L g = Inr a \<Longrightarrow>
           \<exists>e. unpack_build_image_config L (Some a) = (zero_build_image_config, Some e)"
    and "pack_build_image_config L c = Inr a \<Longrightarrow>
           \<exists>e. unpack_generate_config L (Some a) = (zero_generate_config, Some e)"
    and "pack_build_response L b = Inr a \<Longrightarrow>
           \<exists>e. unpack_get_response L (Some a) = (zero_get_response, Some e)"
    and "pack_get_response L r = Inr a \<Longrightarrow>
           \<exists>e. unpack_build_response L (Some a) = (zero_build_response, Some e)"
  using assms by (auto simp: proto_laws_def rejects_def)

lemma proto_laws_nil [proto_facts]:
  assumes "proto_laws L"
  shows "\<exists>e. unpack_build_image_config L None = (zero_build_image_config, Some e)"
    and "\<exists>e. unpack_generate_config L None = (zero_generate_config, Some e)"
    and "\<exists>e. unpack_build_response L None = (zero_build_response, Some e)"
    and "\<exists>e. unpack_get_response L None = (zero_get_response, Some e)"
    and "\<exists>e. unpack_eval_response L None = (zero_eval_response, Some e)"
  using assms by (simp_all add: proto_laws_def rejects_nil_def)

section \<open>A runtime that satisfies the laws\<close>

text \<open>
  An \<open>Any\<close> as a tagged message. It is the instance the witnesses run on: it shows that the laws
  can hold together.
\<close>

datatype tagged_any =
    AnyBuildImageConfig build_image_config
  | AnyGenerateConfig generate_config
  | AnyBuildResponse build_response
  | AnyGetResponse get_response
  | AnyEvalResponse eval_response

definition tagged_text :: "commit_point option \<Rightarrow> string" where
  "tagged_text p =
     (case p of
        None \<Rightarrow> ''<nil>''
      | Some c \<Rightarrow> ''branch:'' @ cp_branch c @ '' commit_sha:'' @ cp_commit_sha c)"

definition tagged_lib :: "tagged_any proto_lib" where
  "tagged_lib =
     \<lparr>pack_build_image_config = (\<lambda>m. Inr (AnyBuildImageConfig m)),
      unpack_build_image_config = (\<lambda>a. case a of
          Some (AnyBuildImageConfig m) \<Rightarrow> (m, None)
        | _ \<Rightarrow> (zero_build_image_config, Some (ErrText ''mismatched message type''))),
      pack_generate_config = (\<lambda>m. Inr (AnyGenerateConfig m)),
      unpack_generate_config = (\<lambda>a. case a of
          Some (AnyGenerateConfig m) \<Rightarrow> (m, None)
        | _ \<Rightarrow> (zero_generate_config, Some (ErrText ''mismatched message type''))),
      pack_build_response = (\<lambda>m. Inr (AnyBuildResponse m)),
      unpack_build_response = (\<lambda>a. case a of
          Some (AnyBuildResponse m) \<Rightarrow> (m, None)
        | _ \<Rightarrow> (zero_build_response, Some (ErrText ''mismatched message type''))),
      pack_get_response = (\<lambda>m. Inr (AnyGetResponse m)),
      unpack_get_response = (\<lambda>a. case a of
          Some (AnyGetResponse m) \<Rightarrow> (m, None)
        | _ \<Rightarrow> (zero_get_response, Some (ErrText ''mismatched message type''))),
      pack_eval_response = (\<lambda>m. Inr (AnyEvalResponse (wire_eval_response m))),
      unpack_eval_response = (\<lambda>a. case a of
          Some (AnyEvalResponse m) \<Rightarrow> (m, None)
        | _ \<Rightarrow> (zero_eval_response, Some (ErrText ''mismatched message type''))),
      commit_point_text = tagged_text\<rparr>"

lemma tagged_lib_simps [simp]:
  "pack_build_image_config tagged_lib m = Inr (AnyBuildImageConfig m)"
  "pack_generate_config tagged_lib g = Inr (AnyGenerateConfig g)"
  "pack_build_response tagged_lib b = Inr (AnyBuildResponse b)"
  "pack_get_response tagged_lib r = Inr (AnyGetResponse r)"
  "pack_eval_response tagged_lib v = Inr (AnyEvalResponse (wire_eval_response v))"
  "unpack_build_image_config tagged_lib (Some (AnyBuildImageConfig m)) = (m, None)"
  "unpack_generate_config tagged_lib (Some (AnyGenerateConfig g)) = (g, None)"
  "unpack_build_response tagged_lib (Some (AnyBuildResponse b)) = (b, None)"
  "unpack_get_response tagged_lib (Some (AnyGetResponse r)) = (r, None)"
  "unpack_eval_response tagged_lib (Some (AnyEvalResponse v)) = (v, None)"
  by (simp_all add: tagged_lib_def)

lemma tagged_lib_laws [simp]: "proto_laws tagged_lib"
  by (auto simp: proto_laws_def unpacks_def rejects_def rejects_nil_def tagged_lib_def)

end
