(* ===== verification/Value_Types.thy ===== *)
theory Value_Types
  imports Proto_Messages
begin

text \<open>
  \<open>pkg/types\<close>: the typed values the services answer with. A dictionary is built from a Go map by
  two separate loops, one for the type (in \<open>stringMapType\<close>) and one for the values, so the two
  lists of fields may come in different orders.
\<close>

definition scalarType :: "atomic_type \<Rightarrow> ptype" where
  "scalarType t = PType (Some (Atomic t))"

definition stringMapType :: "string list \<Rightarrow> (string \<rightharpoonup> string) \<Rightarrow> ptype" where
  "stringMapType ks m =
     PType (Some (Dictionary
       (map (\<lambda>(k, _). PField k (Some (scalarType AT_STRING))) (range_entries m ks))))"

definition scalarValueString :: "string \<Rightarrow> field_value list" where
  "scalarValueString s = [\<lparr>fv_name = [], fv_value = Some (ScalarValue (Some (ScalarS s)))\<rparr>]"

definition StringScalar :: "string \<Rightarrow> typed_value" where
  "StringScalar s =
     \<lparr>tv_type = Some (scalarType AT_STRING), tv_fields = scalarValueString s\<rparr>"

text \<open>\<open>kv\<close> is the order of the loop over the values, \<open>kt\<close> that of the loop in \<open>stringMapType\<close>.\<close>

definition StringDictionary :: "string list \<Rightarrow> string list \<Rightarrow> (string \<rightharpoonup> string) \<Rightarrow> typed_value" where
  "StringDictionary kt kv m =
     (let fieldValues =
            map (\<lambda>(k, v). \<lparr>fv_name = k, fv_value = Some (ScalarValue (Some (ScalarS v)))\<rparr>)
              (range_entries m kv)
      in \<lparr>tv_type = Some (stringMapType kt m), tv_fields = fieldValues\<rparr>)"

section \<open>What a typed value means\<close>

text \<open>
  A value conforms to its type when a string scalar has one unnamed string field, and a dictionary
  of strings has, for every field of the type, exactly one string field of that name and no other.
\<close>

fun is_string :: "scalar_value option \<Rightarrow> bool" where
  "is_string (Some (ScalarValue (Some (ScalarS s)))) = True"
| "is_string _ = False"

definition string_field :: "pfield \<Rightarrow> bool" where
  "string_field f = (case f of PField n t \<Rightarrow> t = Some (scalarType AT_STRING))"

definition well_typed :: "typed_value \<Rightarrow> bool" where
  "well_typed v \<longleftrightarrow>
     (case tv_type v of
        Some (PType (Some (Atomic AT_STRING))) \<Rightarrow>
          map fv_name (tv_fields v) = [[]] \<and> list_all (is_string \<circ> fv_value) (tv_fields v)
      | Some (PType (Some (Dictionary fs))) \<Rightarrow>
          list_all string_field fs \<and> distinct (map pfield_name fs) \<and>
          mset (map fv_name (tv_fields v)) = mset (map pfield_name fs) \<and>
          list_all (is_string \<circ> fv_value) (tv_fields v)
      | _ \<Rightarrow> False)"

text \<open>Reading a dictionary back: the abstraction from a typed value to the map it encodes.\<close>

fun string_of_scalar :: "scalar_value option \<Rightarrow> string" where
  "string_of_scalar (Some (ScalarValue (Some (ScalarS s)))) = s"
| "string_of_scalar _ = []"

definition dictionary_map :: "typed_value \<Rightarrow> (string \<rightharpoonup> string)" where
  "dictionary_map v = map_of (map (\<lambda>f. (fv_name f, string_of_scalar (fv_value f))) (tv_fields v))"

lemma well_typed_StringScalar: "well_typed (StringScalar s)"
  by (simp add: well_typed_def StringScalar_def scalarType_def scalarValueString_def)

lemma names_StringDictionary:
  "map fv_name (tv_fields (StringDictionary kt kv m)) = map fst (range_entries m kv)"
  by (simp add: StringDictionary_def case_prod_unfold comp_def)

lemma fields_stringMapType:
  "map pfield_name (map (\<lambda>(k, _). PField k (Some (scalarType AT_STRING))) (range_entries m ks))
     = map fst (range_entries m ks)"
  by (simp add: case_prod_unfold comp_def)

lemma well_typed_StringDictionary:
  assumes "range_order m kt" and "range_order m kv"
  shows "well_typed (StringDictionary kt kv m)"
proof -
  have "mset kv = mset kt" and "distinct kt"
    using assms range_order_mset by (blast, simp add: range_order_def)
  then show ?thesis
    using assms names_StringDictionary [of kt kv m] fields_stringMapType [of m kt]
    by (auto simp: well_typed_def StringDictionary_def stringMapType_def string_field_def list_all_iff
        simp del: map_map)
qed

lemma dictionary_map_StringDictionary:
  assumes "range_order m kv"
  shows "dictionary_map (StringDictionary kt kv m) = m"
proof -
  have "dictionary_map (StringDictionary kt kv m) = map_of (range_entries m kv)"
    by (simp add: dictionary_map_def StringDictionary_def case_prod_unfold comp_def)
  with assms show ?thesis by (simp add: map_of_range_entries)
qed

section \<open>Properties\<close>

text \<open>
  C37. \<open>StringDictionary\<close> makes a value that conforms to the type it carries and encodes exactly the
  map it was given, whatever orders its two loops over the map happen to take.
\<close>

theorem StringDictionary_correct:
  assumes "range_order m kt" and "range_order m kv"
  shows "well_typed (StringDictionary kt kv m) \<and> dictionary_map (StringDictionary kt kv m) = m"
  using assms by (simp add: well_typed_StringDictionary dictionary_map_StringDictionary)

theorem StringDictionary_correct_witness:
  "well_typed (StringDictionary [''a'', ''b''] [''b'', ''a''] [''a'' \<mapsto> ''1'', ''b'' \<mapsto> ''2'']) \<and>
   dictionary_map (StringDictionary [''a'', ''b''] [''b'', ''a''] [''a'' \<mapsto> ''1'', ''b'' \<mapsto> ''2'']) =
     [''a'' \<mapsto> ''1'', ''b'' \<mapsto> ''2'']"
  by (rule StringDictionary_correct) (auto simp: range_order_def)

end
