(* ===== verification/Actions.thy ===== *)
theory Actions
  imports Go_Sha256 Value_Types
begin

text \<open>
  \<open>pkg/actions\<close> and \<open>pkg/agraph\<close>: the built-in actions and the graphs that hold them, and the
  digest of an action, which is the key of the cache. The digest covers the base image and the
  commit point of an image build, and nothing else: the image's name and tag and the bazel targets
  are left out on purpose (a comment in \<open>action.proto\<close> says so), the targets being compared by
  the cache itself.
\<close>

section \<open>pkg/actions\<close>

definition default_build_image_config :: build_image_config where
  "default_build_image_config =
     \<lparr>bic_image_name = ''eval'',
      bic_image_tag = ''latest'',
      bic_base_image = ''debian:buster'',
      bic_commit_point = Some
        \<lparr>cp_name = [], cp_branch = ''main'',
         cp_commit_sha = ''1937df925312572ef64753e9bf20a208de98b8be'',
         cp_commit_required = []\<rparr>,
      bic_bazel_targets = [''//actions/wrapper'']\<rparr>"

text \<open>When packing fails the code prints a line and goes on with the nil \<open>Any\<close> it got.\<close>

fun packed_or_nil :: "go_error + 'any \<Rightarrow> 'any option" where
  "packed_or_nil (Inl e) = None"
| "packed_or_nil (Inr a) = Some a"

definition NewBuildImageAction :: "'any proto_lib \<Rightarrow> 'any action" where
  "NewBuildImageAction L =
     (let config = default_build_image_config;
          anyConfig = packed_or_nil (pack_build_image_config L config)
      in \<lparr>act_kind = ''build-image'',
          act_inputs = [],
          act_outputs = [\<lparr>ch_name = ''info'', ch_type = Some (PType (Some (Atomic AT_STRING)))\<rparr>],
          act_base_image = [],
          act_commit_point = None,
          act_cmd_target = [],
          act_config = anyConfig\<rparr>)"

definition NewGenerateAction :: "'any proto_lib \<Rightarrow> 'any action" where
  "NewGenerateAction L =
     (let config = zero_generate_config;
          anyConfig = packed_or_nil (pack_generate_config L config)
      in \<lparr>act_kind = ''generate'',
          act_inputs = [],
          act_outputs = [\<lparr>ch_name = ''images'', ch_type = Some (PType (Some (Atomic AT_STRING)))\<rparr>],
          act_base_image = [],
          act_commit_point = None,
          act_cmd_target = ''//actions/generate'',
          act_config = anyConfig\<rparr>)"

definition buildImageActionDigest :: "'any proto_lib \<Rightarrow> 'any action \<Rightarrow> go_error + string" where
  "buildImageActionDigest L action =
     (case unpack_build_image_config L (act_config action) of
        (buildConfig, Some err) \<Rightarrow> Inl err
      | (buildConfig, None) \<Rightarrow>
          (let h0 = sha_New;
               h1 = sha_Write h0 (bic_base_image buildConfig);
               h2 = sha_Write h1 (commit_point_text L (bic_commit_point buildConfig))
           in Inr (hex_string (sha_Sum h2))))"

definition generateActionDigest :: "'any proto_lib \<Rightarrow> 'any action \<Rightarrow> go_error + string" where
  "generateActionDigest L action =
     (case unpack_generate_config L (act_config action) of
        (generateConfig, Some err) \<Rightarrow> Inl err
      | (generateConfig, None) \<Rightarrow>
          (let h0 = sha_New;
               h1 = sha_Write h0 (gc_id generateConfig)
           in Inr (hex_string (sha_Sum h1))))"

definition digest_functions ::
    "'any proto_lib \<Rightarrow> string \<rightharpoonup> ('any action \<Rightarrow> go_error + string)" where
  "digest_functions L =
     [''build-image'' \<mapsto> buildImageActionDigest L, ''generate'' \<mapsto> generateActionDigest L]"

definition ActionDigest :: "'any proto_lib \<Rightarrow> 'any action \<Rightarrow> go_error + string" where
  "ActionDigest L action =
     (case digest_functions L (act_kind action) of
        Some f \<Rightarrow> f action
      | None \<Rightarrow> Inl (ErrText (''digest: unknown action type '' @ act_kind action)))"

section \<open>pkg/agraph\<close>

definition EssentialActions :: "'any agraph option \<Rightarrow> string \<Rightarrow> 'any agraph option" where
  "EssentialActions agraph value = agraph"

text \<open>
  \<open>Execute\<close> only logs: for every action its kind, the error of the digest if there is one, and the
  digest (empty after an error). The log is a list of lines, in the order \<open>ks\<close> of the loop.
\<close>

definition execute_lines :: "'any proto_lib \<Rightarrow> 'any action \<Rightarrow> string list" where
  "execute_lines L a =
     (''kind: '' @ act_kind a) #
     (case ActionDigest L a of
        Inl e \<Rightarrow> [''Error in digest'', ''DIGEST: '']
      | Inr d \<Rightarrow> [''DIGEST: '' @ d])"

definition Execute ::
    "'any proto_lib \<Rightarrow> string list \<Rightarrow> 'any agraph option \<Rightarrow> string list run \<times> unit" where
  "Execute L ks agraph =
     run_then (deref agraph ())
       (\<lambda>g s. (Value (concat (map (\<lambda>(_, a). execute_lines L a) (range_entries (ag_actions g) ks))), s))"

definition ImageGraph :: "'any proto_lib \<Rightarrow> 'any agraph" where
  "ImageGraph L =
     \<lparr>ag_name = ''image'', ag_actions = [''build'' \<mapsto> NewBuildImageAction L]\<rparr>"

definition GenerateGraph :: "'any proto_lib \<Rightarrow> 'any agraph" where
  "GenerateGraph L =
     \<lparr>ag_name = ''generate'', ag_actions = [''generate'' \<mapsto> NewGenerateAction L]\<rparr>"

definition KnownActionGraphs :: "'any proto_lib \<Rightarrow> string \<rightharpoonup> 'any agraph" where
  "KnownActionGraphs L =
     Map.empty(''image'' \<mapsto> ImageGraph L, ''generate'' \<mapsto> GenerateGraph L)"

text \<open>\<open>Dump\<close> reads the graph's actions through the pointer: a nil graph panics.\<close>

definition dump_action :: "string \<Rightarrow> 'any action \<Rightarrow> string list" where
  "dump_action k v =
     (k @ '': '' @ concat (map (\<lambda>i. '' '' @ ch_name i) (act_inputs v))) #
     map (\<lambda>out. ''    '' @ ch_name out) (act_outputs v)"

definition Dump :: "string list \<Rightarrow> 'any agraph option \<Rightarrow> string list run \<times> unit" where
  "Dump ks ag =
     run_then (deref ag ())
       (\<lambda>g s. (Value (concat (map (\<lambda>(k, v). dump_action k v) (range_entries (ag_actions g) ks))), s))"

section \<open>Facts about the digest\<close>

lemma digest_functions_simps [simp]:
  "digest_functions L ''build-image'' = Some (buildImageActionDigest L)"
  "digest_functions L ''generate'' = Some (generateActionDigest L)"
  by (simp_all add: digest_functions_def)

lemma digest_functions_None:
  "k \<noteq> ''build-image'' \<Longrightarrow> k \<noteq> ''generate'' \<Longrightarrow> digest_functions L k = None"
  by (simp add: digest_functions_def)

text \<open>The bytes the digest of an image build is taken of.\<close>

definition digest_input :: "'any proto_lib \<Rightarrow> build_image_config \<Rightarrow> string" where
  "digest_input L c = bic_base_image c @ commit_point_text L (bic_commit_point c)"

lemma ActionDigest_build:
  assumes "act_kind a = ''build-image''" and "unpack_build_image_config L (act_config a) = (c, None)"
  shows "ActionDigest L a = Inr (hex_string (sha256 (digest_input L c)))"
  using assms
  by (simp add: ActionDigest_def buildImageActionDigest_def digest_input_def sha_New_def
      sha_Write_def sha_Sum_def)

lemma ActionDigest_generate:
  assumes "act_kind a = ''generate''" and "unpack_generate_config L (act_config a) = (g, None)"
  shows "ActionDigest L a = Inr (hex_string (sha256 (gc_id g)))"
  using assms
  by (simp add: ActionDigest_def generateActionDigest_def sha_New_def sha_Write_def sha_Sum_def)

lemma ActionDigest_unknown:
  "act_kind a \<noteq> ''build-image'' \<Longrightarrow> act_kind a \<noteq> ''generate'' \<Longrightarrow>
     ActionDigest L a = Inl (ErrText (''digest: unknown action type '' @ act_kind a))"
  by (simp add: ActionDigest_def digest_functions_None)

lemma build_digest_is_hash: "buildImageActionDigest L a = Inr d \<Longrightarrow> \<exists>m. d = hex_string (sha256 m)"
  by (auto simp: buildImageActionDigest_def sha_Sum_def Let_def split: prod.splits option.splits)

lemma generate_digest_is_hash: "generateActionDigest L a = Inr d \<Longrightarrow> \<exists>m. d = hex_string (sha256 m)"
  by (auto simp: generateActionDigest_def sha_Sum_def Let_def split: prod.splits option.splits)

lemma ActionDigest_is_hash:
  assumes "ActionDigest L a = Inr d"
  shows "\<exists>m. d = hex_string (sha256 m)"
proof (cases "act_kind a = ''build-image'' \<or> act_kind a = ''generate''")
  case True
  with assms show ?thesis
    by (auto simp: ActionDigest_def dest: build_digest_is_hash generate_digest_is_hash)
next
  case False
  with assms show ?thesis by (simp add: ActionDigest_unknown)
qed

lemma ActionDigest_shape:
  assumes "ActionDigest L a = Inr d"
  shows "length d = 64 \<and> set d \<subseteq> set ''0123456789abcdef''"
proof -
  from assms obtain m where d: "d = hex_string (sha256 m)"
    using ActionDigest_is_hash by blast
  show ?thesis unfolding d by (intro conjI hex_string_set) simp
qed

lemma KnownActionGraphs_simps [simp]:
  "KnownActionGraphs L ''image'' = Some (ImageGraph L)"
  "KnownActionGraphs L ''generate'' = Some (GenerateGraph L)"
  by (simp_all add: KnownActionGraphs_def)

lemma graph_actions [simp]:
  "ag_actions (ImageGraph L) ''build'' = Some (NewBuildImageAction L)"
  "ag_actions (GenerateGraph L) ''generate'' = Some (NewGenerateAction L)"
  "ag_actions (GenerateGraph L) ''build'' = None"
  "ag_name (ImageGraph L) = ''image''"
  "ag_name (GenerateGraph L) = ''generate''"
  by (simp_all add: ImageGraph_def GenerateGraph_def)

lemma tagged_build_config [simp]:
  "act_config (NewBuildImageAction tagged_lib) = Some (AnyBuildImageConfig default_build_image_config)"
  "act_kind (NewBuildImageAction tagged_lib) = ''build-image''"
  by (simp_all add: NewBuildImageAction_def)

lemma tagged_digests:
  obtains d e where "ActionDigest tagged_lib (NewBuildImageAction tagged_lib) = Inr d"
    and "ActionDigest tagged_lib (NewGenerateAction tagged_lib) = Inr e"
proof
  show "ActionDigest tagged_lib (NewBuildImageAction tagged_lib) =
      Inr (hex_string (sha256 (digest_input tagged_lib default_build_image_config)))"
    by (rule ActionDigest_build) (simp_all add: NewBuildImageAction_def)
  show "ActionDigest tagged_lib (NewGenerateAction tagged_lib) =
      Inr (hex_string (sha256 (gc_id zero_generate_config)))"
    by (rule ActionDigest_generate) (simp_all add: NewGenerateAction_def)
qed

lemma dom_KnownActionGraphs: "dom (KnownActionGraphs L) = {''image'', ''generate''}"
  by (auto simp: KnownActionGraphs_def)

lemma Dump_nil [simp]: "Dump ks None = (Panicked nil_dereference, ())"
  by (simp add: Dump_def)

lemma Dump_Some: "\<exists>out. Dump ks (Some g) = (Value out, ())"
  by (simp add: Dump_def)

lemma Execute_Some: "\<exists>out. Execute L ks (Some g) = (Value out, ())"
  by (simp add: Execute_def)

section \<open>Properties\<close>

text \<open>
  C23. Two image builds have the same digest exactly when the bytes of base image and commit point
  hash to the same value: the image's name and tag and the bazel targets play no part.
\<close>

theorem build_digest_iff:
  assumes "act_kind a = ''build-image''" and "act_kind a' = ''build-image''"
    and "unpack_build_image_config L (act_config a) = (c, None)"
    and "unpack_build_image_config L (act_config a') = (c', None)"
  shows "ActionDigest L a = ActionDigest L a' \<longleftrightarrow>
    sha256 (bic_base_image c @ commit_point_text L (bic_commit_point c)) =
    sha256 (bic_base_image c' @ commit_point_text L (bic_commit_point c'))"
  using ActionDigest_build [OF assms(1,3)] ActionDigest_build [OF assms(2,4)]
  by (simp add: digest_input_def hex_string_inj)

theorem build_digest_iff_witness:
  "ActionDigest tagged_lib (NewBuildImageAction tagged_lib) =
   ActionDigest tagged_lib ((NewBuildImageAction tagged_lib)
     \<lparr>act_config := Some (AnyBuildImageConfig
        (default_build_image_config\<lparr>bic_bazel_targets := [''//other''], bic_image_tag := ''v2''\<rparr>))\<rparr>)"
  using build_digest_iff [of "NewBuildImageAction tagged_lib"
      "(NewBuildImageAction tagged_lib)
        \<lparr>act_config := Some (AnyBuildImageConfig
          (default_build_image_config\<lparr>bic_bazel_targets := [''//other''], bic_image_tag := ''v2''\<rparr>))\<rparr>"
      tagged_lib default_build_image_config
      "default_build_image_config\<lparr>bic_bazel_targets := [''//other''], bic_image_tag := ''v2''\<rparr>"]
  by (simp add: NewBuildImageAction_def)

text \<open>
  A digest, when there is one, is 64 lower-case hexadecimal digits; there is none exactly when
  the kind of the action is unknown or its configuration does not unpack as the kind's.
\<close>

theorem digest_exists_iff:
  "(case ActionDigest L a of
      Inr d \<Rightarrow> length d = 64 \<and> set d \<subseteq> set ''0123456789abcdef''
    | Inl err \<Rightarrow> True) \<and>
   ((\<exists>d. ActionDigest L a = Inr d) \<longleftrightarrow>
     act_kind a = ''build-image'' \<and> snd (unpack_build_image_config L (act_config a)) = None \<or>
     act_kind a = ''generate'' \<and> snd (unpack_generate_config L (act_config a)) = None)"
proof
  show "case ActionDigest L a of Inr d \<Rightarrow> length d = 64 \<and> set d \<subseteq> set ''0123456789abcdef'' | Inl err \<Rightarrow> True"
    using ActionDigest_shape [of L a] by (cases "ActionDigest L a") auto
  show "(\<exists>d. ActionDigest L a = Inr d) \<longleftrightarrow>
     act_kind a = ''build-image'' \<and> snd (unpack_build_image_config L (act_config a)) = None \<or>
     act_kind a = ''generate'' \<and> snd (unpack_generate_config L (act_config a)) = None"
  proof (cases "act_kind a = ''build-image'' \<or> act_kind a = ''generate''")
    case True
    then show ?thesis
      by (auto simp: ActionDigest_def buildImageActionDigest_def generateActionDigest_def Let_def
          split: prod.splits option.splits)
  next
    case False
    then show ?thesis by (simp add: ActionDigest_unknown)
  qed
qed

end
