(* ===== verification/Service_Contracts.thy ===== *)
theory Service_Contracts
  imports Proto_Messages
begin

text \<open>
  The contracts of the services as their clients see them, through gRPC stubs: a stub takes what
  the environment answers during the call (\<open>'x\<close>), the server's state and the request, and gives a
  result or an error and the server's next state. \<open>operations_service\<close> is the long-running
  operations service of \<open>proto/async_service\<close>, which the builder, the cache and the engine all
  serve and which every poller relies on; \<open>builder_service\<close> adds what the cache relies on.
\<close>

section \<open>Long-running operations\<close>

text \<open>
  \<open>finished s n\<close>: the server has a final answer for the operation \<open>n\<close>. A reply says so truthfully,
  and asking only observes: it neither finishes an operation nor makes one unfinished.
\<close>

locale operations_service =
  fixes get_operation :: "'x \<Rightarrow> 's \<Rightarrow> string \<Rightarrow> (go_error + 'any operation) \<times> 's"
    and finished :: "'s \<Rightarrow> string \<Rightarrow> bool"
    and invar :: "'s \<Rightarrow> bool"
  assumes invar_get: "invar s \<Longrightarrow> invar (snd (get_operation x s n))"
    and done_iff: "invar s \<Longrightarrow> get_operation x s n = (Inr r, s') \<Longrightarrow> op_done r \<longleftrightarrow> finished s n"
    and finished_get:
      "invar s \<Longrightarrow> get_operation x s n = (Inr r, s') \<Longrightarrow> finished s' m \<longleftrightarrow> finished s m"
begin

text \<open>Polling a list of operations, each with the answers of its own call.\<close>

fun poll_all :: "('x \<times> string) list \<Rightarrow> 's \<Rightarrow> (go_error + 'any operation) list \<times> 's" where
  "poll_all [] s = ([], s)"
| "poll_all ((x, n) # xns) s =
     (case get_operation x s n of
        (r, s1) \<Rightarrow> (case poll_all xns s1 of (rs, s2) \<Rightarrow> (r # rs, s2)))"

lemma invar_poll_all: "invar s \<Longrightarrow> invar (snd (poll_all xns s))"
proof (induction xns s rule: poll_all.induct)
  case (2 x n xns s)
  then show ?case
    using invar_get [of s x n] by (auto split: prod.splits)
qed simp

lemma finished_poll_all:
  "invar s \<Longrightarrow> poll_all xns s = (rs, s') \<Longrightarrow> (\<forall>r \<in> set rs. \<not> isl r) \<Longrightarrow>
     finished s' m \<longleftrightarrow> finished s m"
proof (induction xns arbitrary: s rs)
  case Nil
  then show ?case by simp
next
  case (Cons xn xns)
  obtain x n where xn: "xn = (x, n)" by (cases xn)
  obtain r s1 where get: "get_operation x s n = (r, s1)" by fastforce
  obtain rs1 s2 where rest: "poll_all xns s1 = (rs1, s2)" by fastforce
  from Cons.prems xn get rest have eqs: "rs = r # rs1" "s' = s2" by auto
  with Cons.prems obtain v where v: "r = Inr v" by (cases r) auto
  from Cons.prems(1) get have "invar s1" using invar_get [of s x n] by simp
  moreover from Cons.prems get v have "finished s1 m \<longleftrightarrow> finished s m" using finished_get by blast
  ultimately show ?case
    using Cons.IH [of s1 rs1] rest eqs Cons.prems(3) by simp
qed

text \<open>
  Once a poll has answered \<open>done\<close>, every later poll of the same operation that answers at all
  answers \<open>done\<close> again.
\<close>

lemma done_again:
  assumes "invar s" and "get_operation x s n = (Inr r, s1)" and "op_done r"
    and "poll_all xns s1 = (rs, s2)" and "\<forall>r \<in> set rs. \<not> isl r"
    and "get_operation y s2 n = (Inr r', s3)"
  shows "op_done r'"
proof -
  have i1: "invar s1" using assms(1,2) invar_get [of s x n] by simp
  have i2: "invar s2" using i1 assms(4) invar_poll_all [of s1 xns] by simp
  have "finished s n" using assms(1-3) done_iff by blast
  then have "finished s1 n" using assms(1,2) finished_get by blast
  then have "finished s2 n" using i1 assms(4,5) finished_poll_all by blast
  then show ?thesis using i2 assms(6) done_iff by blast
qed

end

section \<open>The builder as the cache sees it\<close>

text \<open>
  \<open>fresh y s\<close>: the identifiers the environment answers with were not used before.
  \<open>serves s n r\<close>: the operation \<open>n\<close> was started for the build request \<open>r\<close>. \<open>built s n b\<close>: \<open>b\<close> is
  the answer of that build. A started operation serves the request it was started for, no call
  makes the server forget that, and the response of a finished operation holds the answer of
  its build.
\<close>

locale builder_service = operations_service get_operation finished invar
  for get_operation :: "'x \<Rightarrow> 's \<Rightarrow> string \<Rightarrow> (go_error + 'any operation) \<times> 's"
    and finished :: "'s \<Rightarrow> string \<Rightarrow> bool"
    and invar :: "'s \<Rightarrow> bool" +
  fixes lib :: "'any proto_lib"
    and build :: "'y \<Rightarrow> 's \<Rightarrow> build_request \<Rightarrow> (go_error + 'any operation) \<times> 's"
    and fresh :: "'y \<Rightarrow> 's \<Rightarrow> bool"
    and serves :: "'s \<Rightarrow> string \<Rightarrow> build_request \<Rightarrow> bool"
    and built :: "'s \<Rightarrow> string \<Rightarrow> build_response \<Rightarrow> bool"
  assumes invar_build: "invar s \<Longrightarrow> fresh y s \<Longrightarrow> invar (snd (build y s q))"
    and build_serves: "invar s \<Longrightarrow> build y s q = (Inr r, s') \<Longrightarrow> serves s' (op_name r) q"
    and build_pending: "invar s \<Longrightarrow> build y s q = (Inr r, s') \<Longrightarrow> \<not> op_done r"
    and serves_build: "serves s n q \<Longrightarrow> serves (snd (build y s q')) n q"
    and serves_get: "serves s n q \<Longrightarrow> serves (snd (get_operation x s m)) n q"
    and done_built: "proto_laws lib \<Longrightarrow> invar s \<Longrightarrow> get_operation x s n = (Inr r, s') \<Longrightarrow> op_done r \<Longrightarrow>
      \<exists>b. unpack_build_response lib (GetResponse r) = (b, None) \<and> built s' n b"
    and built_build: "built s n b \<Longrightarrow> built (snd (build y s q)) n b"
    and built_get: "built s n b \<Longrightarrow> built (snd (get_operation x s m)) n b"

end
