(* ===== verification/K8s_Model.thy ===== *)
theory K8s_Model
  imports Go_Prelude "HOL-Library.Word"
begin

text \<open>
  The Kubernetes objects the builder and the runner create, with the fields the sources set, and
  \<open>pkg/k8s\<close>. The cluster itself is not part of the repository: what its API answers to a call is an
  argument of the definition that makes the call.
\<close>

section \<open>Objects\<close>

record host_alias =
  ha_ip :: string
  ha_hostnames :: "string list"

record env_var =
  env_name :: string
  env_value :: string

record container =
  cont_name :: string
  cont_image :: string
  cont_command :: "string list"
  cont_args :: "string list"
  cont_env :: "env_var list"

record job =
  job_generate_name :: string
  job_namespace :: string
  job_labels :: "string \<rightharpoonup> string"
  job_host_aliases :: "host_alias list"
  job_containers :: "container list"
  job_restart_policy :: string
  job_backoff_limit :: "32 word"
  job_ttl_seconds :: "32 word"

record pod_status =
  ps_phase :: string
  ps_message :: string

record pod =
  pod_name :: string
  pod_labels :: "string \<rightharpoonup> string"
  pod_state :: pod_status

section \<open>pkg/k8s\<close>

text \<open>The answers of the two calls that make a client: its configuration, then the client.\<close>

record connect_answers =
  ca_config :: "go_error option"
  ca_client :: "go_error option"

text \<open>
  \<open>NewK8SClient\<close>: outside a cluster it returns an error (the text keeps the cause); when the client
  cannot be made it ends the process.
\<close>

fun error_text :: "go_error \<Rightarrow> string" where
  "error_text (ErrText t) = t"
| "error_text (ErrStatus e) = ''rpc error: '' @ error_text e"
| "error_text ErrUnavailable = ''rpc error: unavailable''"

definition NewK8SClient :: "connect_answers \<Rightarrow> (go_error + unit) run" where
  "NewK8SClient ans =
     (case ca_config ans of
        Some err \<Rightarrow> Value (Inl (ErrText (''No cluster config: '' @ error_text err)))
      | None \<Rightarrow>
          (case ca_client ans of
             Some err \<Rightarrow> Exited (error_text err)
           | None \<Rightarrow> Value (Inr ())))"

definition NewFakeClient :: "(go_error + unit) run" where
  "NewFakeClient = Value (Inr ())"

text \<open>\<open>GetK8SToken\<close> looks for the file before it reads it; \<open>stat\<close> and \<open>read\<close> answer for the file system.\<close>

definition GetK8SToken :: "(string \<Rightarrow> go_error option) \<Rightarrow> (string \<Rightarrow> go_error + string) \<Rightarrow> go_error + string" where
  "GetK8SToken stat read =
     (let tokenFile = ''/var/run/secrets/kubernetes.io/serviceaccount/token''
      in case stat tokenFile of
           Some err \<Rightarrow> Inl err
         | None \<Rightarrow> (case read tokenFile of Inl err \<Rightarrow> Inl err | Inr content \<Rightarrow> Inr content))"

text \<open>\<open>GetPodStatus\<close>: the status of the one pod a selector chooses, from what listing the pods gave.\<close>

definition GetPodStatus :: "go_error + pod list \<Rightarrow> go_error + pod_status" where
  "GetPodStatus pods =
     (case pods of
        Inl err \<Rightarrow> Inl err
      | Inr items \<Rightarrow>
          (if length items = 0 then Inl (ErrText ''no pods for selector'')
           else if length items \<noteq> 1
           then Inl (ErrText (''multiple ('' @ decimal (length items) @ '') pods chosen by selector''))
           else Inr (pod_state (items ! 0))))"

lemma GetPodStatus_Inr: "GetPodStatus pods = Inr st \<longleftrightarrow> (\<exists>p. pods = Inr [p] \<and> st = pod_state p)"
  by (auto simp: GetPodStatus_def length_Suc_conv split: sum.splits if_splits)

section \<open>Properties\<close>

text \<open>
  \<open>GetPodStatus\<close> gives a status exactly when listing the pods worked and the selector chose one
  pod, and then it is that pod's.
\<close>

theorem GetPodStatus_of_one:
  "GetPodStatus pods = Inr st \<longleftrightarrow> (\<exists>p. pods = Inr [p] \<and> st = pod_state p)"
  by (rule GetPodStatus_Inr)

end
