(* ===== verification/Json_Text.thy ===== *)
theory Json_Text
  imports Go_Prelude
begin

text \<open>
  The JSON text of a list of strings as \<open>encoding/json\<close> writes it, which is what the database keeps of
  the targets of a build. Reading a string back shows that the text determines the list.
\<close>

section \<open>Writing\<close>

text \<open>
  \<open>json.Marshal\<close> on UTF-8 strings: a quote and a backslash are escaped, control characters and the
  HTML characters get an escape sequence, other bytes are copied (the two line separators
  U+2028 and U+2029 excepted). A nil slice, which is what an empty repeated field is, prints as
  \<open>null\<close>.
\<close>

definition json_char :: "char \<Rightarrow> string" where
  "json_char c =
     (if c = CHR 0x22 \<or> c = CHR 0x5C then [CHR 0x5C, c]
      else if c = CHR 0x0A then [CHR 0x5C, CHR ''n'']
      else if c = CHR 0x0D then [CHR 0x5C, CHR ''r'']
      else if c = CHR 0x09 then [CHR 0x5C, CHR ''t'']
      else if (of_char c :: nat) < 32 \<or> c \<in> set ''<>&''
      then [CHR 0x5C, CHR ''u'', CHR ''0'', CHR ''0'',
            ''0123456789abcdef'' ! (of_char c div 16), ''0123456789abcdef'' ! (of_char c mod 16)]
      else [c])"

fun json_chars :: "string \<Rightarrow> string" where
  "json_chars [] = []"
| "json_chars (c # cs) =
     (case cs of
        d # e # rest \<Rightarrow>
          (if c = CHR 0xE2 \<and> d = CHR 0x80 \<and> (e = CHR 0xA8 \<or> e = CHR 0xA9)
           then [CHR 0x5C, CHR ''u'', CHR ''2'', CHR ''0'', CHR ''2'',
                 ''0123456789abcdef'' ! (of_char e mod 16)] @ json_chars rest
           else json_char c @ json_chars cs)
      | _ \<Rightarrow> json_char c @ json_chars cs)"

definition json_string :: "string \<Rightarrow> string" where
  "json_string s = [CHR 0x22] @ json_chars s @ [CHR 0x22]"

definition json_strings :: "string list \<Rightarrow> string" where
  "json_strings ss =
     (if ss = [] then ''null'' else ''['' @ join_with '','' (map json_string ss) @ '']'')"

section \<open>Reading back\<close>

definition hex_value :: "char \<Rightarrow> nat" where
  "hex_value c = length (takeWhile (\<lambda>d. d \<noteq> c) ''0123456789abcdef'')"

definition unescape :: "char \<Rightarrow> char" where
  "unescape d =
     (if d = CHR ''n'' then CHR 0x0A else if d = CHR ''r'' then CHR 0x0D
      else if d = CHR ''t'' then CHR 0x09 else d)"

text \<open>The string up to the closing quote, and what follows it.\<close>

fun read_chars :: "string \<Rightarrow> (string \<times> string) option" where
  "read_chars [] = None"
| "read_chars (c # cs) =
     (if c = CHR 0x22 then Some ([], cs)
      else if c \<noteq> CHR 0x5C then map_option (apfst ((#) c)) (read_chars cs)
      else
        (case cs of
           [] \<Rightarrow> None
         | d # rest \<Rightarrow>
             (if d \<noteq> CHR ''u'' then map_option (apfst ((#) (unescape d))) (read_chars rest)
              else if rest ! 0 = CHR ''0''
              then map_option (apfst ((#) (char_of (16 * hex_value (rest ! 2) + hex_value (rest ! 3)))))
                (read_chars (drop 4 rest))
              else map_option
                (apfst (\<lambda>s. CHR 0xE2 # CHR 0x80 # char_of (0xA0 + hex_value (rest ! 3)) # s))
                (read_chars (drop 4 rest)))))"

lemma hex_value_digit: "n < 16 \<Longrightarrow> hex_value (''0123456789abcdef'' ! n) = n"
proof -
  have "list_all (\<lambda>n. hex_value (''0123456789abcdef'' ! n) = n) [0..<16]" by code_simp
  then show "n < 16 \<Longrightarrow> ?thesis" by (simp add: list_all_iff)
qed

lemma line_separators: "char_of (168 :: nat) = CHR 0xA8" "char_of (169 :: nat) = CHR 0xA9"
  by code_simp+

lemma read_json_char: "read_chars (json_char c @ cs) = map_option (apfst ((#) c)) (read_chars cs)"
proof -
  have "16 * (of_char c div 16) + of_char c mod 16 = (of_char c :: nat)" by simp
  then show ?thesis
    by (auto simp: json_char_def unescape_def hex_value_digit of_char_div_16)
qed

lemma json_chars_Cons:
  "\<nexists>e xs. c = CHR 0xE2 \<and> cs = CHR 0x80 # e # xs \<and> (e = CHR 0xA8 \<or> e = CHR 0xA9) \<Longrightarrow>
     json_chars (c # cs) = json_char c @ json_chars cs"
  by (subst json_chars.simps) (auto split: list.splits simp del: json_chars.simps)

lemma read_json_chars: "read_chars (json_chars s @ CHR 0x22 # rest) = Some (s, rest)"
proof (induction s rule: length_induct)
  case (1 s)
  then have IH: "length xs < length s \<Longrightarrow> read_chars (json_chars xs @ CHR 0x22 # rest) = Some (xs, rest)" for xs
    by blast
  show ?case
  proof (cases s)
    case (Cons c cs)
    show ?thesis
    proof (cases "\<exists>e xs. c = CHR 0xE2 \<and> cs = CHR 0x80 # e # xs \<and> (e = CHR 0xA8 \<or> e = CHR 0xA9)")
      case True
      then obtain e xs where x: "c = CHR 0xE2" "cs = CHR 0x80 # e # xs" "e = CHR 0xA8 \<or> e = CHR 0xA9"
        by blast
      then have "read_chars (json_chars xs @ CHR 0x22 # rest) = Some (xs, rest)"
        using IH [of xs] Cons by simp
      with x Cons show ?thesis by (auto simp: hex_value_digit line_separators)
    next
      case False
      then have "json_chars s = json_char c @ json_chars cs" unfolding Cons by (rule json_chars_Cons)
      then show ?thesis using IH [of cs] Cons by (simp add: read_json_char)
    qed
  qed simp
qed

text \<open>So the text of a string ends where it ends, and the text of a list determines the list.\<close>

definition json_tail :: "string list \<Rightarrow> string" where
  "json_tail ss = (if ss = [] then '']'' else '','' @ join_with '','' (map json_string ss) @ '']'')"

lemma json_items_Cons:
  "join_with '','' (map json_string (s # ss)) @ '']'' = CHR 0x22 # json_chars s @ CHR 0x22 # json_tail ss"
  by (cases ss) (simp_all add: json_tail_def json_string_def join_with_Cons)

lemma json_tail_inj: "json_tail ss = json_tail ts \<Longrightarrow> ss = ts"
proof (induction ss arbitrary: ts)
  case Nil
  then show ?case by (auto simp: json_tail_def split: if_splits)
next
  case (Cons s ss)
  then obtain t ts' where ts: "ts = t # ts'" by (cases ts) (auto simp: json_tail_def)
  with Cons.prems json_items_Cons [of s ss] json_items_Cons [of t ts']
  have "json_chars s @ CHR 0x22 # json_tail ss = json_chars t @ CHR 0x22 # json_tail ts'"
    by (simp add: json_tail_def del: json_chars.simps)
  from arg_cong [OF this, of read_chars] have "s = t" "json_tail ss = json_tail ts'"
    by (simp_all add: read_json_chars del: json_chars.simps read_chars.simps)
  with Cons.IH ts show ?case by blast
qed

lemma json_strings_inj: "json_strings ss = json_strings ts \<longleftrightarrow> ss = ts"
proof
  assume h: "json_strings ss = json_strings ts"
  then have "ss = [] \<longleftrightarrow> ts = []" by (auto simp: json_strings_def split: if_splits)
  with h have "json_tail ss = json_tail ts" by (auto simp: json_strings_def json_tail_def split: if_splits)
  then show "ss = ts" by (rule json_tail_inj)
qed simp

end
