(* ===== verification/Builder.thy ===== *)
theory Builder
  imports Service_Contracts K8s_Model Json_Text
begin

text \<open>
  \<open>cmd/builder\<close>: the service that builds images. A request for a build is recorded in memory and
  in the database and put on a task queue; a worker takes the task, creates a job in the cluster,
  watches the cluster's jobs until an event says one is gone (or the watch ends), and marks the
  build done; \<open>GetOperation\<close> answers from the two maps in memory. The queue, the database, the
  cluster and the registry are outside the repository: what they answer is an argument of the
  handler, and what the handler asks of them is written to the trace \<open>builder_trace\<close>.
\<close>

section \<open>State\<close>

record BuildInfo =
  bi_BuildID :: string
  bi_Branch :: string
  bi_CommitSHA :: string
  bi_Targets :: string
  bi_ImageName :: string
  bi_ImageTag :: string

definition zero_BuildInfo :: BuildInfo where
  "zero_BuildInfo =
     \<lparr>bi_BuildID = [], bi_Branch = [], bi_CommitSHA = [], bi_Targets = [],
      bi_ImageName = [], bi_ImageTag = []\<rparr>"

record BuildPayload =
  bp_BuildID :: string
  bp_Branch :: string
  bp_CommitSHA :: string
  bp_Target :: "string list"
  bp_ImageTag :: string

text \<open>
  A task on the queue. Its payload is what \<open>json.Unmarshal\<close> reads from its bytes: an error, or the
  payload that was marshalled (its strings came in a protobuf message, so they are UTF-8, which
  \<open>encoding/json\<close> keeps).
\<close>

record build_task =
  task_type :: string
  task_payload :: "go_error + BuildPayload"
  task_queue :: string

datatype builder_effect =
    DbCreate BuildInfo
  | DbCommit
  | Enqueue build_task
  | CreateK8sJob job

record builder_state =
  buildDone :: "string \<rightharpoonup> bool"
  buildInfo :: "string \<rightharpoonup> BuildInfo"
  builder_trace :: "builder_effect list"

definition builder_init :: builder_state where
  "builder_init = \<lparr>buildDone = Map.empty, buildInfo = Map.empty, builder_trace = []\<rparr>"

definition builder_log :: "builder_effect \<Rightarrow> builder_state \<Rightarrow> builder_state" where
  "builder_log e s = s\<lparr>builder_trace := builder_trace s @ [e]\<rparr>"

text \<open>A new process starts with empty maps; what it asked of the outside world has happened.\<close>

definition builder_restart :: "builder_state \<Rightarrow> builder_state" where
  "builder_restart s = s\<lparr>buildDone := Map.empty, buildInfo := Map.empty\<rparr>"

section \<open>Build\<close>

text \<open>
  What the environment answers during one \<open>Build\<close>: the two random identifiers, each with its
  error (which the code only logs, using the value all the same), and the queue's error.
\<close>

record build_answers =
  ans_imageTag :: "string \<times> go_error option"
  ans_buildID :: "string \<times> go_error option"
  ans_enqueue :: "go_error option"

definition NewBuildTask ::
    "string \<Rightarrow> string \<Rightarrow> string \<Rightarrow> string list \<Rightarrow> string \<Rightarrow> build_task" where
  "NewBuildTask buildID branch commitSHA target imageTag =
     \<lparr>task_type = ''image:build'',
      task_payload = Inr
        \<lparr>bp_BuildID = buildID, bp_Branch = branch, bp_CommitSHA = commitSHA,
         bp_Target = target, bp_ImageTag = imageTag\<rparr>,
      task_queue = ''critical''\<rparr>"

definition Build ::
    "build_answers \<Rightarrow> builder_state \<Rightarrow> build_request \<Rightarrow>
     (go_error + 'any operation) run \<times> builder_state" where
  "Build ans s req =
     (let branch = br_branch req;
          commit = br_commitSHA req;
          target = br_target req;
          imageTag = fst (ans_imageTag ans);
          buildID = fst (ans_buildID ans);
          targetJSON = json_strings target;
          info = \<lparr>bi_BuildID = buildID, bi_Branch = branch, bi_CommitSHA = commit,
                  bi_Targets = targetJSON, bi_ImageName = ''eval'', bi_ImageTag = imageTag\<rparr>;
          s1 = s\<lparr>buildInfo := (buildInfo s)(buildID \<mapsto> info)\<rparr>;
          s2 = builder_log (DbCreate info) s1;
          s3 = builder_log DbCommit s2;
          t = NewBuildTask buildID branch commit target imageTag
      in case ans_enqueue ans of
           Some err \<Rightarrow> (Exited ''could not enqueue task'', s3)
         | None \<Rightarrow>
             (Value (Inr \<lparr>op_name = buildID, op_done = False, op_metadata = None, op_result = None\<rparr>),
              builder_log (Enqueue t) s3))"

section \<open>GetOperation\<close>

text \<open>
  The registry: the error of connecting, the digest of an image by name and tag, and what calling
  a method on the nil client of a failed connection does.
\<close>

record registry_answers =
  reg_connect :: "go_error option"
  reg_digest :: "string \<Rightarrow> string \<Rightarrow> go_error + string"
  reg_nil_client :: "unit run"

definition getDigest :: "registry_answers \<Rightarrow> string \<Rightarrow> string \<Rightarrow> go_error + string" where
  "getDigest reg img tag =
     (case reg_connect reg of
        Some err \<Rightarrow> Inl err
      | None \<Rightarrow> reg_digest reg img tag)"

text \<open>Indexing the map with a name it does not hold gives the zero value.\<close>

definition info_at :: "builder_state \<Rightarrow> string \<Rightarrow> BuildInfo" where
  "info_at s n = (case buildInfo s n of None \<Rightarrow> zero_BuildInfo | Some bi \<Rightarrow> bi)"

definition builder_GetOperation ::
    "'any proto_lib \<Rightarrow> registry_answers \<Rightarrow> builder_state \<Rightarrow> string \<Rightarrow>
     (go_error + 'any operation) run \<times> builder_state" where
  "builder_GetOperation L reg s name =
     (if buildDone s name = Some True then
        (let bi = info_at s name;
             digest = (case getDigest reg (bi_ImageName bi) (bi_ImageTag bi) of
                         Inl err \<Rightarrow> []
                       | Inr d \<Rightarrow> d)
         in case pack_build_response L
                   \<lparr>bresp_response = ''will be nicer (but is real): '' @ name,
                    bresp_imageName = bi_ImageName bi,
                    bresp_imageTag = bi_ImageTag bi,
                    bresp_imageDigest = digest\<rparr> of
              Inl err \<Rightarrow> (Panicked (error_text err), s)
            | Inr response \<Rightarrow>
                (Value (Inr \<lparr>op_name = name, op_done = True, op_metadata = None,
                             op_result = Some (OperationResponse (Some response))\<rparr>), s))
      else
        (Value (Inr \<lparr>op_name = name, op_done = False, op_metadata = None, op_result = None\<rparr>), s))"

section \<open>The job of a build\<close>

definition kaniko_args :: "string \<Rightarrow> string \<Rightarrow> string list \<Rightarrow> string list" where
  "kaniko_args gitContext imageTag targets =
     [''--insecure'',
      ''--insecure-pull'',
      ''--skip-tls-verify'',
      ''--build-arg'', ''TARGETS='' @ join_with '' '' targets,
      ''--destination=kind-registry:5000/eval:'' @ imageTag,
      ''--context'', gitContext,
      ''--digest-file=/dev/termination-log'',
      ''--log-format=color'',
      ''--log-timestamp=true'',
      ''--use-new-run'',
      ''--dockerfile=dockerfile'']"

definition buildJobSpec ::
    "string \<Rightarrow> string \<Rightarrow> string \<Rightarrow> string list \<Rightarrow> string \<Rightarrow> job" where
  "buildJobSpec buildID branch commitSHA targets imageTag =
     (let backOffLimit = (0 :: 32 word);
          ttlSecondsAfterFinished = (10 :: 32 word);
          gitContext = ''git://gitea-service.gitea-repo.svc.cluster.local:3000/mav/eval.git#refs/heads/''
            @ branch @ ''#'' @ commitSHA
      in \<lparr>job_generate_name = ''kaniko-'',
          job_namespace = ''default'',
          job_labels = [''buildID'' \<mapsto> buildID],
          job_host_aliases =
            [\<lparr>ha_ip = ''192.168.1.8'', ha_hostnames = [''registry.other.net'']\<rparr>],
          job_containers =
            [\<lparr>cont_name = ''kaniko'',
              cont_image = ''gcr.io/kaniko-project/executor:debug'',
              cont_command = [],
              cont_args = kaniko_args gitContext imageTag targets,
              cont_env =
                [\<lparr>env_name = ''GIT_TOKEN'',
                  env_value = ''969c5cb1eaee59d878648cb862bef551cac70d34''\<rparr>,
                 \<lparr>env_name = ''GIT_PULL_METHOD'', env_value = ''http''\<rparr>]\<rparr>],
          job_restart_policy = ''Never'',
          job_backoff_limit = backOffLimit,
          job_ttl_seconds = ttlSecondsAfterFinished\<rparr>)"

section \<open>The worker\<close>

definition connectToK8s :: "connect_answers \<Rightarrow> unit run" where
  "connectToK8s ans =
     (case ca_client ans of
        Some err \<Rightarrow> Exited (error_text err)
      | None \<Rightarrow> Value ())"

text \<open>
  One event of the watch: its type, whether its object is a job, and what listing the build's pods
  gave when the event came. The loop ends when the channel closes (the list ends) or at the first
  event of type \<open>DELETED\<close>; a failing pod list ends the whole function.
\<close>

record watch_event =
  we_Type :: string
  we_is_job :: bool
  we_pods :: "go_error + pod list"

datatype watch_end = WatchEnded | PodsUnavailable

fun watch_loop :: "watch_event list \<Rightarrow> watch_end" where
  "watch_loop [] = WatchEnded"
| "watch_loop (we # eventres) =
     (case we_pods we of
        Inl err \<Rightarrow> PodsUnavailable
      | Inr pods \<Rightarrow>
          (if we_Type we = ''DELETED'' then WatchEnded
           else if \<not> we_is_job we then watch_loop eventres
           else watch_loop eventres))"

text \<open>
  \<open>playWithDocker\<close> only logs what the registry says of the new image, but it goes on with a nil
  client when it could not connect.
\<close>

definition playWithDocker :: "registry_answers \<Rightarrow> string \<Rightarrow> unit run" where
  "playWithDocker reg imageTag =
     (case reg_connect reg of
        Some err \<Rightarrow> reg_nil_client reg
      | None \<Rightarrow> Value ())"

record worker_answers =
  wa_connect :: connect_answers
  wa_create :: "go_error option"
  wa_watch :: "go_error option"
  wa_events :: "watch_event list"
  wa_registry :: registry_answers
  wa_pods :: "go_error + pod list"

definition builder_build ::
    "worker_answers \<Rightarrow> builder_state \<Rightarrow> string \<Rightarrow> string \<Rightarrow> string \<Rightarrow> string list \<Rightarrow> string \<Rightarrow>
     unit run \<times> builder_state" where
  "builder_build ans s buildID branch commitSHA targets imageTag =
     run_then (connectToK8s (wa_connect ans), s) (\<lambda>_ s0.
       case wa_create ans of
         Some err \<Rightarrow> (Exited ''Failed to create K8s job'', s0)
       | None \<Rightarrow>
           (let s1 = builder_log (CreateK8sJob (buildJobSpec buildID branch commitSHA targets imageTag)) s0
            in case wa_watch ans of
                 Some err \<Rightarrow> (Exited ''Failed to watch job'', s1)
               | None \<Rightarrow>
                   (case watch_loop (wa_events ans) of
                      PodsUnavailable \<Rightarrow> (Value (), s1)
                    | WatchEnded \<Rightarrow>
                        (let s2 = s1\<lparr>buildDone := (buildDone s1)(buildID \<mapsto> True)\<rparr>
                         in run_then (playWithDocker (wa_registry ans) imageTag, s2) (\<lambda>_ s3.
                              case wa_pods ans of
                                Inl err \<Rightarrow> (Value (), s3)
                              | Inr pods \<Rightarrow> (Value (), s3))))))"

text \<open>The result is the error the queue gets back: none means the task is done with.\<close>

definition HandleBuildTask ::
    "worker_answers \<Rightarrow> builder_state \<Rightarrow> build_task \<Rightarrow> go_error option run \<times> builder_state" where
  "HandleBuildTask ans s t =
     (case task_payload t of
        Inl err \<Rightarrow> (Value (Some (ErrText (''json.Unmarshal failed: '' @ error_text err))), s)
      | Inr p \<Rightarrow>
          run_then
            (builder_build ans s (bp_BuildID p) (bp_Branch p) (bp_CommitSHA p) (bp_Target p) (bp_ImageTag p))
            (\<lambda>_ s1. (Value None, s1)))"

text \<open>The queue server's configuration: two workers and the queues by priority.\<close>

record asynq_config =
  Concurrency :: int
  Queues :: "string \<rightharpoonup> int"

definition NewAsynq :: asynq_config where
  "NewAsynq =
     \<lparr>Concurrency = 2, Queues = [''critical'' \<mapsto> 6, ''default'' \<mapsto> 3, ''low'' \<mapsto> 1]\<rparr>"

section \<open>What the operations do\<close>

lemma builder_log_simps [simp]:
  "buildDone (builder_log e s) = buildDone s"
  "buildInfo (builder_log e s) = buildInfo s"
  "builder_trace (builder_log e s) = builder_trace s @ [e]"
  by (simp_all add: builder_log_def)

lemma builder_restart_simps [simp]:
  "buildDone (builder_restart s) = Map.empty"
  "buildInfo (builder_restart s) = Map.empty"
  "builder_trace (builder_restart s) = builder_trace s"
  by (simp_all add: builder_restart_def)

lemma builder_GetOperation_state [simp]: "snd (builder_GetOperation L reg s n) = s"
  by (simp add: builder_GetOperation_def Let_def split: sum.splits)

lemma builder_GetOperation_done_iff:
  "builder_GetOperation L reg s n = (Value (Inr r), s') \<Longrightarrow>
     op_name r = n \<and> (op_done r \<longleftrightarrow> buildDone s n = Some True)"
  by (auto simp: builder_GetOperation_def Let_def split: if_splits sum.splits)

text \<open>
  The watch looks at the first event that is a deletion or whose pod list failed, whatever object
  the events are about.
\<close>

lemma watch_loop_first:
  "watch_loop es =
     (case dropWhile (\<lambda>e. \<not> isl (we_pods e) \<and> we_Type e \<noteq> ''DELETED'') es of
        [] \<Rightarrow> WatchEnded
      | e # _ \<Rightarrow> (if isl (we_pods e) then PodsUnavailable else WatchEnded))"
  by (induction es) (auto split: sum.splits)

text \<open>
  A worker run leaves the builds it knows; it submits the job of its build or nothing, and marks
  the build done only after the job was submitted and the watch ended.
\<close>

lemma builder_build_returns:
  assumes "builder_build ans s bid br sha ts tag = (r, s')"
  shows "buildInfo s' = buildInfo s \<and>
    (builder_trace s' = builder_trace s \<and> buildDone s' = buildDone s \<or>
     builder_trace s' = builder_trace s @ [CreateK8sJob (buildJobSpec bid br sha ts tag)] \<and>
     (buildDone s' = buildDone s \<or>
      watch_loop (wa_events ans) = WatchEnded \<and> buildDone s' = (buildDone s)(bid \<mapsto> True)))"
  using assms
  by (auto simp: builder_build_def connectToK8s_def playWithDocker_def run_then_def Let_def
      split: option.splits sum.splits prod.splits run.splits watch_end.splits)

lemma builder_build_marks_done:
  assumes "ca_client (wa_connect ans) = None" and "wa_create ans = None" and "wa_watch ans = None"
    and "watch_loop (wa_events ans) = WatchEnded"
  shows "buildDone (snd (builder_build ans s bid br sha ts tag)) = (buildDone s)(bid \<mapsto> True)"
  using assms
  by (auto simp: builder_build_def connectToK8s_def playWithDocker_def run_then_def Let_def
      split: option.splits sum.splits prod.splits run.splits)

lemma HandleBuildTask_state:
  assumes "task_payload t = Inr p"
  shows "snd (HandleBuildTask ans s t) =
    snd (builder_build ans s (bp_BuildID p) (bp_Branch p) (bp_CommitSHA p) (bp_Target p) (bp_ImageTag p))"
  using assms by (auto simp: HandleBuildTask_def run_then_def split: prod.splits run.splits)

section \<open>The builder meets its contract\<close>

text \<open>The stubs of the builder's clients.\<close>

definition builder_call_Build ::
    "build_answers \<Rightarrow> builder_state \<Rightarrow> build_request \<Rightarrow>
     (go_error + 'any operation) \<times> builder_state" where
  "builder_call_Build ans s req = rpc builder_restart (Build ans s req)"

definition builder_call_GetOperation ::
    "'any proto_lib \<Rightarrow> registry_answers \<Rightarrow> builder_state \<Rightarrow> string \<Rightarrow>
     (go_error + 'any operation) \<times> builder_state" where
  "builder_call_GetOperation L reg s name = rpc builder_restart (builder_GetOperation L reg s name)"

text \<open>
  The worker of a process that starts again when the task ends it. A panic of the handler does not: asynq
  recovers it.
\<close>

definition builder_process :: "worker_answers \<Rightarrow> builder_state \<Rightarrow> build_task \<Rightarrow> builder_state" where
  "builder_process ans s t =
     (case HandleBuildTask ans s t of
        (Exited _, s1) \<Rightarrow> builder_restart s1
      | (_, s1) \<Rightarrow> s1)"

text \<open>The task and the job of a recorded build; the record keeps the JSON text of the targets.\<close>

definition task_for :: "BuildInfo \<Rightarrow> string list \<Rightarrow> build_task" where
  "task_for info ts =
     NewBuildTask (bi_BuildID info) (bi_Branch info) (bi_CommitSHA info) ts (bi_ImageTag info)"

definition job_for :: "BuildInfo \<Rightarrow> string list \<Rightarrow> job" where
  "job_for info ts =
     buildJobSpec (bi_BuildID info) (bi_Branch info) (bi_CommitSHA info) ts (bi_ImageTag info)"

definition recorded :: "builder_state \<Rightarrow> BuildInfo \<Rightarrow> bool" where
  "recorded s info \<longleftrightarrow> DbCreate info \<in> set (builder_trace s)"

definition submitted :: "builder_state \<Rightarrow> BuildInfo \<Rightarrow> bool" where
  "submitted s info \<longleftrightarrow>
     (\<exists>ts. bi_Targets info = json_strings ts \<and> CreateK8sJob (job_for info ts) \<in> set (builder_trace s))"

text \<open>
  The invariant, which survives a restart: what the process knows of a build is what it wrote to
  the database under the build's identifier, no identifier was used twice, every task on the queue
  is that of a recorded build, and a build marked done is a recorded one whose job was submitted.
\<close>

definition builder_inv :: "builder_state \<Rightarrow> bool" where
  "builder_inv s \<longleftrightarrow>
     (\<forall>n info. buildInfo s n = Some info \<longrightarrow> bi_BuildID info = n \<and> recorded s info) \<and>
     (\<forall>i j. recorded s i \<longrightarrow> recorded s j \<longrightarrow> bi_BuildID i = bi_BuildID j \<longrightarrow> i = j) \<and>
     (\<forall>t. Enqueue t \<in> set (builder_trace s) \<longrightarrow>
        (\<exists>info ts. recorded s info \<and> bi_Targets info = json_strings ts \<and> t = task_for info ts)) \<and>
     (\<forall>n. buildDone s n = Some True \<longrightarrow>
        (\<exists>info. recorded s info \<and> bi_BuildID info = n \<and> submitted s info))"

definition builder_fresh :: "build_answers \<Rightarrow> builder_state \<Rightarrow> bool" where
  "builder_fresh ans s \<longleftrightarrow>
     list_all (\<lambda>x. case x of DbCreate info \<Rightarrow> bi_BuildID info \<noteq> fst (ans_buildID ans) | _ \<Rightarrow> True)
       (builder_trace s)"

definition records :: "BuildInfo \<Rightarrow> build_request \<Rightarrow> bool" where
  "records info q \<longleftrightarrow>
     bi_Branch info = br_branch q \<and> bi_CommitSHA info = br_commitSHA q \<and>
     bi_Targets info = json_strings (br_target q)"

lemma records_unique: "records info q \<Longrightarrow> records info q' \<longleftrightarrow> q' = q"
  by (cases q; cases q') (auto simp: records_def json_strings_inj)

lemma submitted_job:
  assumes "submitted s info" and "records info q"
  shows "CreateK8sJob (buildJobSpec (bi_BuildID info) (br_branch q) (br_commitSHA q) (br_target q)
    (bi_ImageTag info)) \<in> set (builder_trace s)"
proof -
  from assms(1) obtain ts where "bi_Targets info = json_strings ts"
      "CreateK8sJob (job_for info ts) \<in> set (builder_trace s)"
    by (auto simp: submitted_def)
  with assms(2) show ?thesis by (simp add: records_def job_for_def json_strings_inj)
qed

definition builder_serves :: "builder_state \<Rightarrow> string \<Rightarrow> build_request \<Rightarrow> bool" where
  "builder_serves s n q \<longleftrightarrow> (\<exists>info. recorded s info \<and> bi_BuildID info = n \<and> records info q)"

text \<open>
  The answer of a finished build names the image of its record; or, when the process that held the
  record has ended since, its name and tag are both empty.
\<close>

definition image_or_lost :: "build_response \<Rightarrow> BuildInfo \<Rightarrow> bool" where
  "image_or_lost b info \<longleftrightarrow>
     bresp_imageName b = bi_ImageName info \<and> bresp_imageTag b = bi_ImageTag info \<or>
     bresp_imageName b = [] \<and> bresp_imageTag b = []"

definition builder_built :: "builder_state \<Rightarrow> string \<Rightarrow> build_response \<Rightarrow> bool" where
  "builder_built s n b \<longleftrightarrow>
     (\<exists>info. recorded s info \<and> bi_BuildID info = n \<and> submitted s info \<and> image_or_lost b info)"

definition builder_finished :: "builder_state \<Rightarrow> string \<Rightarrow> bool" where
  "builder_finished s n \<longleftrightarrow> buildDone s n = Some True"

lemma recorded_mono: "set (builder_trace s) \<subseteq> set (builder_trace s') \<Longrightarrow> recorded s info \<Longrightarrow> recorded s' info"
  by (auto simp: recorded_def)

lemma submitted_mono: "set (builder_trace s) \<subseteq> set (builder_trace s') \<Longrightarrow> submitted s info \<Longrightarrow> submitted s' info"
  by (auto simp: submitted_def)

lemma serves_mono:
  "set (builder_trace s) \<subseteq> set (builder_trace s') \<Longrightarrow> builder_serves s n q \<Longrightarrow> builder_serves s' n q"
  unfolding builder_serves_def using recorded_mono by blast

lemma built_mono:
  "set (builder_trace s) \<subseteq> set (builder_trace s') \<Longrightarrow> builder_built s n b \<Longrightarrow> builder_built s' n b"
  unfolding builder_built_def using recorded_mono submitted_mono by blast

lemma builder_inv_init [simp]: "builder_inv builder_init"
  by (simp add: builder_inv_def builder_init_def recorded_def)

lemma builder_inv_restart [simp]: "builder_inv s \<Longrightarrow> builder_inv (builder_restart s)"
  by (auto simp: builder_inv_def recorded_def)

lemma builder_freshD: "builder_fresh ans s \<Longrightarrow> recorded s info \<Longrightarrow> bi_BuildID info \<noteq> fst (ans_buildID ans)"
  by (auto simp: builder_fresh_def recorded_def list_all_iff)

text \<open>What \<open>Build\<close> leaves, whether or not the task could be queued.\<close>

definition new_info :: "build_answers \<Rightarrow> build_request \<Rightarrow> BuildInfo" where
  "new_info ans q =
     \<lparr>bi_BuildID = fst (ans_buildID ans), bi_Branch = br_branch q, bi_CommitSHA = br_commitSHA q,
      bi_Targets = json_strings (br_target q), bi_ImageName = ''eval'',
      bi_ImageTag = fst (ans_imageTag ans)\<rparr>"

lemma new_info_simps [simp]:
  "bi_BuildID (new_info ans q) = fst (ans_buildID ans)"
  "bi_Targets (new_info ans q) = json_strings (br_target q)"
  "records (new_info ans q) q"
  by (simp_all add: new_info_def records_def)

lemma Build_state:
  assumes "Build ans s q = (r, s')"
  shows "buildInfo s' = (buildInfo s)(fst (ans_buildID ans) \<mapsto> new_info ans q)"
    and "buildDone s' = buildDone s"
    and "builder_trace s' = builder_trace s @ [DbCreate (new_info ans q), DbCommit] @
       (if ans_enqueue ans = None then [Enqueue (task_for (new_info ans q) (br_target q))] else [])"
  using assms by (auto simp: Build_def Let_def new_info_def task_for_def split: option.splits)

lemma Build_Inr:
  "Build ans s q = (Value (Inr r), s') \<Longrightarrow>
     ans_enqueue ans = None \<and> op_name r = fst (ans_buildID ans) \<and> \<not> op_done r"
  by (auto simp: Build_def Let_def split: option.splits)

lemma builder_inv_Build:
  assumes "builder_inv s" and "builder_fresh ans s" and "Build ans s q = (r, s')"
  shows "builder_inv s'"
proof -
  let ?i = "new_info ans q"
  note st = Build_state [OF assms(3)]
  have rec: "recorded s' i \<longleftrightarrow> recorded s i \<or> i = ?i" for i
    using st(3) by (auto simp: recorded_def)
  have enq: "Enqueue t \<in> set (builder_trace s') \<Longrightarrow>
      Enqueue t \<in> set (builder_trace s) \<or> t = task_for ?i (br_target q)" for t
    using st(3) by (auto split: if_splits)
  have sub: "submitted s i \<Longrightarrow> submitted s' i" for i
    using st(3) by (auto simp: submitted_def)
  note fresh = builder_freshD [OF assms(2)]
  show ?thesis
    unfolding builder_inv_def
  proof (intro conjI)
    show "\<forall>n info. buildInfo s' n = Some info \<longrightarrow> bi_BuildID info = n \<and> recorded s' info"
      using assms(1) st(1) rec by (auto simp: builder_inv_def split: if_splits)
    show "\<forall>i j. recorded s' i \<longrightarrow> recorded s' j \<longrightarrow> bi_BuildID i = bi_BuildID j \<longrightarrow> i = j"
      using assms(1) fresh unfolding rec builder_inv_def by fastforce
    show "\<forall>t. Enqueue t \<in> set (builder_trace s') \<longrightarrow>
        (\<exists>info ts. recorded s' info \<and> bi_Targets info = json_strings ts \<and> t = task_for info ts)"
      using assms(1) enq unfolding rec builder_inv_def by (metis new_info_simps(2))
    show "\<forall>n. buildDone s' n = Some True \<longrightarrow>
        (\<exists>info. recorded s' info \<and> bi_BuildID info = n \<and> submitted s' info)"
      using assms(1) sub unfolding rec st(2) builder_inv_def by metis
  qed
qed

lemma trace_Build: "Build ans s q = (r, s') \<Longrightarrow> set (builder_trace s) \<subseteq> set (builder_trace s')"
  using Build_state(3) [of ans s q r s'] by auto

lemma builder_call_Build_state:
  fixes r :: "go_error + 'any operation"
  assumes "builder_call_Build ans s q = (r, s')"
  obtains r1 :: "(go_error + 'any operation) run" and s1
  where "Build ans s q = (r1, s1)" and "s' = s1 \<or> s' = builder_restart s1"
  using assms by (cases "Build ans s q :: (go_error + 'any operation) run \<times> builder_state")
    (auto simp: builder_call_Build_def rpc_def split: run.splits sum.splits)

lemma trace_call_Build:
  assumes "builder_call_Build ans s q = (r, s')"
  shows "set (builder_trace s) \<subseteq> set (builder_trace s')"
  using assms by (rule builder_call_Build_state) (use trace_Build in fastforce)

lemma builder_inv_call_Build:
  "builder_call_Build ans s q = (r, s') \<Longrightarrow> builder_inv s \<Longrightarrow> builder_fresh ans s \<Longrightarrow> builder_inv s'"
  by (erule builder_call_Build_state) (auto dest: builder_inv_Build)

lemma trace_call_GetOperation [simp]:
  "builder_trace (snd (builder_call_GetOperation L reg s n)) = builder_trace s"
  unfolding builder_call_GetOperation_def by (rule rpc_state) auto

text \<open>A task of the queue, handled by any process of the builder, keeps the invariant.\<close>

lemma builder_process_state:
  assumes "builder_inv s" and "Enqueue t \<in> set (builder_trace s)"
  shows "builder_inv (builder_process ans s t) \<and>
    set (builder_trace s) \<subseteq> set (builder_trace (builder_process ans s t))"
proof -
  from assms obtain info ts where i: "recorded s info" "bi_Targets info = json_strings ts" "t = task_for info ts"
    by (auto simp: builder_inv_def)
  obtain r s' where b: "builder_build ans s (bi_BuildID info) (bi_Branch info) (bi_CommitSHA info) ts
      (bi_ImageTag info) = (r, s')" by fastforce
  have ret: "buildInfo s' = buildInfo s"
    "builder_trace s' = builder_trace s \<and> buildDone s' = buildDone s \<or>
     builder_trace s' = builder_trace s @ [CreateK8sJob (job_for info ts)] \<and>
     (buildDone s' = buildDone s \<or> buildDone s' = (buildDone s)(bi_BuildID info \<mapsto> True))"
    using builder_build_returns [OF b] by (auto simp: job_for_def)
  have sub: "set (builder_trace s) \<subseteq> set (builder_trace s')" using ret(2) by auto
  have rec: "recorded s' j = recorded s j" for j using ret(2) by (auto simp: recorded_def)
  have enq: "Enqueue t \<in> set (builder_trace s') \<longleftrightarrow> Enqueue t \<in> set (builder_trace s)" for t
    using ret(2) by auto
  have keep: "submitted s j \<Longrightarrow> submitted s' j" for j using sub by (rule submitted_mono)
  have dn: "buildDone s' n = Some True \<Longrightarrow>
      buildDone s n = Some True \<or> n = bi_BuildID info \<and> submitted s' info" for n
    using ret(2) i(2) by (auto simp: submitted_def split: if_splits)
  have inv: "builder_inv s'"
    unfolding builder_inv_def ret(1) rec enq
  proof (intro conjI)
    show "\<forall>n. buildDone s' n = Some True \<longrightarrow>
        (\<exists>info. recorded s info \<and> bi_BuildID info = n \<and> submitted s' info)"
      using assms(1) dn keep i(1) unfolding builder_inv_def by blast
  qed (use assms(1) in \<open>simp_all add: builder_inv_def\<close>)
  have "snd (HandleBuildTask ans s t) = s'"
    using b i(3) HandleBuildTask_state [of t _ ans s] by (simp add: task_for_def NewBuildTask_def)
  with inv sub show ?thesis
    by (auto simp: builder_process_def split: prod.splits run.splits)
qed

lemma builder_GetOperation_response:
  assumes "builder_GetOperation L reg s n = (Value (Inr r), s')" and "op_done r"
  obtains b a where "GetResponse r = Some a" and "pack_build_response L b = Inr a"
    and "bresp_imageName b = bi_ImageName (info_at s n)"
    and "bresp_imageTag b = bi_ImageTag (info_at s n)"
  using assms
  by (fastforce simp: builder_GetOperation_def Let_def GetResponse_def split: if_splits sum.splits)

lemma builder_call_GetOperation_built:
  assumes "proto_laws L" and "builder_inv s"
    and "builder_call_GetOperation L reg s n = (Inr r, s')" and "op_done r"
  shows "\<exists>b. unpack_build_response L (GetResponse r) = (b, None) \<and> builder_built s' n b"
proof -
  from assms(3) have get: "builder_GetOperation L reg s n = (Value (Inr r), s')"
    by (simp add: builder_call_GetOperation_def rpc_Inr)
  then have s': "s' = s" using builder_GetOperation_state [of L reg s n] by simp
  from get assms(4) obtain b a where b: "GetResponse r = Some a" "pack_build_response L b = Inr a"
      "bresp_imageName b = bi_ImageName (info_at s n)" "bresp_imageTag b = bi_ImageTag (info_at s n)"
    by (rule builder_GetOperation_response)
  from get assms(4) have "buildDone s n = Some True"
    using builder_GetOperation_done_iff by blast
  with assms(2) obtain info where i: "recorded s info" "bi_BuildID info = n" "submitted s info"
    by (auto simp: builder_inv_def)
  have "info_at s n = info \<or> info_at s n = zero_BuildInfo"
    using assms(2) i by (auto simp: info_at_def builder_inv_def split: option.splits)
  with b i s' have "builder_built s' n b"
    by (auto simp: builder_built_def image_or_lost_def zero_BuildInfo_def)
  with b assms(1) show ?thesis by (auto simp: proto_laws_unpack(3))
qed

interpretation builder: builder_service
  "builder_call_GetOperation L" builder_finished builder_inv L builder_call_Build builder_fresh
  builder_serves builder_built
  for L :: "'any proto_lib"
proof unfold_locales
  fix s :: builder_state and s' x n m y q q' and r :: "'any operation" and b
  show "builder_inv s \<Longrightarrow> builder_inv (snd (builder_call_GetOperation L x s n))"
    unfolding builder_call_GetOperation_def by (rule rpc_state) simp_all
  show "builder_call_GetOperation L x s n = (Inr r, s') \<Longrightarrow> op_done r = builder_finished s n"
    by (simp add: builder_call_GetOperation_def rpc_Inr builder_finished_def builder_GetOperation_done_iff)
  show "builder_call_GetOperation L x s n = (Inr r, s') \<Longrightarrow> builder_finished s' m = builder_finished s m"
    using builder_GetOperation_state [of L x s n] by (simp add: builder_call_GetOperation_def rpc_Inr)
  show "builder_inv s \<Longrightarrow> builder_fresh y s \<Longrightarrow>
      builder_inv (snd (builder_call_Build y s q :: (go_error + 'any operation) \<times> _))"
    by (rule builder_inv_call_Build [OF surjective_pairing])
  show "builder_call_Build y s q = (Inr r, s') \<Longrightarrow> builder_serves s' (op_name r) q"
    using Build_state(3) [of y s q "Value (Inr r)" s'] Build_Inr [of y s q r s']
    by (auto simp: builder_call_Build_def rpc_Inr builder_serves_def recorded_def
        intro!: exI [of _ "new_info y q"])
  show "builder_call_Build y s q = (Inr r, s') \<Longrightarrow> \<not> op_done r"
    using Build_Inr [of y s q r s'] by (simp add: builder_call_Build_def rpc_Inr)
  show "builder_serves s n q \<Longrightarrow>
      builder_serves (snd (builder_call_Build y s q' :: (go_error + 'any operation) \<times> _)) n q"
    by (rule serves_mono [OF trace_call_Build [OF surjective_pairing]])
  show "builder_serves s n q \<Longrightarrow> builder_serves (snd (builder_call_GetOperation L x s m)) n q"
    by (rule serves_mono) simp_all
  show "builder_built s n b \<Longrightarrow>
      builder_built (snd (builder_call_Build y s q :: (go_error + 'any operation) \<times> _)) n b"
    by (rule built_mono [OF trace_call_Build [OF surjective_pairing]])
  show "builder_built s n b \<Longrightarrow> builder_built (snd (builder_call_GetOperation L x s m)) n b"
    by (rule built_mono) simp_all
  show "proto_laws L \<Longrightarrow> builder_inv s \<Longrightarrow> builder_call_GetOperation L x s n = (Inr r, s') \<Longrightarrow> op_done r \<Longrightarrow>
      \<exists>b. unpack_build_response L (GetResponse r) = (b, None) \<and> builder_built s' n b"
    by (rule builder_call_GetOperation_built)
qed

section \<open>Properties\<close>

text \<open>
  \<open>Build\<close> records the build in memory and in the database before it queues the task. When the
  queue takes the task, the reply is a pending operation under the build's identifier and the task
  on the queue is the recorded build's; when it does not, the process ends with the record already
  written and no task for it.
\<close>

theorem Build_records_then_queues:
  assumes "Build ans s q = (res, s')"
  shows "recorded s' (new_info ans q) \<and> records (new_info ans q) q \<and>
    buildInfo s' = (buildInfo s)(fst (ans_buildID ans) \<mapsto> new_info ans q) \<and>
    (case ans_enqueue ans of
       None \<Rightarrow>
         res = Value (Inr \<lparr>op_name = fst (ans_buildID ans), op_done = False, op_metadata = None,
                          op_result = None\<rparr>) \<and>
         builder_trace s' = builder_trace s @
           [DbCreate (new_info ans q), DbCommit, Enqueue (task_for (new_info ans q) (br_target q))]
     | Some err \<Rightarrow>
         res = Exited ''could not enqueue task'' \<and>
         builder_trace s' = builder_trace s @ [DbCreate (new_info ans q), DbCommit])"
  using Build_state [OF assms] assms
  by (auto simp: recorded_def Build_def Let_def split: option.splits)

theorem Build_records_then_queues_witness:
  "\<exists>res s'. Build \<lparr>ans_imageTag = (''t'', None), ans_buildID = (''b'', None), ans_enqueue = None\<rparr>
       builder_init \<lparr>br_commitSHA = ''c'', br_branch = ''main'', br_target = [''//x'']\<rparr> =
       ((res :: (go_error + tagged_any operation) run), s') \<and>
     recorded s' (new_info \<lparr>ans_imageTag = (''t'', None), ans_buildID = (''b'', None), ans_enqueue = None\<rparr>
       \<lparr>br_commitSHA = ''c'', br_branch = ''main'', br_target = [''//x'']\<rparr>)"
proof -
  obtain res s' where b: "Build \<lparr>ans_imageTag = (''t'', None), ans_buildID = (''b'', None), ans_enqueue = None\<rparr>
       builder_init \<lparr>br_commitSHA = ''c'', br_branch = ''main'', br_target = [''//x'']\<rparr> =
       ((res :: (go_error + tagged_any operation) run), s')" by (rule prod.exhaust)
  from Build_records_then_queues [OF b] b show ?thesis by blast
qed

text \<open>
  \<open>GetOperation\<close> changes nothing; it answers done exactly for a build marked done, with the
  name and tag of the build's record (empty when this process does not know the build) and the
  registry's digest, empty when the registry does not give one.
\<close>

theorem GetOperation_reports_build:
  assumes "proto_laws L" and "builder_GetOperation L reg s n = (Value (Inr r), s')"
  shows "s' = s \<and> op_name r = n \<and> (op_done r \<longleftrightarrow> buildDone s n = Some True) \<and>
    (if op_done r then unpack_build_response L (GetResponse r) =
       (\<lparr>bresp_response = ''will be nicer (but is real): '' @ n,
         bresp_imageName = bi_ImageName (info_at s n), bresp_imageTag = bi_ImageTag (info_at s n),
         bresp_imageDigest =
           (case getDigest reg (bi_ImageName (info_at s n)) (bi_ImageTag (info_at s n)) of
              Inl err \<Rightarrow> [] | Inr d \<Rightarrow> d)\<rparr>, None)
     else op_result r = None)"
  using assms
  by (auto simp: builder_GetOperation_def Let_def GetResponse_def proto_facts split: if_splits sum.splits)

theorem GetOperation_reports_build_witness:
  "\<exists>r. builder_GetOperation tagged_lib
      \<lparr>reg_connect = Some (ErrText ''down''), reg_digest = (\<lambda>_ _. Inr ''d''), reg_nil_client = Value ()\<rparr>
      (builder_init\<lparr>buildDone := [''b'' \<mapsto> True]\<rparr>) ''b'' =
      (Value (Inr r), builder_init\<lparr>buildDone := [''b'' \<mapsto> True]\<rparr>) \<and> op_done r"
proof -
  let ?reg = "\<lparr>reg_connect = Some (ErrText ''down''), reg_digest = (\<lambda>_ _. Inr ''d''), reg_nil_client = Value ()\<rparr>"
  let ?s = "builder_init\<lparr>buildDone := [''b'' \<mapsto> True]\<rparr>"
  obtain r where r: "builder_GetOperation tagged_lib ?reg ?s ''b'' = (Value (Inr r), ?s)"
    by (auto simp: builder_GetOperation_def Let_def)
  from GetOperation_reports_build [OF tagged_lib_laws r] r show ?thesis by auto
qed

text \<open>
  The watch of a build ends at the first event that is a deletion, whatever object of the cluster
  it is about, or whose list of pods failed; only the second kind keeps the build from being done.
\<close>

theorem watch_stops_at_first_deletion:
  "watch_loop es =
     (case dropWhile (\<lambda>e. \<not> isl (we_pods e) \<and> we_Type e \<noteq> ''DELETED'') es of
        [] \<Rightarrow> WatchEnded
      | e # _ \<Rightarrow> (if isl (we_pods e) then PodsUnavailable else WatchEnded))"
  by (rule watch_loop_first)

text \<open>
  C35. A task handled by a process that started after the build was requested ends in an operation
  that is done but names no image: the record of the build was only in the old process's memory.
\<close>

theorem restart_loses_image:
  assumes "proto_laws L" and "task_payload t = Inr p"
    and "ca_client (wa_connect ans) = None" and "wa_create ans = None" and "wa_watch ans = None"
    and "watch_loop (wa_events ans) = WatchEnded" and "reg_connect (wa_registry ans) = None"
    and "builder_GetOperation L reg (builder_process ans (builder_restart s) t) (bp_BuildID p) =
      (Value (Inr r), s')"
  shows "op_done r \<and> (\<exists>b. unpack_build_response L (GetResponse r) = (b, None) \<and>
    bresp_imageName b = [] \<and> bresp_imageTag b = [])"
proof -
  let ?s = "builder_process ans (builder_restart s) t"
  obtain u s1 where h: "HandleBuildTask ans (builder_restart s) t = (Value u, s1)"
      and s1: "buildDone s1 (bp_BuildID p) = Some True" "buildInfo s1 = Map.empty"
    using assms(2-7)
    by (auto simp: HandleBuildTask_def builder_build_def connectToK8s_def playWithDocker_def Let_def
        split: sum.splits)
  then have "?s = s1" by (simp add: builder_process_def)
  with s1 assms(1,8) show ?thesis
    by (auto simp: builder_GetOperation_def Let_def info_at_def zero_BuildInfo_def GetResponse_def
        proto_facts split: sum.splits)
qed

theorem restart_loses_image_witness:
  "\<exists>r s'. builder_GetOperation tagged_lib
      \<lparr>reg_connect = None, reg_digest = (\<lambda>_ _. Inl (ErrText ''none'')), reg_nil_client = Value ()\<rparr>
      (builder_process
        \<lparr>wa_connect = \<lparr>ca_config = None, ca_client = None\<rparr>, wa_create = None, wa_watch = None,
         wa_events = [],
         wa_registry = \<lparr>reg_connect = None, reg_digest = (\<lambda>_ _. Inl (ErrText ''none'')), reg_nil_client = Value ()\<rparr>,
         wa_pods = Inr []\<rparr>
        (builder_restart builder_init) (NewBuildTask ''b'' ''main'' ''c'' [''//x''] ''t'')) ''b'' =
      (Value (Inr r), s') \<and> op_done r"
proof -
  let ?reg = "\<lparr>reg_connect = None, reg_digest = (\<lambda>_ _. Inl (ErrText ''none'')), reg_nil_client = Value ()\<rparr>"
  let ?wa = "\<lparr>wa_connect = \<lparr>ca_config = None, ca_client = None\<rparr>, wa_create = None, wa_watch = None,
         wa_events = [], wa_registry = ?reg, wa_pods = Inr []\<rparr>"
  let ?t = "NewBuildTask ''b'' ''main'' ''c'' [''//x''] ''t''"
  let ?p = "\<lparr>bp_BuildID = ''b'', bp_Branch = ''main'', bp_CommitSHA = ''c'', bp_Target = [''//x''],
      bp_ImageTag = ''t''\<rparr>"
  have p: "task_payload ?t = Inr ?p" by (simp add: NewBuildTask_def)
  obtain r s' where r: "builder_GetOperation tagged_lib ?reg (builder_process ?wa (builder_restart builder_init) ?t)
      (bp_BuildID ?p) = (Value (Inr r), s')"
    by (cases "builder_GetOperation tagged_lib ?reg (builder_process ?wa (builder_restart builder_init) ?t)
      (bp_BuildID ?p)") (auto simp: builder_GetOperation_def Let_def split: if_splits)
  from restart_loses_image [OF tagged_lib_laws p _ _ _ _ _ r] r show ?thesis by simp
qed

end
