(* ===== verification/Runner.thy ===== *)
theory Runner
  imports Actions K8s_Model
begin

text \<open>
  \<open>cmd/runner\<close>, the service that starts a job for an action graph, and \<open>pkg/runner\<close>, the task
  states of a batch executor that has no behaviour yet.
\<close>

section \<open>cmd/runner\<close>

definition actionJobSpec :: "string \<Rightarrow> string \<Rightarrow> string \<Rightarrow> job" where
  "actionJobSpec imageName imageTag target =
     (let backOffLimit = (0 :: 32 word);
          ttlSecondsAfterFinished = (10 :: 32 word)
      in \<lparr>job_generate_name = ''action-'',
          job_namespace = ''eval'',
          job_labels = [''action'' \<mapsto> ''somehing''],
          job_host_aliases =
            [\<lparr>ha_ip = ''192.168.1.8'', ha_hostnames = [''registry.other.net'']\<rparr>],
          job_containers =
            [\<lparr>cont_name = ''action'',
              cont_image = ''localhost:5000/'' @ imageName @ '':'' @ imageTag,
              cont_command = [''/app/actions/wrapper/wrapper_/wrapper''],
              cont_args = [],
              cont_env = []\<rparr>],
          job_restart_policy = ''Never'',
          job_backoff_limit = backOffLimit,
          job_ttl_seconds = ttlSecondsAfterFinished\<rparr>)"

text \<open>The jobs the runner has asked the cluster to create, oldest first.\<close>

record runner_state =
  runner_jobs :: "job list"

text \<open>
  \<open>create\<close> is the cluster's answer to \<open>jobs.Create\<close>, \<open>ks\<close> the order in which \<open>Dump\<close> ranges over
  the actions. The graph is dumped first, through the pointer of the request.
\<close>

definition CreateJob ::
    "string list \<Rightarrow> go_error option \<Rightarrow> runner_state \<Rightarrow> 'any create_job_request \<Rightarrow>
     (go_error + 'any operation) run \<times> runner_state" where
  "CreateJob ks create s req =
     (case fst (Dump ks (cjr_actions req)) of
        Panicked p \<Rightarrow> (Panicked p, s)
      | Exited m \<Rightarrow> (Exited m, s)
      | Value _ \<Rightarrow>
          (let spec = actionJobSpec ''eval'' ''295c4e89-7a5e-454d-8600-457af37ec0b5'' ''//actions/wrapper''
           in case create of
                Some err \<Rightarrow> (Value (Inl (ErrText ''failed to create ks job'')), s)
              | None \<Rightarrow>
                  (Value (Inr \<lparr>op_name = [], op_done = False, op_metadata = None, op_result = None\<rparr>),
                   s\<lparr>runner_jobs := runner_jobs s @ [spec]\<rparr>)))"

text \<open>What a restart of the process leaves: the cluster keeps the jobs.\<close>

definition runner_restart :: "runner_state \<Rightarrow> runner_state" where
  "runner_restart s = s"

text \<open>The stub of the runner's clients.\<close>

definition call_CreateJob ::
    "string list \<Rightarrow> go_error option \<Rightarrow> runner_state \<Rightarrow> 'any create_job_request \<Rightarrow>
     (go_error + 'any operation) \<times> runner_state" where
  "call_CreateJob ks create s req = rpc runner_restart (CreateJob ks create s req)"

lemma CreateJob_nil_graph:
  "cjr_actions req = None \<Longrightarrow> CreateJob ks create s req = (Panicked nil_dereference, s)"
  by (simp add: CreateJob_def)

lemma CreateJob_graph:
  assumes "cjr_actions req = Some g"
  shows "CreateJob ks create s req =
     (case create of
        Some err \<Rightarrow> (Value (Inl (ErrText ''failed to create ks job'')), s)
      | None \<Rightarrow>
          (Value (Inr \<lparr>op_name = [], op_done = False, op_metadata = None, op_result = None\<rparr>),
           s\<lparr>runner_jobs := runner_jobs s @
              [actionJobSpec ''eval'' ''295c4e89-7a5e-454d-8600-457af37ec0b5'' ''//actions/wrapper'']\<rparr>))"
  using assms Dump_Some [of ks g] by (auto simp: CreateJob_def Let_def)

section \<open>pkg/runner\<close>

datatype taskStatus = Unknown | Blocked | Queued | Running | Succeded | Failed | Lost | Skipped

fun status_number :: "taskStatus \<Rightarrow> int" where
  "status_number Unknown = 0"
| "status_number Blocked = 1"
| "status_number Queued = 2"
| "status_number Running = 3"
| "status_number Succeded = 4"
| "status_number Failed = 5"
| "status_number Lost = 6"
| "status_number Skipped = 7"

text \<open>The constants are an \<open>iota\<close>, so the order of the type is that of the numbers.\<close>

lemma status_number_inj: "status_number s = status_number t \<longleftrightarrow> s = t"
  by (cases s; cases t) simp_all

instantiation taskStatus :: linorder
begin

definition less_eq_taskStatus :: "taskStatus \<Rightarrow> taskStatus \<Rightarrow> bool" where
  "less_eq_taskStatus s t \<longleftrightarrow> status_number s \<le> status_number t"

definition less_taskStatus :: "taskStatus \<Rightarrow> taskStatus \<Rightarrow> bool" where
  "less_taskStatus s t \<longleftrightarrow> status_number s < status_number t"

instance
proof
  fix s t u :: taskStatus
  show "(s < t) = (s \<le> t \<and> \<not> t \<le> s)"
    by (auto simp: less_eq_taskStatus_def less_taskStatus_def)
  show "s \<le> s" by (simp add: less_eq_taskStatus_def)
  show "s \<le> t \<Longrightarrow> t \<le> u \<Longrightarrow> s \<le> u" by (simp add: less_eq_taskStatus_def)
  show "s \<le> t \<Longrightarrow> t \<le> s \<Longrightarrow> s = t"
    by (simp add: less_eq_taskStatus_def flip: status_number_inj)
  show "s \<le> t \<or> t \<le> s" by (auto simp: less_eq_taskStatus_def)
qed

end

record batchTask =
  task_name :: string
  task_status :: taskStatus

definition NewBatchTask :: "string \<Rightarrow> batchTask" where
  "NewBatchTask name = \<lparr>task_name = name, task_status = Unknown\<rparr>"

lemma NewBatchTask_least: "task_status (NewBatchTask n) \<le> s"
  by (cases s) (simp_all add: NewBatchTask_def less_eq_taskStatus_def)

section \<open>Properties\<close>

text \<open>
  \<open>CreateJob\<close> starts exactly one job, always the same one and never the graph's, when the request
  carries a graph and the cluster accepts the job; it starts none when the cluster refuses, and its
  process dies when there is no graph.
\<close>

theorem CreateJob_cases:
  "CreateJob ks create s req =
     (case (cjr_actions req, create) of
        (None, _) \<Rightarrow> (Panicked nil_dereference, s)
      | (Some g, Some err) \<Rightarrow> (Value (Inl (ErrText ''failed to create ks job'')), s)
      | (Some g, None) \<Rightarrow>
          (Value (Inr \<lparr>op_name = [], op_done = False, op_metadata = None, op_result = None\<rparr>),
           s\<lparr>runner_jobs := runner_jobs s @
              [actionJobSpec ''eval'' ''295c4e89-7a5e-454d-8600-457af37ec0b5'' ''//actions/wrapper'']\<rparr>))"
  by (cases "cjr_actions req") (auto simp: CreateJob_nil_graph CreateJob_graph split: option.splits)

end
