(* ===== verification/Cache_Store.thy ===== *)
theory Cache_Store
  imports Go_Prelude
begin

text \<open>
  \<open>pkg/cache\<close>: the generic \<open>Cache\<close>, which keeps one value per key, and \<open>MultiCache\<close>, which keeps
  a sorted bucket of values per key and answers with the least. The contract of a cache of buckets
  is a locale; \<open>MultiCache\<close> is an instance here, and the cache server's \<open>CacheBackend\<close> is one in
  its own theory.
\<close>

section \<open>Caches of buckets\<close>

locale bucket_cache =
  fixes empty_cache :: "'c"
    and put :: "'k \<Rightarrow> 'v \<Rightarrow> 'c \<Rightarrow> 'c"
    and bucket :: "'c \<Rightarrow> 'k \<Rightarrow> 'v list"
    and invar :: "'c \<Rightarrow> bool"
  assumes invar_empty: "invar empty_cache"
    and invar_put: "invar c \<Longrightarrow> invar (put k v c)"
    and bucket_empty: "bucket empty_cache k = []"
    and bucket_put_same: "invar c \<Longrightarrow> mset (bucket (put k v c) k) = add_mset v (mset (bucket c k))"
    and bucket_put_other: "invar c \<Longrightarrow> k' \<noteq> k \<Longrightarrow> bucket (put k v c) k' = bucket c k'"
begin

definition puts :: "('k \<times> 'v) list \<Rightarrow> 'c \<Rightarrow> 'c" where
  "puts kvs c = fold (\<lambda>(k, v). put k v) kvs c"

lemma invar_puts: "invar c \<Longrightarrow> invar (puts kvs c)"
  by (induction kvs arbitrary: c) (auto simp: puts_def invar_put)

lemma mset_bucket_put:
  "invar c \<Longrightarrow> mset (bucket (put k' v c) k) = (if k' = k then {#v#} else {#}) + mset (bucket c k)"
  using bucket_put_same [of c k v] bucket_put_other [of c k k' v] by auto

text \<open>A bucket holds exactly the values put under its key, with their multiplicity.\<close>

lemma bucket_puts_gen:
  "invar c \<Longrightarrow> mset (bucket (puts kvs c) k) =
     mset (map snd (filter (\<lambda>kv. fst kv = k) kvs)) + mset (bucket c k)"
proof (induction kvs arbitrary: c)
  case Nil
  then show ?case by (simp add: puts_def)
next
  case (Cons kv kvs)
  obtain k' v where kv: "kv = (k', v)" by (cases kv)
  have "puts (kv # kvs) c = puts kvs (put k' v c)"
    by (simp add: puts_def kv)
  with Cons show ?case
    by (simp add: kv invar_put mset_bucket_put)
qed

lemma bucket_puts:
  "mset (bucket (puts kvs empty_cache) k) = mset (map snd (filter (\<lambda>kv. fst kv = k) kvs))"
  by (simp add: bucket_puts_gen invar_empty bucket_empty)

lemma set_bucket_puts: "set (bucket (puts kvs empty_cache) k) = {v. (k, v) \<in> set kvs}"
proof -
  have "set (bucket (puts kvs empty_cache) k) = set (map snd (filter (\<lambda>kv. fst kv = k) kvs))"
    using bucket_puts mset_eq_setD by blast
  then show ?thesis by force
qed

end

locale sorted_bucket_cache = bucket_cache empty_cache put bucket invar
  for empty_cache :: "'c"
    and put :: "'k \<Rightarrow> 'v::linorder \<Rightarrow> 'c \<Rightarrow> 'c"
    and bucket :: "'c \<Rightarrow> 'k \<Rightarrow> 'v list"
    and invar :: "'c \<Rightarrow> bool" +
  assumes sorted_bucket: "invar c \<Longrightarrow> sorted (bucket c k)"
begin

text \<open>The head of a bucket is the least value ever put under its key.\<close>

lemma hd_bucket_puts:
  assumes "(k, v) \<in> set kvs"
  shows "bucket (puts kvs empty_cache) k \<noteq> [] \<and>
         hd (bucket (puts kvs empty_cache) k) = Min {w. (k, w) \<in> set kvs}"
proof -
  let ?b = "bucket (puts kvs empty_cache) k"
  have s: "set ?b = {w. (k, w) \<in> set kvs}"
    by (rule set_bucket_puts)
  with assms have ne: "?b \<noteq> []" by auto
  have "sorted ?b"
    by (simp add: sorted_bucket invar_puts invar_empty)
  with ne have "Min (set ?b) = hd ?b"
    by (cases ?b) (auto intro: Min_eqI)
  with ne s show ?thesis by simp
qed

end

section \<open>Cache\<close>

record ('k, 'v) Cache =
  Data :: "'k \<rightharpoonup> 'v"

definition NewCache :: "('k, 'v) Cache" where
  "NewCache = \<lparr>Data = Map.empty\<rparr>"

definition Cache_AddValue :: "('k, 'v) Cache \<Rightarrow> 'k \<Rightarrow> 'v \<Rightarrow> ('k, 'v) Cache" where
  "Cache_AddValue c key value = c\<lparr>Data := (Data c)(key \<mapsto> value)\<rparr>"

definition Cache_Set :: "('k, 'v) Cache \<Rightarrow> 'k \<Rightarrow> 'v \<Rightarrow> ('k, 'v) Cache" where
  "Cache_Set c key value = Cache_AddValue c key value"

section \<open>MultiCache\<close>

record ('k, 'v) MultiCache =
  MData :: "'k \<rightharpoonup> 'v list"
  Sort :: "'v list \<Rightarrow> 'v list"

text \<open>\<open>sort.Slice\<close> by \<open><\<close> on an ordered type: equal elements cannot be told apart.\<close>

definition sortSlice :: "'v::linorder list \<Rightarrow> 'v list" where
  "sortSlice s = sort s"

text \<open>Indexing a map of slices with a missing key gives the nil slice.\<close>

definition slice_at :: "('k \<rightharpoonup> 'v list) \<Rightarrow> 'k \<Rightarrow> 'v list" where
  "slice_at m k = (case m k of None \<Rightarrow> [] | Some vs \<Rightarrow> vs)"

definition MultiCache_AddValue :: "('k, 'v) MultiCache \<Rightarrow> 'k \<Rightarrow> 'v \<Rightarrow> ('k, 'v) MultiCache" where
  "MultiCache_AddValue c key value =
     (let c1 = c\<lparr>MData := (MData c)(key \<mapsto> slice_at (MData c) key @ [value])\<rparr>
      in c1\<lparr>MData := (MData c1)(key \<mapsto> Sort c1 (slice_at (MData c1) key))\<rparr>)"

definition MultiCache_Set :: "('k, 'v) MultiCache \<Rightarrow> 'k \<Rightarrow> 'v \<Rightarrow> ('k, 'v) MultiCache" where
  "MultiCache_Set c key value = MultiCache_AddValue c key value"

definition MultiCache_Get :: "('k, 'v) MultiCache \<Rightarrow> 'k \<Rightarrow> 'v run" where
  "MultiCache_Get c key =
     (case slice_at (MData c) key of
        [] \<Rightarrow> Panicked index_out_of_range
      | v # _ \<Rightarrow> Value v)"

definition NewMultiCache :: "('k, 'v::linorder) MultiCache" where
  "NewMultiCache = \<lparr>MData = Map.empty, Sort = sortSlice\<rparr>"

section \<open>MultiCache meets the contract\<close>

definition multi_invar :: "('k, 'v::linorder) MultiCache \<Rightarrow> bool" where
  "multi_invar c \<longleftrightarrow> Sort c = sortSlice \<and> (\<forall>k. sorted (slice_at (MData c) k))"

lemma slice_at_upd [simp]: "slice_at (m(k \<mapsto> vs)) k' = (if k' = k then vs else slice_at m k')"
  by (simp add: slice_at_def)

lemma slice_at_empty [simp]: "slice_at Map.empty k = []"
  by (simp add: slice_at_def)

interpretation multi: sorted_bucket_cache
  "NewMultiCache" "\<lambda>k v c. MultiCache_Set c k v" "\<lambda>c k. slice_at (MData c) k" multi_invar
  by unfold_locales
    (auto simp: multi_invar_def NewMultiCache_def MultiCache_Set_def MultiCache_AddValue_def
      sortSlice_def Let_def)

definition MultiCache_puts ::
    "('k \<times> 'v) list \<Rightarrow> ('k, 'v) MultiCache \<Rightarrow> ('k, 'v) MultiCache" where
  "MultiCache_puts kvs c = fold (\<lambda>(k, v) c. MultiCache_Set c k v) kvs c"

lemma MultiCache_puts_eq: "MultiCache_puts kvs c = multi.puts kvs c"
  by (simp add: MultiCache_puts_def multi.puts_def case_prod_unfold)

lemma MultiCache_Get_least:
  assumes "(k, v) \<in> set kvs"
  shows "MultiCache_Get (MultiCache_puts kvs NewMultiCache) k = Value (Min {w. (k, w) \<in> set kvs})"
  using multi.hd_bucket_puts [OF assms]
  by (auto simp: MultiCache_Get_def MultiCache_puts_eq neq_Nil_conv)

lemma MultiCache_Get_missing:
  assumes "k \<notin> fst ` set kvs"
  shows "MultiCache_Get (MultiCache_puts kvs NewMultiCache) k = Panicked index_out_of_range"
proof -
  have "set (slice_at (MData (multi.puts kvs NewMultiCache)) k) = {v. (k, v) \<in> set kvs}"
    by (rule multi.set_bucket_puts)
  also have "\<dots> = {}" using assms by force
  finally show ?thesis by (simp add: MultiCache_Get_def MultiCache_puts_eq)
qed

section \<open>Properties\<close>

text \<open>
  After any sequence of \<open>Set\<close> calls on a new \<open>MultiCache\<close>, \<open>Get\<close> answers with the least of the
  values set under the key, and panics when none was.
\<close>

theorem MultiCache_answers_least:
  "MultiCache_Get (MultiCache_puts kvs NewMultiCache) k =
     (if \<exists>v. (k, v) \<in> set kvs then Value (Min {w. (k, w) \<in> set kvs})
      else Panicked index_out_of_range)"
  using MultiCache_Get_least [of k _ kvs] MultiCache_Get_missing [of k kvs] by force

end
