(* ===== verification/Cache_Server.thy ===== *)
theory Cache_Server
  imports Actions Builder Runner Cache_Store
begin

text \<open>
  \<open>cmd/cache\<close>: the service between the engine and the builder. \<open>Get\<close> answers a request for a value
  with an operation: one it started before for a compatible action, or a new one it starts at the
  builder. \<open>GetOperation\<close> polls the builder on behalf of the caller and keeps the last answer. The
  builder and the runner are reached through stubs; the state of the handlers is the cache's own
  state together with those of the two services behind the stubs.
\<close>

section \<open>State\<close>

record 'any cacheValue =
  cv_Action :: "'any action option"
  cv_Operation :: string

text \<open>
  The fields of \<open>CacheBackend\<close> and the package variable \<open>downstreamOperation\<close>, which gives for an
  operation of the cache the builder's operation behind it.
\<close>

record 'any cache_state =
  cb_data :: "string \<rightharpoonup> 'any cacheValue list"
  cb_upstream :: "string \<rightharpoonup> 'any operation"
  downstreamOperation :: "string \<rightharpoonup> string"

type_synonym ('any, 'b, 'r) cache_world = "'any cache_state \<times> 'b \<times> 'r"

definition NewCacheBackend :: "'any cache_state" where
  "NewCacheBackend =
     \<lparr>cb_data = Map.empty, cb_upstream = Map.empty, downstreamOperation = Map.empty\<rparr>"

text \<open>The stubs of the builder and the runner, each with the environment's answers filled in.\<close>

record ('any, 'b, 'r) cache_stubs =
  stub_build :: "'b \<Rightarrow> build_request \<Rightarrow> (go_error + 'any operation) \<times> 'b"
  stub_create_job :: "'r \<Rightarrow> 'any create_job_request \<Rightarrow> (go_error + 'any operation) \<times> 'r"

definition stubs_for ::
    "('b \<Rightarrow> build_request \<Rightarrow> (go_error + 'any operation) \<times> 'b) \<Rightarrow>
     ('r \<Rightarrow> 'any create_job_request \<Rightarrow> (go_error + 'any operation) \<times> 'r) \<Rightarrow>
     ('any, 'b, 'r) cache_stubs" where
  "stubs_for build jobs = \<lparr>stub_build = build, stub_create_job = jobs\<rparr>"

lemma stubs_for_simps [simp]:
  "stub_build (stubs_for build jobs) = build"
  "stub_create_job (stubs_for build jobs) = jobs"
  by (simp_all add: stubs_for_def)

text \<open>
  The environment's answers during one call: a new UUID, and the orders of the loops over maps
  (the two loops of \<open>StringDictionary\<close>, and the one of \<open>agraph.Execute\<close>).
\<close>

record cache_answers =
  cache_uuid :: "go_error + string"
  cache_type_order :: "string list"
  cache_value_order :: "string list"
  cache_execute_order :: "string list"

section \<open>CacheBackend\<close>

definition Compatible :: "build_image_config \<Rightarrow> build_image_config \<Rightarrow> bool" where
  "Compatible new old \<longleftrightarrow> list_all (\<lambda>t. t \<in> set (bic_bazel_targets old)) (bic_bazel_targets new)"

text \<open>
  The loop of \<open>CacheBackend.Get\<close>: the operation of the first entry of the bucket whose action is an
  image build the request is compatible with. An entry whose configuration does not unpack is
  passed over.
\<close>

fun first_compatible ::
    "'any proto_lib \<Rightarrow> build_image_config \<Rightarrow> 'any cacheValue list \<Rightarrow> string option run" where
  "first_compatible L buildConfig [] = Value None"
| "first_compatible L buildConfig (c # cv) =
     (case cv_Action c of
        None \<Rightarrow> Panicked nil_dereference
      | Some a \<Rightarrow>
          (case unpack_build_image_config L (act_config a) of
             (cachedBuildConfig, Some err) \<Rightarrow> first_compatible L buildConfig cv
           | (cachedBuildConfig, None) \<Rightarrow>
               (if Compatible buildConfig cachedBuildConfig then Value (Some (cv_Operation c))
                else first_compatible L buildConfig cv)))"

definition CacheBackend_Get ::
    "'any proto_lib \<Rightarrow> 'any cache_state \<Rightarrow> 'any action \<Rightarrow> (go_error + string) run" where
  "CacheBackend_Get L c action =
     (case ActionDigest L action of
        Inl err \<Rightarrow> Value (Inl err)
      | Inr digest \<Rightarrow>
          (let buildConfig = fst (unpack_build_image_config L (act_config action))
           in case cb_data c digest of
                None \<Rightarrow> Value (Inl (ErrText ''no cached operation''))
              | Some cv \<Rightarrow>
                  (case first_compatible L buildConfig cv of
                     Panicked p \<Rightarrow> Panicked p
                   | Exited m \<Rightarrow> Exited m
                   | Value (Some operation) \<Rightarrow> Value (Inr operation)
                   | Value None \<Rightarrow>
                       (if cv = [] then Panicked index_out_of_range
                        else Value (Inl (ErrText ''no cached operation''))))))"

definition CacheBackend_Put ::
    "string \<Rightarrow> string \<Rightarrow> 'any action option \<Rightarrow> 'any cache_state \<Rightarrow> 'any cache_state" where
  "CacheBackend_Put digest operation action c =
     c\<lparr>cb_data := (cb_data c)(digest \<mapsto>
         slice_at (cb_data c) digest @ [\<lparr>cv_Action = action, cv_Operation = operation\<rparr>])\<rparr>"

section \<open>Get\<close>

text \<open>
  The value \<open>graph.rest\<close> names the action \<open>rest\<close> of the graph; the graph's own name is checked.
\<close>

definition GetAction :: "'any agraph option \<Rightarrow> string \<Rightarrow> (go_error + 'any action) run" where
  "GetAction agraph fullValuePath =
     (let valueNameComponents = split_on CHR ''.'' fullValuePath
      in case agraph of
           None \<Rightarrow> Panicked nil_dereference
         | Some g \<Rightarrow>
             (if ag_name g \<noteq> hd valueNameComponents then Value (Inl (ErrText ''wrong action graph''))
              else (let value = join_with ''.'' (tl valueNameComponents)
                    in case ag_actions g value of
                         Some a \<Rightarrow> Value (Inr a)
                       | None \<Rightarrow> Value (Inl (ErrText ''GetAction'')))))"

text \<open>\<open>createJob\<close> sends an empty request and drops the reply.\<close>

definition createJob ::
    "('any, 'b, 'r) cache_stubs \<Rightarrow> ('any, 'b, 'r) cache_world \<Rightarrow> ('any, 'b, 'r) cache_world" where
  "createJob stubs w =
     (case w of (c, b, r) \<Rightarrow> (c, b, snd (stub_create_job stubs r \<lparr>cjr_actions = None\<rparr>)))"

definition buildImage ::
    "('any, 'b, 'r) cache_stubs \<Rightarrow> build_image_config \<Rightarrow> ('any, 'b, 'r) cache_world \<Rightarrow>
     (go_error + 'any operation) run \<times> ('any, 'b, 'r) cache_world" where
  "buildImage stubs config w =
     run_then (deref (bic_commit_point config) w) (\<lambda>cp w1.
       case w1 of (c, b, r) \<Rightarrow>
         (case stub_build stubs b
                 \<lparr>br_commitSHA = cp_commit_sha cp, br_branch = cp_branch cp,
                  br_target = bic_bazel_targets config\<rparr> of
            (response, b') \<Rightarrow> (Value response, (c, b', r))))"

text \<open>The image's name, tag and digest as the map the answers are made of.\<close>

definition image_info :: "build_response \<Rightarrow> (string \<rightharpoonup> string)" where
  "image_info resp =
     [''image_name'' \<mapsto> bresp_imageName resp,
      ''image_tag'' \<mapsto> bresp_imageTag resp,
      ''image_digest'' \<mapsto> bresp_imageDigest resp]"

definition reply_operation :: "string \<Rightarrow> bool \<Rightarrow> 'any \<Rightarrow> 'any operation" where
  "reply_operation name done response =
     \<lparr>op_name = name, op_done = done, op_metadata = None,
      op_result = Some (OperationResponse (Some response))\<rparr>"

text \<open>A response packed into an operation; the code panics when packing fails.\<close>

definition respond ::
    "'any proto_lib \<Rightarrow> string \<Rightarrow> bool \<Rightarrow> get_response \<Rightarrow> (go_error + 'any operation) run" where
  "respond L name done resp =
     (case pack_get_response L resp of
        Inl err \<Rightarrow> Panicked ''anypb.New''
      | Inr response \<Rightarrow> Value (Inr (reply_operation name done response)))"

text \<open>
  The answer to a hit: the image of the operation when the last poll of the builder said it was
  done; otherwise an empty response, done all the same.
\<close>

definition cached_reply ::
    "'any proto_lib \<Rightarrow> cache_answers \<Rightarrow> 'any cache_state \<Rightarrow> string \<Rightarrow>
     (go_error + 'any operation) run" where
  "cached_reply L ans c cachedOperation =
     (case cb_upstream c cachedOperation of
        Some lastResult \<Rightarrow>
          (if op_done lastResult then
             (case unpack_build_response L (GetResponse lastResult) of
                (buildResponse, Some err) \<Rightarrow> Exited ''4 Cannot unmarhshal result''
              | (buildResponse, None) \<Rightarrow>
                  respond L cachedOperation True
                    \<lparr>gresp_name = [],
                     gresp_value = Some (StringDictionary (cache_type_order ans)
                       (cache_value_order ans) (image_info buildResponse))\<rparr>)
           else respond L cachedOperation True zero_get_response)
      | None \<Rightarrow> respond L cachedOperation True zero_get_response)"

text \<open>
  A miss: the digest of the requested action, then a build of the graph's action \<open>build\<close>. The error
  of \<open>buildImage\<close> is overwritten before anyone reads it, so a failed call leaves a nil operation,
  whose name is read after the UUID is drawn.
\<close>

definition register_build ::
    "'any proto_lib \<Rightarrow> cache_answers \<Rightarrow> string \<Rightarrow> 'any action \<Rightarrow> go_error + 'any operation \<Rightarrow>
     ('any, 'b, 'r) cache_world \<Rightarrow>
     (go_error + 'any operation) run \<times> ('any, 'b, 'r) cache_world" where
  "register_build L ans digest buildAction operation w =
     (case pack_get_response L zero_get_response of
        Inl err \<Rightarrow> (Panicked ''anypb.New'', w)
      | Inr result \<Rightarrow>
          (case cache_uuid ans of
             Inl err \<Rightarrow> (Value (Inl err), w)
           | Inr ident \<Rightarrow>
               (case operation of
                  Inl err \<Rightarrow> (Panicked nil_dereference, w)
                | Inr operation \<Rightarrow>
                    (case w of (c, b, r) \<Rightarrow>
                       (let c1 = c\<lparr>downstreamOperation :=
                              (downstreamOperation c)(ident \<mapsto> op_name operation)\<rparr>;
                            c2 = CacheBackend_Put digest ident (Some buildAction) c1
                        in (Value (Inr (reply_operation ident (op_done operation) result)),
                            (c2, b, r)))))))"

definition fresh_build ::
    "'any proto_lib \<Rightarrow> ('any, 'b, 'r) cache_stubs \<Rightarrow> cache_answers \<Rightarrow> 'any agraph option \<Rightarrow>
     'any action \<Rightarrow> ('any, 'b, 'r) cache_world \<Rightarrow>
     (go_error + 'any operation) run \<times> ('any, 'b, 'r) cache_world" where
  "fresh_build L stubs ans actions mainAction w =
     (case ActionDigest L mainAction of
        Inl err \<Rightarrow> (Value (Inl err), w)
      | Inr digest \<Rightarrow>
          run_then (fst (Execute L (cache_execute_order ans) actions), w) (\<lambda>_ w.
          run_then (deref actions w) (\<lambda>g w.
          run_then (deref (ag_actions g ''build'') w) (\<lambda>buildAction w.
            let buildImageConfig = fst (unpack_build_image_config L (act_config buildAction))
            in run_then (buildImage stubs buildImageConfig w) (\<lambda>operation w.
                 register_build L ans digest buildAction operation w)))))"

definition cache_Get ::
    "'any proto_lib \<Rightarrow> ('any, 'b, 'r) cache_stubs \<Rightarrow> cache_answers \<Rightarrow>
     ('any, 'b, 'r) cache_world \<Rightarrow> 'any get_request \<Rightarrow>
     (go_error + 'any operation) run \<times> ('any, 'b, 'r) cache_world" where
  "cache_Get L stubs ans w req =
     run_then (deref (gr_context req) w) (\<lambda>ctx w.
       let actions = EssentialActions (ctx_actions ctx) (gr_value req)
       in run_then (GetAction actions (gr_value req), w) (\<lambda>found w.
            case found of
              Inl err \<Rightarrow> (Value (Inl err), w)
            | Inr mainAction \<Rightarrow>
                (let w = createJob stubs w
                 in if gr_skip_caching req then fresh_build L stubs ans actions mainAction w
                    else run_then (CacheBackend_Get L (fst w) mainAction, w) (\<lambda>cached w.
                           case cached of
                             Inr cachedOperation \<Rightarrow> (cached_reply L ans (fst w) cachedOperation, w)
                           | Inl err \<Rightarrow> fresh_build L stubs ans actions mainAction w))))"

section \<open>GetOperation\<close>

text \<open>
  A result that was done at the last poll is answered as it is, without asking the builder; a known
  operation is polled; an unknown one is said to be done, with no result.
\<close>

definition poll_downstream ::
    "'any proto_lib \<Rightarrow> ('b \<Rightarrow> string \<Rightarrow> (go_error + 'any operation) \<times> 'b) \<Rightarrow> cache_answers \<Rightarrow>
     ('any, 'b, 'r) cache_world \<Rightarrow> string \<Rightarrow>
     (go_error + 'any operation) run \<times> ('any, 'b, 'r) cache_world" where
  "poll_downstream L builderOp ans w name =
     (case w of (c, b, r) \<Rightarrow>
       (case downstreamOperation c name of
          None \<Rightarrow>
            (Value (Inr \<lparr>op_name = name, op_done = True, op_metadata = None, op_result = None\<rparr>), w)
        | Some operationID \<Rightarrow>
            (case builderOp b operationID of
               (Inl err, b') \<Rightarrow> (Exited ''Failure to get operation from upstream'', (c, b', r))
             | (Inr operation, b') \<Rightarrow>
                 (let c1 = c\<lparr>cb_upstream := (cb_upstream c)(name \<mapsto> operation)\<rparr>
                  in case (if op_done operation
                           then unpack_build_response L (GetResponse operation)
                           else (zero_build_response, None)) of
                       (buildResponse, Some err) \<Rightarrow>
                         (Exited ''Cannot unmarhshal result from builder'', (c1, b', r))
                     | (buildResponse, None) \<Rightarrow>
                         (respond L name (op_done operation)
                            \<lparr>gresp_name = [],
                             gresp_value = Some (StringDictionary (cache_type_order ans)
                               (cache_value_order ans) (image_info buildResponse))\<rparr>,
                          (c1, b', r))))))"

definition cache_GetOperation ::
    "'any proto_lib \<Rightarrow> ('b \<Rightarrow> string \<Rightarrow> (go_error + 'any operation) \<times> 'b) \<Rightarrow> cache_answers \<Rightarrow>
     ('any, 'b, 'r) cache_world \<Rightarrow> string \<Rightarrow>
     (go_error + 'any operation) run \<times> ('any, 'b, 'r) cache_world" where
  "cache_GetOperation L builderOp ans w name =
     (case w of (c, b, r) \<Rightarrow>
       (case cb_upstream c name of
          Some lastResult \<Rightarrow>
            (if op_done lastResult then (Value (Inr lastResult), w)
             else poll_downstream L builderOp ans w name)
        | None \<Rightarrow> poll_downstream L builderOp ans w name))"

text \<open>The stub of the cache's clients; a new process starts with an empty backend.\<close>

definition cache_restart :: "('any, 'b, 'r) cache_world \<Rightarrow> ('any, 'b, 'r) cache_world" where
  "cache_restart w = (case w of (c, b, r) \<Rightarrow> (NewCacheBackend, b, r))"

definition cache_call_Get ::
    "'any proto_lib \<Rightarrow> ('any, 'b, 'r) cache_stubs \<Rightarrow> cache_answers \<Rightarrow>
     ('any, 'b, 'r) cache_world \<Rightarrow> 'any get_request \<Rightarrow>
     (go_error + 'any operation) \<times> ('any, 'b, 'r) cache_world" where
  "cache_call_Get L stubs ans w req = rpc cache_restart (cache_Get L stubs ans w req)"

definition cache_call_GetOperation ::
    "'any proto_lib \<Rightarrow> ('b \<Rightarrow> string \<Rightarrow> (go_error + 'any operation) \<times> 'b) \<Rightarrow> cache_answers \<Rightarrow>
     ('any, 'b, 'r) cache_world \<Rightarrow> string \<Rightarrow>
     (go_error + 'any operation) \<times> ('any, 'b, 'r) cache_world" where
  "cache_call_GetOperation L builderOp ans w name =
     rpc cache_restart (cache_GetOperation L builderOp ans w name)"

section \<open>CacheBackend is a cache of buckets\<close>

definition Put_entry :: "string \<Rightarrow> 'any cacheValue \<Rightarrow> 'any cache_state \<Rightarrow> 'any cache_state" where
  "Put_entry digest cv c = CacheBackend_Put digest (cv_Operation cv) (cv_Action cv) c"

lemma Put_entry_data:
  "cb_data (Put_entry digest cv c) = (cb_data c)(digest \<mapsto> slice_at (cb_data c) digest @ [cv])"
  by (cases cv) (simp add: Put_entry_def CacheBackend_Put_def)

interpretation backend: bucket_cache
  NewCacheBackend Put_entry "\<lambda>c k. slice_at (cb_data c) k" "\<lambda>_. True"
  by unfold_locales (auto simp: NewCacheBackend_def Put_entry_data)

section \<open>What the lookup finds\<close>

text \<open>The first entry that answers a request, as a search of the bucket.\<close>

definition answers_request :: "'any proto_lib \<Rightarrow> build_image_config \<Rightarrow> 'any cacheValue \<Rightarrow> bool" where
  "answers_request L cfg cv \<longleftrightarrow>
     (\<exists>a old. cv_Action cv = Some a \<and> unpack_build_image_config L (act_config a) = (old, None) \<and>
        Compatible cfg old)"

lemma first_compatible_find:
  assumes "\<forall>cv \<in> set cvs. cv_Action cv \<noteq> None"
  shows "first_compatible L cfg cvs = Value (map_option cv_Operation (find (answers_request L cfg) cvs))"
  using assms
  by (induction cvs) (auto simp: answers_request_def split: prod.splits option.splits)

lemma Compatible_iff: "Compatible new old \<longleftrightarrow> set (bic_bazel_targets new) \<subseteq> set (bic_bazel_targets old)"
  by (auto simp: Compatible_def list_all_iff)

lemma Compatible_refl [simp]: "Compatible c c"
  by (simp add: Compatible_iff)

lemma Compatible_trans: "Compatible a b \<Longrightarrow> Compatible b c \<Longrightarrow> Compatible a c"
  by (auto simp: Compatible_iff)

section \<open>The invariant of the cache\<close>

text \<open>
  An entry of the cache is backed by a build: its operation is known, and the builder's operation
  behind it serves the request that the entry's configuration asks for.
\<close>

definition requested :: "commit_point \<Rightarrow> build_image_config \<Rightarrow> build_request" where
  "requested cp cfg =
     \<lparr>br_commitSHA = cp_commit_sha cp, br_branch = cp_branch cp,
      br_target = bic_bazel_targets cfg\<rparr>"

definition entry_backed ::
    "'any proto_lib \<Rightarrow> ('b \<Rightarrow> string \<Rightarrow> build_request \<Rightarrow> bool) \<Rightarrow> 'any cache_state \<Rightarrow> 'b \<Rightarrow>
     'any cacheValue \<Rightarrow> bool" where
  "entry_backed L serves c b cv \<longleftrightarrow>
     (\<exists>a cfg cp m. cv_Action cv = Some a \<and> cfg = fst (unpack_build_image_config L (act_config a)) \<and>
        bic_commit_point cfg = Some cp \<and>
        downstreamOperation c (cv_Operation cv) = Some m \<and> serves b m (requested cp cfg))"

definition result_backed ::
    "'any proto_lib \<Rightarrow> ('b \<Rightarrow> string \<Rightarrow> build_response \<Rightarrow> bool) \<Rightarrow> 'any cache_state \<Rightarrow> 'b \<Rightarrow>
     string \<Rightarrow> 'any operation \<Rightarrow> bool" where
  "result_backed L built c b n res \<longleftrightarrow>
     (\<exists>m. downstreamOperation c n = Some m \<and>
        (op_done res \<longrightarrow> (\<exists>resp. unpack_build_response L (GetResponse res) = (resp, None) \<and>
           built b m resp)))"

definition cache_inv ::
    "'any proto_lib \<Rightarrow> ('b \<Rightarrow> bool) \<Rightarrow> ('b \<Rightarrow> string \<Rightarrow> build_request \<Rightarrow> bool) \<Rightarrow>
     ('b \<Rightarrow> string \<Rightarrow> build_response \<Rightarrow> bool) \<Rightarrow> ('any, 'b, 'r) cache_world \<Rightarrow> bool" where
  "cache_inv L invar serves built w \<longleftrightarrow>
     (case w of (c, b, r) \<Rightarrow>
        invar b \<and>
        (\<forall>d cvs. cb_data c d = Some cvs \<longrightarrow> cvs \<noteq> [] \<and> list_all (entry_backed L serves c b) cvs) \<and>
        (\<forall>n res. cb_upstream c n = Some res \<longrightarrow> result_backed L built c b n res))"

lemma cache_inv_simp:
  "cache_inv L invar serves built (c, b, r) \<longleftrightarrow>
     invar b \<and>
     (\<forall>d cvs. cb_data c d = Some cvs \<longrightarrow> cvs \<noteq> [] \<and> (\<forall>cv \<in> set cvs. entry_backed L serves c b cv)) \<and>
     (\<forall>n res. cb_upstream c n = Some res \<longrightarrow> result_backed L built c b n res)"
  by (simp add: cache_inv_def list_all_iff)

lemma cache_inv_init: "invar b \<Longrightarrow> cache_inv L invar serves built (NewCacheBackend, b, r)"
  by (simp add: cache_inv_simp NewCacheBackend_def)

text \<open>What the two services behind the stubs do is all right when the builder forgets nothing.\<close>

lemma cache_inv_mono:
  assumes "cache_inv L invar serves built (c, b, r)" and "invar b'"
    and "\<And>n q. serves b n q \<Longrightarrow> serves b' n q" and "\<And>n resp. built b n resp \<Longrightarrow> built b' n resp"
  shows "cache_inv L invar serves built (c, b', r')"
proof -
  have "entry_backed L serves c b cv \<Longrightarrow> entry_backed L serves c b' cv" for cv
    using assms(3) by (force simp: entry_backed_def)
  moreover have "result_backed L built c b n res \<Longrightarrow> result_backed L built c b' n res" for n res
    using assms(4) by (force simp: result_backed_def)
  ultimately show ?thesis using assms(1,2) by (simp add: cache_inv_simp)
qed

lemma cache_inv_runner: "cache_inv L invar serves built (c, b, r) = cache_inv L invar serves built (c, b, r')"
  by (simp add: cache_inv_def)

text \<open>Registering a new operation under a fresh name, and putting its entry.\<close>

lemma cache_inv_put:
  assumes inv: "cache_inv L invar serves built (c, b, r)"
    and fresh: "downstreamOperation c ident = None"
    and cfg: "cfg = fst (unpack_build_image_config L (act_config a))" "bic_commit_point cfg = Some cp"
    and srv: "serves b m (requested cp cfg)"
  shows "cache_inv L invar serves built
    (CacheBackend_Put digest ident (Some a)
       (c\<lparr>downstreamOperation := (downstreamOperation c)(ident \<mapsto> m)\<rparr>), b, r)"
    (is "cache_inv _ _ _ _ (?c, b, r)")
proof -
  let ?new = "\<lparr>cv_Action = Some a, cv_Operation = ident\<rparr>"
  have data: "cb_data ?c = (cb_data c)(digest \<mapsto> slice_at (cb_data c) digest @ [?new])"
    and up: "cb_upstream ?c = cb_upstream c"
    and down: "downstreamOperation ?c = (downstreamOperation c)(ident \<mapsto> m)"
    by (simp_all add: CacheBackend_Put_def)
  have old: "entry_backed L serves ?c b cv" if "entry_backed L serves c b cv" for cv
    using that fresh by (force simp: entry_backed_def down)
  have new: "entry_backed L serves ?c b ?new"
    using cfg srv by (auto simp: entry_backed_def down)
  have keep: "result_backed L built ?c b n res" if "result_backed L built c b n res" for n res
    using that fresh by (auto simp: result_backed_def down)
  have slice: "\<forall>cv \<in> set (slice_at (cb_data c) digest). entry_backed L serves c b cv"
    using inv by (cases "cb_data c digest") (auto simp: cache_inv_simp slice_at_def)
  show ?thesis
    using inv old new keep slice unfolding cache_inv_simp data up by auto
qed

lemma cache_inv_upstream:
  assumes "cache_inv L invar serves built (c, b, r)" and "result_backed L built c b n res"
  shows "cache_inv L invar serves built
    (c\<lparr>cb_upstream := (cb_upstream c)(n \<mapsto> res)\<rparr>, b, r)"
  using assms by (auto simp: cache_inv_simp entry_backed_def result_backed_def)

text \<open>
  The cache has a final answer for an operation when it holds one, when the builder has one, and
  when it does not know the operation at all.
\<close>

definition cache_finished ::
    "('b \<Rightarrow> string \<Rightarrow> bool) \<Rightarrow> ('any, 'b, 'r) cache_world \<Rightarrow> string \<Rightarrow> bool" where
  "cache_finished finished w n \<longleftrightarrow>
     (case w of (c, b, r) \<Rightarrow>
        (\<exists>res. cb_upstream c n = Some res \<and> op_done res) \<or>
        (case downstreamOperation c n of None \<Rightarrow> True | Some m \<Rightarrow> finished b m))"

section \<open>The handlers keep the invariant\<close>

lemma buildImage_Value:
  "buildImage stubs cfg (c, b, r) = (Value resp, w') \<longleftrightarrow>
     (\<exists>cp b'. bic_commit_point cfg = Some cp \<and> stub_build stubs b (requested cp cfg) = (resp, b') \<and>
        w' = (c, b', r))"
  by (cases "bic_commit_point cfg") (auto simp: buildImage_def requested_def split: prod.splits)

lemma buildImage_state:
  "bic_commit_point cfg = None \<Longrightarrow> snd (buildImage stubs cfg w) = w"
  by (simp add: buildImage_def)

context builder_service
begin

abbreviation inv_cache :: "('any, 's, 'r) cache_world \<Rightarrow> bool" where
  "inv_cache \<equiv> cache_inv lib invar serves built"

lemma inv_build_step:
  assumes "inv_cache (c, b, r)" and "fresh y b" and "build y b q = (resp, b')"
  shows "inv_cache (c, b', r)"
proof (rule cache_inv_mono [OF assms(1)])
  show "invar b'" using assms invar_build [of b y q] by (simp add: cache_inv_simp)
  show "serves b n q' \<Longrightarrow> serves b' n q'" for n q'
    using serves_build [of b n q' y q] assms(3) by simp
  show "built b n ans \<Longrightarrow> built b' n ans" for n ans
    using built_build [of b n ans y q] assms(3) by simp
qed

lemma inv_createJob: "inv_cache w \<Longrightarrow> inv_cache (createJob st w)"
  by (auto simp: createJob_def cache_inv_def split: prod.splits)

lemma inv_fresh_build:
  assumes inv: "inv_cache w"
    and fresh_y: "fresh y (fst (snd w))"
    and fresh: "\<And>i. cache_uuid ans = Inr i \<Longrightarrow> downstreamOperation (fst w) i = None"
  shows "inv_cache (snd (fresh_build lib (stubs_for (build y) jobs) ans actions main w))"
proof -
  obtain c b r where w: "w = (c, b, r)" by (cases w)
  show ?thesis
  proof (cases "\<exists>digest g a. ActionDigest lib main = Inr digest \<and> actions = Some g \<and>
      ag_actions g ''build'' = Some a")
    case False
    then have "snd (fresh_build lib (stubs_for (build y) jobs) ans actions main w) = w"
      using Execute_Some [of lib "cache_execute_order ans"]
      by (cases "ActionDigest lib main"; cases actions)
        (auto simp: fresh_build_def run_then_def deref_def Execute_def split: option.splits)
    with inv show ?thesis by simp
  next
    case True
    then obtain digest g a where d: "ActionDigest lib main = Inr digest" "actions = Some g"
      "ag_actions g ''build'' = Some a" by blast
    let ?cfg = "fst (unpack_build_image_config lib (act_config a))"
    obtain out where ex: "fst (Execute lib (cache_execute_order ans) (Some g)) = Value out"
      using Execute_Some [of lib "cache_execute_order ans" g] by auto
    show ?thesis
    proof (cases "bic_commit_point ?cfg")
      case None
      with inv d ex show ?thesis
        by (simp add: fresh_build_def buildImage_def Let_def)
    next
      case (Some cp)
      obtain resp b' where b': "build y b (requested cp ?cfg) = (resp, b')" by fastforce
      with Some have bi: "buildImage (stubs_for (build y) jobs) ?cfg w = (Value resp, (c, b', r))"
        by (simp add: w buildImage_Value)
      have "inv_cache (c, b, r)" using inv w by simp
      moreover have "fresh y b" using fresh_y w by simp
      ultimately have inv': "inv_cache (c, b', r)" using b' by (rule inv_build_step)
      have "inv_cache (CacheBackend_Put digest i (Some a)
          (c\<lparr>downstreamOperation := (downstreamOperation c)(i \<mapsto> op_name v)\<rparr>), b', r)"
        if "cache_uuid ans = Inr i" and "resp = Inr v" for i v
      proof (rule cache_inv_put [OF inv' _ refl Some])
        show "downstreamOperation c i = None" using fresh that(1) w by auto
        show "serves b' (op_name v) (requested cp ?cfg)"
          using build_serves b' that(2) inv w by (auto simp: cache_inv_simp)
      qed
      with inv' show ?thesis
        by (simp add: fresh_build_def register_build_def d ex bi Let_def split: sum.splits)
    qed
  qed
qed

lemma inv_Get:
  assumes inv: "inv_cache w"
    and fresh_y: "fresh y (fst (snd w))"
    and fresh: "\<And>i. cache_uuid ans = Inr i \<Longrightarrow> downstreamOperation (fst w) i = None"
  shows "inv_cache (snd (cache_Get lib (stubs_for (build y) jobs) ans w req))"
proof -
  let ?w = "createJob (stubs_for (build y) jobs) w"
  have inv': "inv_cache ?w" by (rule inv_createJob [OF inv])
  have "fst ?w = fst w" by (simp add: createJob_def split: prod.splits)
  moreover have "fst (snd ?w) = fst (snd w)" by (simp add: createJob_def split: prod.splits)
  ultimately have fr: "fresh y (fst (snd ?w))"
    "\<And>i. cache_uuid ans = Inr i \<Longrightarrow> downstreamOperation (fst ?w) i = None" using fresh fresh_y by simp_all
  note fb = inv_fresh_build [OF inv' fr]
  show ?thesis
  proof (cases "\<exists>ctx main. gr_context req = Some ctx \<and>
      GetAction (EssentialActions (ctx_actions ctx) (gr_value req)) (gr_value req) = Value (Inr main)")
    case False
    then have "snd (cache_Get lib (stubs_for (build y) jobs) ans w req) = w"
      by (auto simp: cache_Get_def run_then_def deref_def Let_def
          split: option.splits run.splits sum.splits)
    with inv show ?thesis by simp
  next
    case True
    then obtain ctx main where m: "gr_context req = Some ctx"
      "GetAction (EssentialActions (ctx_actions ctx) (gr_value req)) (gr_value req) = Value (Inr main)"
      by blast
    show ?thesis
      using inv' fb m
      by (cases "CacheBackend_Get lib (fst ?w) main")
        (auto simp: cache_Get_def Let_def split: sum.splits)
  qed
qed

lemma inv_poll_downstream:
  assumes laws: "proto_laws lib" and inv: "inv_cache w"
  shows "inv_cache (snd (poll_downstream lib (get_operation x) ans w n))"
proof -
  obtain c b r where w: "w = (c, b, r)" by (cases w)
  show ?thesis
  proof (cases "downstreamOperation c n")
    case None
    with inv w show ?thesis by (simp add: poll_downstream_def)
  next
    case (Some m)
    obtain reply b' where get: "get_operation x b m = (reply, b')" by fastforce
    have invb: "invar b" using inv w by (simp add: cache_inv_simp)
    have inv': "inv_cache (c, b', r)"
    proof (rule cache_inv_mono [OF inv [unfolded w]])
      show "invar b'" using invb invar_get [of b x m] get by simp
      show "serves b k q \<Longrightarrow> serves b' k q" for k q
        using serves_get [of b k q x m] get by simp
      show "built b k a \<Longrightarrow> built b' k a" for k a
        using built_get [of b k a x m] get by simp
    qed
    have "inv_cache (c\<lparr>cb_upstream := (cb_upstream c)(n \<mapsto> v)\<rparr>, b', r)" if "reply = Inr v" for v
    proof (rule cache_inv_upstream [OF inv'])
      show "result_backed lib built c b' n v"
        using Some done_built [OF laws invb] get that by (auto simp: result_backed_def)
    qed
    with inv' show ?thesis
      by (auto simp: poll_downstream_def w Some get Let_def
          split: sum.splits option.splits prod.splits if_splits)
  qed
qed

lemma inv_GetOperation:
  assumes "proto_laws lib" and "inv_cache w"
  shows "inv_cache (snd (cache_GetOperation lib (get_operation x) ans w n))"
  using assms inv_poll_downstream [OF assms, of x ans n]
  by (auto simp: cache_GetOperation_def split: option.splits prod.splits)

lemma respond_Value: "respond L n d resp = Value (Inr v) \<Longrightarrow> op_name v = n \<and> op_done v = d"
  by (auto simp: respond_def reply_operation_def split: sum.splits)

lemma poll_downstream_done:
  assumes inv: "inv_cache w"
    and poll: "poll_downstream lib (get_operation x) ans w n = (Value (Inr v), w')"
  shows "op_done v \<longleftrightarrow>
    (case w of (c, b, r) \<Rightarrow> case downstreamOperation c n of None \<Rightarrow> True | Some m \<Rightarrow> finished b m)"
proof -
  obtain c b r where w: "w = (c, b, r)" by (cases w)
  have invb: "invar b" using inv w by (simp add: cache_inv_simp)
  show ?thesis
  proof (cases "downstreamOperation c n")
    case None
    with poll w show ?thesis by (auto simp: poll_downstream_def)
  next
    case (Some m)
    with poll w obtain op b' where get: "get_operation x b m = (Inr op, b')"
      by (auto simp: poll_downstream_def split: sum.splits prod.splits)
    with poll w Some have "op_done v = op_done op"
      by (auto simp: poll_downstream_def Let_def split: sum.splits prod.splits option.splits if_splits
          dest: respond_Value)
    with get invb done_iff w Some show ?thesis by simp
  qed
qed

lemma poll_downstream_finished:
  assumes inv: "inv_cache w"
    and poll: "poll_downstream lib (get_operation x) ans w n = (Value (Inr v), w')"
    and pending: "\<And>res. cb_upstream (fst w) n = Some res \<Longrightarrow> \<not> op_done res"
  shows "cache_finished finished w' m \<longleftrightarrow> cache_finished finished w m"
proof -
  obtain c b r where w: "w = (c, b, r)" by (cases w)
  have invb: "invar b" using inv w by (simp add: cache_inv_simp)
  show ?thesis
  proof (cases "downstreamOperation c n")
    case None
    with poll w show ?thesis by (auto simp: poll_downstream_def)
  next
    case (Some k)
    with poll w obtain op b' where get: "get_operation x b k = (Inr op, b')"
      by (auto simp: poll_downstream_def split: sum.splits prod.splits)
    with poll w Some have w': "w' = (c\<lparr>cb_upstream := (cb_upstream c)(n \<mapsto> op)\<rparr>, b', r)"
      by (auto simp: poll_downstream_def Let_def split: sum.splits prod.splits option.splits if_splits)
    have fin': "finished b' j = finished b j" for j
      using finished_get [OF invb get] .
    have "op_done op = finished b k" using done_iff [OF invb get] .
    with w' w fin' Some pending show ?thesis
      by (auto simp: cache_finished_def split: option.splits if_splits)
  qed
qed

lemma inv_restart: "inv_cache w \<Longrightarrow> inv_cache (cache_restart w)"
  by (auto simp: cache_restart_def cache_inv_init cache_inv_simp NewCacheBackend_def split: prod.splits)

end

text \<open>The cache serves operations in turn, over any builder that keeps its contract.\<close>

sublocale builder_service \<subseteq> cache: operations_service
  "\<lambda>(x, ans). cache_call_GetOperation lib (get_operation x) ans"
  "cache_finished finished" "\<lambda>w. proto_laws lib \<and> inv_cache w"
proof unfold_locales
  fix w w' :: "('any, 's, 'r) cache_world" and xa :: "'x \<times> cache_answers"
    and n m and v :: "'any operation"
  obtain x ans where xa: "xa = (x, ans)" by (cases xa)
  assume inv: "proto_laws lib \<and> inv_cache w"
  show "proto_laws lib \<and> inv_cache
      (snd ((case xa of (x, ans) \<Rightarrow> cache_call_GetOperation lib (get_operation x) ans) w n))"
    using inv inv_GetOperation [of w x ans n]
    by (auto simp: xa cache_call_GetOperation_def intro!: rpc_state [where P = inv_cache] inv_restart)
  assume "(case xa of (x, ans) \<Rightarrow> cache_call_GetOperation lib (get_operation x) ans) w n = (Inr v, w')"
  then have get: "cache_GetOperation lib (get_operation x) ans w n = (Value (Inr v), w')"
    by (simp add: xa cache_call_GetOperation_def rpc_Inr)
  show "op_done v = cache_finished finished w n"
    using get inv poll_downstream_done [of w x ans n v w']
    by (auto simp: cache_GetOperation_def cache_finished_def split: prod.splits option.splits if_splits)
  show "cache_finished finished w' m = cache_finished finished w m"
    using get inv poll_downstream_finished [of w x ans n v w' m]
    by (auto simp: cache_GetOperation_def split: prod.splits option.splits if_splits)
qed

section \<open>A miss\<close>

lemma cache_Get_miss:
  assumes "gr_context req = Some ctx" and "ctx_actions ctx = Some g"
    and "GetAction (Some g) (gr_value req) = Value (Inr main)" and "ActionDigest L main = Inr d"
    and "gr_skip_caching req \<or> (\<exists>err. CacheBackend_Get L c main = Value (Inl err))"
    and "ag_actions g ''build'' = Some a"
    and "bic_commit_point (fst (unpack_build_image_config L (act_config a))) = Some cp"
    and "stub_build st b (requested cp (fst (unpack_build_image_config L (act_config a)))) = (Inr opn, b')"
    and "pack_get_response L zero_get_response = Inr z" and "cache_uuid ans = Inr ident"
  shows "cache_Get L st ans (c, b, r) req =
    (Value (Inr (reply_operation ident (op_done opn) z)),
     (CacheBackend_Put d ident (Some a)
        (c\<lparr>downstreamOperation := (downstreamOperation c)(ident \<mapsto> op_name opn)\<rparr>),
      b', snd (stub_create_job st r \<lparr>cjr_actions = None\<rparr>)))"
proof -
  let ?r = "snd (stub_create_job st r \<lparr>cjr_actions = None\<rparr>)"
  obtain out where ex: "fst (Execute L (cache_execute_order ans) (Some g)) = Value out"
    using Execute_Some [of L "cache_execute_order ans" g] by auto
  have bi: "buildImage st (fst (unpack_build_image_config L (act_config a))) (c, b, ?r) =
      (Value (Inr opn), (c, b', ?r))"
    using assms(7,8) by (simp add: buildImage_Value)
  have "fresh_build L st ans (Some g) main (c, b, ?r) =
    (Value (Inr (reply_operation ident (op_done opn) z)),
     (CacheBackend_Put d ident (Some a)
        (c\<lparr>downstreamOperation := (downstreamOperation c)(ident \<mapsto> op_name opn)\<rparr>), b', ?r))"
    using assms(4,6,9,10) ex bi by (simp add: fresh_build_def register_build_def Let_def)
  with assms(1-3,5) show ?thesis
    by (auto simp: cache_Get_def EssentialActions_def createJob_def Let_def)
qed

section \<open>Properties\<close>

text \<open>
  \<open>GetAction\<close> finds the action \<open>k\<close> of a graph under the value \<open>name.k\<close> and no other, whatever
  dots \<open>k\<close> has, as long as the graph's own name has none; the bare name stands for the action with
  the empty name.
\<close>

theorem GetAction_finds:
  assumes "CHR ''.'' \<notin> set (ag_name g)"
  shows "GetAction (Some g) v = Value (Inr a) \<longleftrightarrow>
    (\<exists>k. ag_actions g k = Some a \<and> (v = ag_name g @ ''.'' @ k \<or> v = ag_name g \<and> k = []))"
proof -
  obtain w ws where split: "split_on CHR ''.'' v = w # ws"
    by (cases "split_on CHR ''.'' v") auto
  then have v: "v = join_with ''.'' (w # ws)" using join_split_on [of "CHR ''.''" v] by simp
  have get: "GetAction (Some g) v = Value (Inr a) \<longleftrightarrow>
      ag_name g = w \<and> ag_actions g (join_with ''.'' ws) = Some a"
    using split by (auto simp: GetAction_def Let_def split: option.splits)
  show ?thesis
  proof
    assume "GetAction (Some g) v = Value (Inr a)"
    with get v show "\<exists>k. ag_actions g k = Some a \<and> (v = ag_name g @ ''.'' @ k \<or> v = ag_name g \<and> k = [])"
      by (cases ws) (auto simp: join_with_Cons)
  next
    assume "\<exists>k. ag_actions g k = Some a \<and> (v = ag_name g @ ''.'' @ k \<or> v = ag_name g \<and> k = [])"
    then obtain k where k: "ag_actions g k = Some a" "v = ag_name g @ ''.'' @ k \<or> v = ag_name g \<and> k = []"
      by blast
    then have "w = ag_name g \<and> join_with ''.'' ws = k"
      using split assms join_split_on [of "CHR ''.''" k]
      by (auto simp: split_on_append_sep split_on_no_sep)
    with k(1) get show "GetAction (Some g) v = Value (Inr a)" by simp
  qed
qed

theorem GetAction_finds_witness:
  "GetAction (Some (ImageGraph tagged_lib)) ''image.build'' =
     Value (Inr (NewBuildImageAction tagged_lib))"
proof -
  have "CHR ''.'' \<notin> set (ag_name (ImageGraph tagged_lib))" by (simp add: ImageGraph_def)
  from GetAction_finds [OF this, of "''image.build''" "NewBuildImageAction tagged_lib"]
  show ?thesis by (auto simp: ImageGraph_def)
qed

text \<open>
  When the cached entries have actions and the bucket is not an empty slice, which holds in every
  reachable state, the lookup is a search of the bucket for the first entry that unpacks as an image
  build with all the requested targets.
\<close>

theorem lookup_is_find:
  assumes "ActionDigest L action = Inr d" and "cb_data c d \<noteq> Some []"
    and "\<forall>cv \<in> set (slice_at (cb_data c) d). cv_Action cv \<noteq> None"
  shows "CacheBackend_Get L c action = Value
    (case find (answers_request L (fst (unpack_build_image_config L (act_config action))))
            (slice_at (cb_data c) d) of
       None \<Rightarrow> Inl (ErrText ''no cached operation'')
     | Some cv \<Rightarrow> Inr (cv_Operation cv))"
proof (cases "cb_data c d")
  case None
  with assms(1) show ?thesis by (simp add: CacheBackend_Get_def slice_at_def)
next
  case (Some cvs)
  with assms(2,3) have "cvs \<noteq> []" "\<forall>cv \<in> set cvs. cv_Action cv \<noteq> None"
    by (simp_all add: slice_at_def)
  with Some assms(1) show ?thesis
    by (simp add: CacheBackend_Get_def slice_at_def first_compatible_find split: option.splits)
qed

theorem lookup_is_find_witness:
  "\<exists>d. ActionDigest tagged_lib (NewBuildImageAction tagged_lib) = Inr d \<and>
    CacheBackend_Get tagged_lib
      (CacheBackend_Put d ''op'' (Some (NewBuildImageAction tagged_lib)) NewCacheBackend)
      (NewBuildImageAction tagged_lib) = Value (Inr ''op'')"
proof -
  let ?a = "NewBuildImageAction tagged_lib"
  obtain d where d: "ActionDigest tagged_lib ?a = Inr d" using tagged_digests by blast
  have c: "cb_data (CacheBackend_Put d ''op'' (Some ?a) NewCacheBackend) =
      [d \<mapsto> [\<lparr>cv_Action = Some ?a, cv_Operation = ''op''\<rparr>]]"
    by (simp add: CacheBackend_Put_def NewCacheBackend_def)
  have ne: "cb_data (CacheBackend_Put d ''op'' (Some ?a) NewCacheBackend) d \<noteq> Some []"
    unfolding c by simp
  have act: "\<forall>cv \<in> set (slice_at (cb_data (CacheBackend_Put d ''op'' (Some ?a) NewCacheBackend)) d).
      cv_Action cv \<noteq> None"
    unfolding c by simp
  from lookup_is_find [OF d ne act] d show ?thesis
    unfolding c by (auto simp: answers_request_def NewBuildImageAction_def)
qed

text \<open>An entry that was put is found by the requests it covers, unless an older one is.\<close>

lemma put_is_found:
  assumes "ActionDigest L action = Inr d"
    and "\<forall>cv \<in> set (slice_at (cb_data c) d). cv_Action cv \<noteq> None"
    and "unpack_build_image_config L (act_config a) = (old, None)"
    and "Compatible (fst (unpack_build_image_config L (act_config action))) old"
  shows "\<exists>n'. CacheBackend_Get L (CacheBackend_Put d n (Some a) c) action = Value (Inr n') \<and>
    ((\<exists>err. CacheBackend_Get L c action = Value (Inl err)) \<longrightarrow> n' = n)"
proof -
  let ?cfg = "fst (unpack_build_image_config L (act_config action))"
  let ?new = "\<lparr>cv_Action = Some a, cv_Operation = n\<rparr>"
  let ?cvs = "slice_at (cb_data c) d"
  have hit: "answers_request L ?cfg ?new" using assms(3,4) by (simp add: answers_request_def)
  have find: "first_compatible L ?cfg (?cvs @ [?new]) =
      Value (Some (case find (answers_request L ?cfg) ?cvs of None \<Rightarrow> n | Some cv \<Rightarrow> cv_Operation cv))"
  proof -
    have "find (answers_request L ?cfg) (?cvs @ [?new]) =
        (case find (answers_request L ?cfg) ?cvs of None \<Rightarrow> Some ?new | Some cv \<Rightarrow> Some cv)"
      using hit by (simp add: find_append split: option.splits)
    with assms(2) show ?thesis
      by (subst first_compatible_find) (auto split: option.splits)
  qed
  have new: "CacheBackend_Get L (CacheBackend_Put d n (Some a) c) action =
      Value (Inr (case find (answers_request L ?cfg) ?cvs of None \<Rightarrow> n | Some cv \<Rightarrow> cv_Operation cv))"
    using find assms(1) by (simp add: CacheBackend_Get_def CacheBackend_Put_def)
  have "find (answers_request L ?cfg) ?cvs = None" if "CacheBackend_Get L c action = Value (Inl err)" for err
  proof (cases "cb_data c d")
    case (Some cvs)
    then have "first_compatible L ?cfg cvs = Value (map_option cv_Operation (find (answers_request L ?cfg) cvs))"
      using assms(2) by (intro first_compatible_find) (simp add: slice_at_def)
    with that Some assms(1) show ?thesis
      by (simp add: CacheBackend_Get_def slice_at_def split: option.splits if_splits)
  qed (simp add: slice_at_def)
  with new show ?thesis by auto
qed

text \<open>
  C14. Storing an image build makes every later lookup with the same digest and no more targets a hit;
  if it was a miss before, the operation found is the one just stored.
\<close>

theorem put_then_get:
  assumes "ActionDigest L action = Inr d"
    and "\<forall>cv \<in> set (slice_at (cb_data c) d). cv_Action cv \<noteq> None"
    and "unpack_build_image_config L (act_config a) = (old, None)"
    and "Compatible (fst (unpack_build_image_config L (act_config action))) old"
  shows "\<exists>n'. CacheBackend_Get L (CacheBackend_Put d n (Some a) c) action = Value (Inr n') \<and>
    ((\<exists>err. CacheBackend_Get L c action = Value (Inl err)) \<longrightarrow> n' = n)"
  using assms by (rule put_is_found)

theorem put_then_get_witness:
  "\<exists>d n'. ActionDigest tagged_lib (NewBuildImageAction tagged_lib) = Inr d \<and>
    CacheBackend_Get tagged_lib
      (CacheBackend_Put d ''op'' (Some (NewBuildImageAction tagged_lib)) NewCacheBackend)
      (NewBuildImageAction tagged_lib) = Value (Inr n')"
proof -
  let ?a = "NewBuildImageAction tagged_lib"
  obtain d where d: "ActionDigest tagged_lib ?a = Inr d" using tagged_digests by blast
  have "\<exists>n'. CacheBackend_Get tagged_lib (CacheBackend_Put d ''op'' (Some ?a) NewCacheBackend) ?a =
      Value (Inr n') \<and>
    ((\<exists>err. CacheBackend_Get tagged_lib NewCacheBackend ?a = Value (Inl err)) \<longrightarrow> n' = ''op'')"
    by (rule put_then_get [OF d, where old = default_build_image_config])
      (simp_all add: NewCacheBackend_def NewBuildImageAction_def)
  with d show ?thesis by blast
qed

text \<open>
  C15. A miss asks the builder once, for the commit point and targets of the graph's action \<open>build\<close>,
  answers with a new operation that is done exactly if the builder's is, and remembers which of the
  builder's operations stands behind it and under which digest it can be found.
\<close>

theorem miss_starts_build:
  assumes "gr_context req = Some ctx" and "ctx_actions ctx = Some g"
    and "GetAction (Some g) (gr_value req) = Value (Inr main)" and "ActionDigest L main = Inr d"
    and "gr_skip_caching req \<or> (\<exists>err. CacheBackend_Get L c main = Value (Inl err))"
    and "ag_actions g ''build'' = Some a"
    and "bic_commit_point (fst (unpack_build_image_config L (act_config a))) = Some cp"
    and "stub_build st b (requested cp (fst (unpack_build_image_config L (act_config a)))) = (Inr opn, b')"
    and "pack_get_response L zero_get_response = Inr z" and "cache_uuid ans = Inr ident"
  shows "cache_Get L st ans (c, b, r) req =
    (Value (Inr (reply_operation ident (op_done opn) z)),
     (CacheBackend_Put d ident (Some a)
        (c\<lparr>downstreamOperation := (downstreamOperation c)(ident \<mapsto> op_name opn)\<rparr>),
      b', snd (stub_create_job st r \<lparr>cjr_actions = None\<rparr>)))"
  using assms by (rule cache_Get_miss)

definition refusing_stubs :: "(tagged_any, unit, unit) cache_stubs" where
  "refusing_stubs = stubs_for (\<lambda>b q. (Inl ErrUnavailable, b)) (\<lambda>r q. (Inl ErrUnavailable, r))"

definition accepting_stubs :: "(tagged_any, build_request list, unit) cache_stubs" where
  "accepting_stubs = stubs_for
     (\<lambda>b q. (Inr \<lparr>op_name = ''b1'', op_done = False, op_metadata = None, op_result = None\<rparr>, b @ [q]))
     (\<lambda>r q. (Inl ErrUnavailable, r))"

definition plain_answers :: cache_answers where
  "plain_answers = \<lparr>cache_uuid = Inr ''u1'', cache_type_order = [], cache_value_order = [], cache_execute_order = []\<rparr>"

definition context_of :: "tagged_any agraph \<Rightarrow> tagged_any eval_context" where
  "context_of g = \<lparr>ctx_actions = Some g, ctx_substitutions = []\<rparr>"

lemma context_of_actions [simp]: "ctx_actions (context_of g) = Some g"
  by (simp add: context_of_def)

definition request_of :: "tagged_any agraph \<Rightarrow> string \<Rightarrow> tagged_any get_request" where
  "request_of g v =
     \<lparr>gr_evaluation = ''e'', gr_context = Some (context_of g), gr_value = v,
      gr_skip_caching = True\<rparr>"

lemma known_graph_main [simp]:
  "GetAction (Some (ImageGraph L)) ''image.build'' = Value (Inr (NewBuildImageAction L))"
  "GetAction (Some (GenerateGraph L)) ''generate.generate'' = Value (Inr (NewGenerateAction L))"
  by (simp_all add: GetAction_def)

theorem miss_starts_build_witness:
  "\<exists>w'. cache_Get tagged_lib accepting_stubs plain_answers (NewCacheBackend, [], ())
      (request_of (ImageGraph tagged_lib) ''image.build'') =
    (Value (Inr (reply_operation ''u1'' False (AnyGetResponse zero_get_response))), w') \<and>
    map br_branch (fst (snd w')) = [''main'']"
proof -
  let ?cp = "the (bic_commit_point default_build_image_config)"
  obtain d where d: "ActionDigest tagged_lib (NewBuildImageAction tagged_lib) = Inr d" using tagged_digests by blast
  show ?thesis
    by (subst miss_starts_build [where g = "ImageGraph tagged_lib" and main = "NewBuildImageAction tagged_lib"
          and a = "NewBuildImageAction tagged_lib" and d = d and cp = ?cp and ident = "''u1''"
          and ctx = "context_of (ImageGraph tagged_lib)"
          and opn = "\<lparr>op_name = ''b1'', op_done = False, op_metadata = None, op_result = None\<rparr>"
          and z = "AnyGetResponse zero_get_response" and b' = "[requested ?cp default_build_image_config]"])
      (simp_all add: d request_of_def accepting_stubs_def plain_answers_def
        default_build_image_config_def requested_def)
qed

text \<open>
  C36. \<open>Get\<close> builds the action \<open>build\<close> of the graph whatever action was requested. When another
  image build of the graph is requested and is not cached, and \<open>build\<close> has at least its targets, the
  builder is asked for the commit point and targets of \<open>build\<close>, and what comes of it is kept under the
  digest of the requested action: the next lookup of that action, whose branch and commit may be quite
  different, is a hit on it.
\<close>

theorem requested_action_is_replaced:
  assumes "gr_context req = Some ctx" and "ctx_actions ctx = Some g"
    and "GetAction (Some g) (gr_value req) = Value (Inr main)" and "ActionDigest L main = Inr d"
    and "CacheBackend_Get L c main = Value (Inl err)"
    and "ag_actions g ''build'' = Some a"
    and "unpack_build_image_config L (act_config a) = (built, None)" and "bic_commit_point built = Some cp"
    and "stub_build st b (requested cp built) = (Inr opn, b')"
    and "pack_get_response L zero_get_response = Inr z" and "cache_uuid ans = Inr ident"
    and "\<forall>cv \<in> set (slice_at (cb_data c) d). cv_Action cv \<noteq> None"
    and "Compatible (fst (unpack_build_image_config L (act_config main))) built"
  shows "\<exists>c' r'. cache_Get L st ans (c, b, r) req = (Value (Inr (reply_operation ident (op_done opn) z)), (c', b', r')) \<and>
    CacheBackend_Get L c' main = Value (Inr ident) \<and> downstreamOperation c' ident = Some (op_name opn)"
proof -
  let ?c = "c\<lparr>downstreamOperation := (downstreamOperation c)(ident \<mapsto> op_name opn)\<rparr>"
  have "cb_data ?c = cb_data c" by simp
  then have "CacheBackend_Get L ?c main = CacheBackend_Get L c main" unfolding CacheBackend_Get_def by (simp only:)
  with assms(5) have miss: "CacheBackend_Get L ?c main = Value (Inl err)" by simp
  have "\<exists>n'. CacheBackend_Get L (CacheBackend_Put d ident (Some a) ?c) main = Value (Inr n') \<and>
      ((\<exists>err. CacheBackend_Get L ?c main = Value (Inl err)) \<longrightarrow> n' = ident)"
    using assms(12) by (intro put_is_found [OF assms(4) _ assms(7,13)]) simp
  moreover have "cache_Get L st ans (c, b, r) req =
      (Value (Inr (reply_operation ident (op_done opn) z)),
       (CacheBackend_Put d ident (Some a) ?c, b', snd (stub_create_job st r \<lparr>cjr_actions = None\<rparr>)))"
    using assms(5,7-9) by (intro cache_Get_miss [OF assms(1-4) _ assms(6) _ _ assms(10,11), where cp = cp]) simp_all
  ultimately show ?thesis using miss by (auto simp: CacheBackend_Put_def)
qed

text \<open>A graph with a second image build, of another branch.\<close>

definition other_config :: build_image_config where
  "other_config = default_build_image_config
     \<lparr>bic_commit_point := Some ((the (bic_commit_point default_build_image_config))\<lparr>cp_branch := ''dev''\<rparr>)\<rparr>"

definition other_action :: "tagged_any action" where
  "other_action = (NewBuildImageAction tagged_lib)\<lparr>act_config := Some (AnyBuildImageConfig other_config)\<rparr>"

definition two_builds :: "tagged_any agraph" where
  "two_builds = (ImageGraph tagged_lib)
     \<lparr>ag_actions := [''build'' \<mapsto> NewBuildImageAction tagged_lib, ''other'' \<mapsto> other_action]\<rparr>"

lemma default_commit_point: "\<exists>cp. bic_commit_point default_build_image_config = Some cp"
  by (simp add: default_build_image_config_def)

theorem requested_action_is_replaced_witness:
  "\<exists>c' b' r' reply. cache_Get tagged_lib accepting_stubs plain_answers (NewCacheBackend, [], ())
      ((request_of two_builds ''image.other'')\<lparr>gr_skip_caching := False\<rparr>) = (Value (Inr reply), (c', b', r')) \<and>
    CacheBackend_Get tagged_lib c' other_action = Value (Inr ''u1'') \<and>
    map br_branch b' = [''main''] \<and> cp_branch (the (bic_commit_point other_config)) = ''dev''"
proof -
  let ?cp = "the (bic_commit_point default_build_image_config)"
  let ?opn = "\<lparr>op_name = ''b1'', op_done = False, op_metadata = None, op_result = None\<rparr> :: tagged_any operation"
  let ?req = "(request_of two_builds ''image.other'')\<lparr>gr_skip_caching := False\<rparr>"
  have config: "unpack_build_image_config tagged_lib (act_config other_action) = (other_config, None)"
    by (simp add: other_action_def)
  have d: "ActionDigest tagged_lib other_action = Inr (hex_string (sha256 (digest_input tagged_lib other_config)))"
    by (rule ActionDigest_build [OF _ config]) (simp add: other_action_def NewBuildImageAction_def)
  have compatible: "Compatible other_config default_build_image_config"
    by (simp add: Compatible_def other_config_def list_all_iff)
  have main: "GetAction (Some two_builds) (gr_value ?req) = Value (Inr other_action)"
    by (simp add: GetAction_def two_builds_def request_of_def ImageGraph_def)
  have "\<exists>c' r'. cache_Get tagged_lib accepting_stubs plain_answers (NewCacheBackend, [], ()) ?req =
      (Value (Inr (reply_operation ''u1'' (op_done ?opn) (AnyGetResponse zero_get_response))),
       (c', [requested ?cp default_build_image_config], r')) \<and>
    CacheBackend_Get tagged_lib c' other_action = Value (Inr ''u1'') \<and>
    downstreamOperation c' ''u1'' = Some (op_name ?opn)"
    by (rule requested_action_is_replaced [where ctx = "context_of two_builds" and g = two_builds
          and a = "NewBuildImageAction tagged_lib" and err = "ErrText ''no cached operation''"
          and built = default_build_image_config and cp = ?cp, OF _ _ main d])
      (simp_all add: request_of_def CacheBackend_Get_def d NewCacheBackend_def two_builds_def config compatible
        accepting_stubs_def plain_answers_def slice_at_def default_commit_point)
  then show ?thesis
    by (auto simp: requested_def other_config_def default_build_image_config_def)
qed

text \<open>
  C33. A miss for a graph that has no action \<open>build\<close>, such as the built-in graph \<open>generate\<close>, kills the
  cache's process: the client sees the service unavailable and everything cached is forgotten.
\<close>

theorem no_build_action_kills_cache:
  assumes "gr_context req = Some ctx" and "ctx_actions ctx = Some g"
    and "GetAction (Some g) (gr_value req) = Value (Inr main)" and "ActionDigest L main = Inr d"
    and "gr_skip_caching req \<or> (\<exists>err. CacheBackend_Get L c main = Value (Inl err))"
    and "ag_actions g ''build'' = None"
  shows "cache_call_Get L st ans (c, b, r) req =
    (Inl ErrUnavailable, (NewCacheBackend, b, snd (stub_create_job st r \<lparr>cjr_actions = None\<rparr>)))"
proof -
  let ?r = "snd (stub_create_job st r \<lparr>cjr_actions = None\<rparr>)"
  obtain out where ex: "fst (Execute L (cache_execute_order ans) (Some g)) = Value out"
    using Execute_Some [of L "cache_execute_order ans" g] by auto
  have "fresh_build L st ans (Some g) main (c, b, ?r) = (Panicked nil_dereference, (c, b, ?r))"
    using assms(4,6) ex by (simp add: fresh_build_def)
  with assms(1-3,5) show ?thesis
    by (auto simp: cache_call_Get_def cache_Get_def cache_restart_def EssentialActions_def createJob_def Let_def)
qed

theorem no_build_action_kills_cache_witness:
  "cache_call_Get tagged_lib accepting_stubs plain_answers (NewCacheBackend, [], ())
     (request_of (GenerateGraph tagged_lib) ''generate.generate'') =
   (Inl ErrUnavailable, (NewCacheBackend, [], ()))"
proof -
  obtain d where d: "ActionDigest tagged_lib (NewGenerateAction tagged_lib) = Inr d" using tagged_digests by blast
  have "cache_call_Get tagged_lib accepting_stubs plain_answers (NewCacheBackend, [], ())
     (request_of (GenerateGraph tagged_lib) ''generate.generate'') =
    (Inl ErrUnavailable, (NewCacheBackend, [], snd (stub_create_job accepting_stubs () \<lparr>cjr_actions = None\<rparr>)))"
    by (rule no_build_action_kills_cache [where g = "GenerateGraph tagged_lib" and d = d
          and ctx = "context_of (GenerateGraph tagged_lib)"
          and main = "NewGenerateAction tagged_lib"])
      (simp_all add: d request_of_def)
  then show ?thesis by simp
qed

text \<open>
  C32. When the builder's call fails, its error is overwritten and the nil operation read: the cache's
  process dies instead of passing the error on.
\<close>

theorem builder_error_kills_cache:
  assumes "gr_context req = Some ctx" and "ctx_actions ctx = Some g"
    and "GetAction (Some g) (gr_value req) = Value (Inr main)" and "ActionDigest L main = Inr d"
    and "gr_skip_caching req \<or> (\<exists>err. CacheBackend_Get L c main = Value (Inl err))"
    and "ag_actions g ''build'' = Some a"
    and "bic_commit_point (fst (unpack_build_image_config L (act_config a))) = Some cp"
    and "stub_build st b (requested cp (fst (unpack_build_image_config L (act_config a)))) = (Inl err, b')"
    and "pack_get_response L zero_get_response = Inr z" and "cache_uuid ans = Inr ident"
  shows "cache_call_Get L st ans (c, b, r) req =
    (Inl ErrUnavailable, (NewCacheBackend, b', snd (stub_create_job st r \<lparr>cjr_actions = None\<rparr>)))"
proof -
  let ?r = "snd (stub_create_job st r \<lparr>cjr_actions = None\<rparr>)"
  obtain out where ex: "fst (Execute L (cache_execute_order ans) (Some g)) = Value out"
    using Execute_Some [of L "cache_execute_order ans" g] by auto
  have bi: "buildImage st (fst (unpack_build_image_config L (act_config a))) (c, b, ?r) =
      (Value (Inl err), (c, b', ?r))"
    using assms(7,8) by (simp add: buildImage_Value)
  have "fresh_build L st ans (Some g) main (c, b, ?r) = (Panicked nil_dereference, (c, b', ?r))"
    using assms(4,6,9,10) ex bi by (simp add: fresh_build_def register_build_def)
  with assms(1-3,5) show ?thesis
    by (auto simp: cache_call_Get_def cache_Get_def cache_restart_def EssentialActions_def createJob_def Let_def)
qed

theorem builder_error_kills_cache_witness:
  "cache_call_Get tagged_lib refusing_stubs plain_answers (NewCacheBackend, (), ())
     (request_of (ImageGraph tagged_lib) ''image.build'') =
   (Inl ErrUnavailable, (NewCacheBackend, (), ()))"
proof -
  let ?cp = "the (bic_commit_point default_build_image_config)"
  obtain d where d: "ActionDigest tagged_lib (NewBuildImageAction tagged_lib) = Inr d" using tagged_digests by blast
  have "cache_call_Get tagged_lib refusing_stubs plain_answers (NewCacheBackend, (), ())
     (request_of (ImageGraph tagged_lib) ''image.build'') =
    (Inl ErrUnavailable, (NewCacheBackend, (), snd (stub_create_job refusing_stubs () \<lparr>cjr_actions = None\<rparr>)))"
    by (rule builder_error_kills_cache [where g = "ImageGraph tagged_lib" and d = d and cp = ?cp
          and ctx = "context_of (ImageGraph tagged_lib)"
          and main = "NewBuildImageAction tagged_lib" and a = "NewBuildImageAction tagged_lib"])
      (simp_all add: d request_of_def refusing_stubs_def plain_answers_def
        default_build_image_config_def)
  then show ?thesis by simp
qed

text \<open>
  C34. A hit on an operation whose build is not known to be finished is answered as done, with an
  empty response, whatever the state of the build; the builder is not asked.
\<close>

theorem pending_hit_says_done:
  assumes "proto_laws L" and "gr_context req = Some ctx" and "\<not> gr_skip_caching req"
    and "GetAction (ctx_actions ctx) (gr_value req) = Value (Inr main)"
    and "CacheBackend_Get L c main = Value (Inr n)"
    and "case cb_upstream c n of None \<Rightarrow> True | Some res \<Rightarrow> \<not> op_done res"
    and "cache_Get L st ans (c, b, r) req = (Value (Inr v), w')"
  shows "op_name v = n \<and> op_done v \<and> unpack_get_response L (GetResponse v) = (zero_get_response, None) \<and>
    w' = (c, b, snd (stub_create_job st r \<lparr>cjr_actions = None\<rparr>))"
proof -
  have "cached_reply L ans c n = respond L n True zero_get_response"
    using assms(6) by (auto simp: cached_reply_def split: option.splits)
  moreover have "cache_Get L st ans (c, b, r) req =
      (cached_reply L ans c n, (c, b, snd (stub_create_job st r \<lparr>cjr_actions = None\<rparr>)))"
    using assms(2-5) by (simp add: cache_Get_def EssentialActions_def createJob_def Let_def)
  ultimately show ?thesis
    using assms(1,7) by (auto simp: respond_def reply_operation_def GetResponse_def proto_facts split: sum.splits)
qed

theorem pending_hit_says_done_witness:
  "\<exists>c v w'. cache_Get tagged_lib refusing_stubs plain_answers (c, (), ())
      ((request_of (ImageGraph tagged_lib) ''image.build'')\<lparr>gr_skip_caching := False\<rparr>) = (Value (Inr v), w') \<and>
    op_name v = ''op'' \<and> op_done v \<and>
    unpack_get_response tagged_lib (GetResponse v) = (zero_get_response, None)"
proof -
  let ?a = "NewBuildImageAction tagged_lib"
  let ?req = "(request_of (ImageGraph tagged_lib) ''image.build'')\<lparr>gr_skip_caching := False\<rparr>"
  obtain d where d: "ActionDigest tagged_lib ?a = Inr d" using tagged_digests by blast
  let ?c = "CacheBackend_Put d ''op'' (Some ?a) NewCacheBackend"
  have hit: "CacheBackend_Get tagged_lib ?c ?a = Value (Inr ''op'')"
    by (simp add: CacheBackend_Get_def CacheBackend_Put_def NewCacheBackend_def d)
  have up: "cb_upstream ?c = Map.empty" by (simp add: CacheBackend_Put_def NewCacheBackend_def)
  obtain v w' where g: "cache_Get tagged_lib refusing_stubs plain_answers (?c, (), ()) ?req = (Value (Inr v), w')"
    using hit up
    by (auto simp: cache_Get_def request_of_def EssentialActions_def createJob_def
        cached_reply_def respond_def Let_def)
  have "op_name v = ''op'' \<and> op_done v \<and> unpack_get_response tagged_lib (GetResponse v) = (zero_get_response, None) \<and>
    w' = (?c, (), snd (stub_create_job refusing_stubs () \<lparr>cjr_actions = None\<rparr>))"
    by (rule pending_hit_says_done [where ctx = "context_of (ImageGraph tagged_lib)",
          OF tagged_lib_laws _ _ _ hit _ g])
      (simp_all add: request_of_def up)
  with g show ?thesis by blast
qed

end
