(* ===== verification/Grpc_Client.thy ===== *)
theory Grpc_Client
  imports Go_Prelude
begin

text \<open>
  \<open>pkg/grpc/client\<close>: connecting to a service and saying who is calling. The TLS and gRPC libraries,
  the files and the operating system are answers of the environment.
\<close>

section \<open>Addresses\<close>

text \<open>\<open>net.SplitHostPort\<close>: the host may be in brackets, and only then hold colons.\<close>

fun after_first :: "char \<Rightarrow> string \<Rightarrow> (string \<times> string) option" where
  "after_first c [] = None"
| "after_first c (x # xs) =
     (if x = c then Some ([], xs)
      else map_option (\<lambda>(a, b). (x # a, b)) (after_first c xs))"

definition address_error :: "string \<Rightarrow> string \<Rightarrow> go_error" where
  "address_error hostport why = ErrText (''address '' @ hostport @ '': '' @ why)"

definition SplitHostPort :: "string \<Rightarrow> go_error + string \<times> string" where
  "SplitHostPort hostport =
     (if CHR '':'' \<notin> set hostport then Inl (address_error hostport ''missing port in address'')
      else
        (let port = last (split_on CHR '':'' hostport);
             before = take (length hostport - length port - 1) hostport
         in case hostport of
              CHR ''['' # rest \<Rightarrow>
                (case after_first CHR '']'' rest of
                   None \<Rightarrow> Inl (address_error hostport ''missing ']' in address'')
                 | Some (host, tail) \<Rightarrow>
                     (if tail = [] then Inl (address_error hostport ''missing port in address'')
                      else if length tail \<noteq> length port + 1
                      then Inl (address_error hostport
                        (if hd tail = CHR '':'' then ''too many colons in address''
                         else ''missing port in address''))
                      else if CHR ''['' \<in> set rest
                      then Inl (address_error hostport ''unexpected '[' in address'')
                      else if CHR '']'' \<in> set tail
                      then Inl (address_error hostport ''unexpected ']' in address'')
                      else Inr (host, port)))
            | _ \<Rightarrow>
                (if CHR '':'' \<in> set before then Inl (address_error hostport ''too many colons in address'')
                 else if CHR ''['' \<in> set hostport
                 then Inl (address_error hostport ''unexpected '[' in address'')
                 else if CHR '']'' \<in> set hostport
                 then Inl (address_error hostport ''unexpected ']' in address'')
                 else Inr (before, port))))"

section \<open>Connecting\<close>

record tls_config =
  tls_certificate :: string
  tls_server_name :: string
  tls_skip_verify :: bool
  tls_root_cas :: string

record grpc_conn =
  conn_endpoint :: string
  conn_tls :: tls_config

text \<open>The key pair of two files, the content of the CA file, whether it holds a certificate, the dial.\<close>

record dial_answers =
  dial_key_pair :: "string \<Rightarrow> string \<Rightarrow> go_error + string"
  dial_read_file :: "string \<Rightarrow> go_error + string"
  dial_pem_ok :: "string \<Rightarrow> bool"
  dial_result :: "string \<Rightarrow> go_error option"

definition NewConnection ::
    "dial_answers \<Rightarrow> string \<Rightarrow> string \<Rightarrow> string \<Rightarrow> string \<Rightarrow> go_error + grpc_conn" where
  "NewConnection ans endpoint certFile clientCertFile clientKeyFile =
     (case SplitHostPort endpoint of
        Inl err \<Rightarrow> Inl err
      | Inr (host, _) \<Rightarrow>
     (case dial_key_pair ans clientCertFile clientKeyFile of
        Inl err \<Rightarrow> Inl err
      | Inr cert \<Rightarrow>
     (case dial_read_file ans certFile of
        Inl err \<Rightarrow> Inl err
      | Inr ca \<Rightarrow>
     (if \<not> dial_pem_ok ans ca then Inl (ErrText ''invalid CA certificate'')
      else
     (case dial_result ans endpoint of
        Some err \<Rightarrow> Inl err
      | None \<Rightarrow>
          Inr \<lparr>conn_endpoint = endpoint,
            conn_tls = \<lparr>tls_certificate = cert, tls_server_name = host, tls_skip_verify = True,
              tls_root_cas = ca\<rparr>\<rparr>)))))"

text \<open>\<open>filepath.Join\<close> of a clean directory and a file name.\<close>

definition path_in :: "string \<Rightarrow> string \<Rightarrow> string" where
  "path_in dir file = dir @ ''/'' @ file"

definition cert_dir :: string where
  "cert_dir = ''/data/eval/certificates''"

definition Connect :: "dial_answers \<Rightarrow> string \<Rightarrow> (go_error + grpc_conn) run" where
  "Connect ans service =
     (case NewConnection ans service (path_in cert_dir ''ca.crt'') (path_in cert_dir ''tls.crt'')
         (path_in cert_dir ''tls.key'') of
        Inl err \<Rightarrow> Exited ''did not connect''
      | Inr conn \<Rightarrow> Value (Inr conn))"

section \<open>Who is calling\<close>

type_synonym metadata = "string \<rightharpoonup> string list"

text \<open>\<open>metadata.AppendToOutgoingContext\<close> for one pair: the value is added to those the key has.\<close>

definition append_metadata :: "string \<Rightarrow> string \<Rightarrow> metadata \<Rightarrow> metadata" where
  "append_metadata k v md = md(k \<mapsto> (case md k of None \<Rightarrow> [] | Some vs \<Rightarrow> vs) @ [v])"

record requester_answers =
  rq_hostname :: "go_error + string"
  rq_euid :: int
  rq_user :: "go_error + string"

definition WithRequesterInfo :: "requester_answers \<Rightarrow> metadata \<Rightarrow> metadata run" where
  "WithRequesterInfo ans parent =
     (case rq_hostname ans of
        Inl err \<Rightarrow> Exited ''cannot get hostname''
      | Inr hostname \<Rightarrow>
          (if rq_euid ans = 0 then Exited ''cannot execute as root''
           else
             (case rq_user ans of
                Inl err \<Rightarrow> Exited ''cannot get username''
              | Inr user \<Rightarrow>
                  Value (append_metadata ''hostname'' hostname (append_metadata ''user'' user parent)))))"

lemma WithRequesterInfo_Value:
  "WithRequesterInfo ans parent = Value md \<longleftrightarrow>
     (\<exists>h u. rq_hostname ans = Inr h \<and> rq_user ans = Inr u \<and> rq_euid ans \<noteq> 0 \<and>
       md = append_metadata ''hostname'' h (append_metadata ''user'' u parent))"
  by (auto simp: WithRequesterInfo_def split: sum.splits)

lemma requester_known:
  assumes "WithRequesterInfo ans parent = Value md"
  shows "\<exists>u us h hs. md ''user'' = Some (u # us) \<and> md ''hostname'' = Some (h # hs)"
  using assms
  by (auto simp: WithRequesterInfo_Value append_metadata_def neq_Nil_conv split: option.splits)
    (metis append_Cons append_Nil neq_Nil_conv)+

lemma NewConnection_Inr:
  assumes "NewConnection ans endpoint cf ccf ckf = Inr conn"
  shows "conn_endpoint conn = endpoint \<and> (\<exists>port. SplitHostPort endpoint = Inr (tls_server_name (conn_tls conn), port)) \<and>
    dial_key_pair ans ccf ckf = Inr (tls_certificate (conn_tls conn)) \<and>
    dial_read_file ans cf = Inr (tls_root_cas (conn_tls conn))"
  using assms by (auto simp: NewConnection_def split: sum.splits prod.splits if_splits option.splits)

text \<open>A plain \<open>host:port\<close> splits at its colon, and putting the two together again gives it back.\<close>

lemma split_on_one_sep:
  assumes "c \<notin> set h" and "c \<notin> set p"
  shows "split_on c (h @ c # p) = [h, p]"
  using assms by (simp add: split_on_append_sep split_on_no_sep)

lemma SplitHostPort_plain:
  assumes "set h \<inter> {CHR '':'', CHR ''['', CHR '']''} = {}" and "set p \<inter> {CHR '':'', CHR ''['', CHR '']''} = {}"
  shows "SplitHostPort (h @ CHR '':'' # p) = Inr (h, p)"
proof -
  have s: "split_on CHR '':'' (h @ CHR '':'' # p) = [h, p]"
    using assms by (intro split_on_one_sep) auto
  show ?thesis
  proof (cases h)
    case Nil
    with assms s show ?thesis by (auto simp: SplitHostPort_def Let_def)
  next
    case (Cons x xs)
    with assms s show ?thesis by (auto simp: SplitHostPort_def Let_def split: char.splits bool.splits)
  qed
qed

end
