(* ===== verification/Engine.thy ===== *)
theory Engine
  imports Cache_Server Grpc_Client
begin

text \<open>
  \<open>cmd/engine\<close>: the service \<open>evalctl\<close> talks to. \<open>Eval\<close> asks the cache for every requested value,
  records the operations it got in the database, and answers at once when all of them were done;
  \<open>GetOperation\<close> reads the operations of an evaluation back from the database and polls the cache
  for each. The database is outside the repository: the rows the engine asks it to create are in the
  trace \<open>engine_trace\<close>, and the rows a query gives are an argument.
\<close>

section \<open>State\<close>

record OperationRow =
  or_EvaluationID :: string
  or_DependentID :: string
  or_Value :: string

record EvaluationRow =
  ev_ID :: string
  ev_User :: string
  ev_Hostname :: string

datatype engine_effect =
    CreateOperation OperationRow
  | CreateEvaluation EvaluationRow

record engine_state =
  engine_trace :: "engine_effect list"

definition engine_init :: engine_state where
  "engine_init = \<lparr>engine_trace = []\<rparr>"

definition engine_log :: "engine_effect \<Rightarrow> engine_state \<Rightarrow> engine_state" where
  "engine_log x e = e\<lparr>engine_trace := engine_trace e @ [x]\<rparr>"

lemma engine_log_trace [simp]: "engine_trace (engine_log x e) = engine_trace e @ [x]"
  by (simp add: engine_log_def)

text \<open>The engine keeps nothing in memory, so a new process finds the same database.\<close>

definition engine_restart :: "engine_state \<times> 'c \<Rightarrow> engine_state \<times> 'c" where
  "engine_restart w = w"

section \<open>Recording an evaluation\<close>

text \<open>
  What the environment answers during one \<open>Eval\<close>: the new UUID, the metadata of the incoming call
  (none when there is no metadata), the order of the loop over the operations, and the error and the
  number of rows of the last insertion. The errors of the other insertions are not looked at.
\<close>

record engine_answers =
  eng_uuid :: "go_error + string"
  eng_metadata :: "(string \<rightharpoonup> string list) option"
  eng_order :: "string list"
  eng_create_error :: "go_error option"
  eng_create_rows :: int

text \<open>\<open>md[key][0]\<close>: a missing key gives the nil slice, which has no element.\<close>

definition md_first :: "(string \<rightharpoonup> string list) \<Rightarrow> string \<Rightarrow> string run" where
  "md_first md key =
     (case md key of
        Some (v # vs) \<Rightarrow> Value v
      | _ \<Rightarrow> Panicked index_out_of_range)"

text \<open>
  One row per operation, its name parsed as a UUID; \<open>uuid.Must\<close> panics on one that is not. The
  parser of the UUID package is the argument \<open>parse\<close>; it gives the identifier's canonical text.
\<close>

fun create_operations ::
    "(string \<Rightarrow> go_error + string) \<Rightarrow> string \<Rightarrow> (string \<times> 'any operation) list \<Rightarrow> engine_state \<Rightarrow>
     unit run \<times> engine_state" where
  "create_operations parse ident [] e = (Value (), e)"
| "create_operations parse ident ((valueName, opn) # rest) e =
     (case parse (op_name opn) of
        Inl err \<Rightarrow> (Panicked (error_text err), e)
      | Inr dependent \<Rightarrow>
          create_operations parse ident rest
            (engine_log (CreateOperation
               \<lparr>or_EvaluationID = ident, or_DependentID = dependent, or_Value = valueName\<rparr>) e))"

definition newEvaluation ::
    "(string \<Rightarrow> go_error + string) \<Rightarrow> engine_answers \<Rightarrow> string \<Rightarrow> (string \<rightharpoonup> 'any operation) \<Rightarrow>
     engine_state \<Rightarrow> go_error option run \<times> engine_state" where
  "newEvaluation parse ans ident operations e =
     run_then
       (case eng_metadata ans of
          None \<Rightarrow> (Value (''unknown'', ''unknown''), e)
        | Some md \<Rightarrow>
            run_then (md_first md ''user'', e) (\<lambda>user e.
            run_then (md_first md ''hostname'', e) (\<lambda>hostname e. (Value (user, hostname), e))))
       (\<lambda>(user, hostname) e.
         run_then (create_operations parse ident (range_entries operations (eng_order ans)) e) (\<lambda>_ e.
           let e = engine_log (CreateEvaluation
                     \<lparr>ev_ID = ident, ev_User = user, ev_Hostname = hostname\<rparr>) e
           in if eng_create_error ans \<noteq> None \<and> eng_create_rows ans \<noteq> 1
              then (Value (eng_create_error ans), e)
              else (Value None, e)))"

section \<open>Eval\<close>

text \<open>
  The loop over the requested values. \<open>cacheGet i\<close> is the cache's stub with what the environment
  answers during the \<open>i\<close>-th call. The loop keeps whether all were done so far and the operations by
  value; every operation must hold a response that unpacks, done or not.
\<close>

fun eval_values ::
    "'any proto_lib \<Rightarrow> (nat \<Rightarrow> 'c \<Rightarrow> 'any get_request \<Rightarrow> (go_error + 'any operation) \<times> 'c) \<Rightarrow>
     string \<Rightarrow> 'any eval_request \<Rightarrow> nat \<Rightarrow> string list \<Rightarrow> bool \<Rightarrow> (string \<rightharpoonup> 'any operation) \<Rightarrow> 'c \<Rightarrow>
     (go_error + bool \<times> (string \<rightharpoonup> 'any operation)) run \<times> 'c" where
  "eval_values L cacheGet ident req i [] done operations c = (Value (Inr (done, operations)), c)"
| "eval_values L cacheGet ident req i (value # values) done operations c =
     (case cacheGet i c
             \<lparr>gr_evaluation = ident, gr_context = er_context req, gr_value = value,
              gr_skip_caching = er_skip_caching req\<rparr> of
        (Inl err, c1) \<Rightarrow> (Value (Inl err), c1)
      | (Inr operation, c1) \<Rightarrow>
          (if op_done operation \<and> GetResponse operation \<noteq> None \<and>
              snd (unpack_get_response L (GetResponse operation)) \<noteq> None
           then (Exited (''1 Cannot unmarhshal result for '' @ value), c1)
           else if snd (unpack_get_response L (GetResponse operation)) \<noteq> None
           then (Exited (''2 Cannot unmarhshal result for '' @ value), c1)
           else eval_values L cacheGet ident req (Suc i) values (done \<and> op_done operation)
                  (operations(value \<mapsto> operation)) c1))"

fun collect_values ::
    "'any proto_lib \<Rightarrow> (string \<rightharpoonup> 'any operation) \<Rightarrow> string list \<Rightarrow>
     (string \<rightharpoonup> typed_value option) \<Rightarrow> (string \<rightharpoonup> typed_value option) run" where
  "collect_values L operations [] results = Value results"
| "collect_values L operations (value # values) results =
     (case operations value of
        None \<Rightarrow> collect_values L operations values results
      | Some operation \<Rightarrow>
          (case unpack_get_response L (GetResponse operation) of
             (response, Some err) \<Rightarrow> Exited (''3 Cannot unmarhshal result for '' @ value)
           | (response, None) \<Rightarrow>
               collect_values L operations values (results(value \<mapsto> gresp_value response))))"

text \<open>The answer to the client: the values packed into an operation; failing to pack panics.\<close>

definition eval_reply ::
    "'any proto_lib \<Rightarrow> string \<Rightarrow> bool \<Rightarrow> (string \<rightharpoonup> typed_value option) \<Rightarrow>
     (go_error + 'any operation) run" where
  "eval_reply L name done results =
     (case pack_eval_response L \<lparr>eresp_values = results\<rparr> of
        Inl err \<Rightarrow> Panicked (error_text err)
      | Inr response \<Rightarrow> Value (Inr (reply_operation name done response)))"

definition Eval ::
    "'any proto_lib \<Rightarrow> (string \<Rightarrow> go_error + string) \<Rightarrow>
     (nat \<Rightarrow> 'c \<Rightarrow> 'any get_request \<Rightarrow> (go_error + 'any operation) \<times> 'c) \<Rightarrow> engine_answers \<Rightarrow>
     engine_state \<times> 'c \<Rightarrow> 'any eval_request \<Rightarrow>
     (go_error + 'any operation) run \<times> (engine_state \<times> 'c)" where
  "Eval L parse cacheGet ans w req =
     (case w of (e, c) \<Rightarrow>
       (case eng_uuid ans of
          Inl err \<Rightarrow> (Value (Inl err), (e, c))
        | Inr ident \<Rightarrow>
            (case eval_values L cacheGet ident req 0 (er_values req) True Map.empty c of
               (Panicked p, c1) \<Rightarrow> (Panicked p, (e, c1))
             | (Exited m, c1) \<Rightarrow> (Exited m, (e, c1))
             | (Value (Inl err), c1) \<Rightarrow> (Value (Inl err), (e, c1))
             | (Value (Inr (done, operations)), c1) \<Rightarrow>
                 (case newEvaluation parse ans ident operations e of
                    (Panicked p, e1) \<Rightarrow> (Panicked p, (e1, c1))
                  | (Exited m, e1) \<Rightarrow> (Exited m, (e1, c1))
                  | (Value (Some err), e1) \<Rightarrow> (Value (Inl err), (e1, c1))
                  | (Value None, e1) \<Rightarrow>
                      run_then
                        (if done then collect_values L operations (er_values req) Map.empty
                         else Value Map.empty, (e1, c1))
                        (\<lambda>results w. (eval_reply L ident done results, w))))))"

section \<open>GetOperation\<close>

text \<open>
  The loop over the rows of the evaluation. \<open>cacheOp i\<close> is the cache's stub during the \<open>i\<close>-th call.
  The error of a call is logged only after the reply was read, and a failed call has a nil reply.
\<close>

fun poll_rows ::
    "'any proto_lib \<Rightarrow> (nat \<Rightarrow> 'c \<Rightarrow> string \<Rightarrow> (go_error + 'any operation) \<times> 'c) \<Rightarrow> nat \<Rightarrow>
     OperationRow list \<Rightarrow> bool \<Rightarrow> (string \<rightharpoonup> typed_value option) \<Rightarrow> 'c \<Rightarrow>
     (bool \<times> (string \<rightharpoonup> typed_value option)) run \<times> 'c" where
  "poll_rows L cacheOp i [] done results c = (Value (done, results), c)"
| "poll_rows L cacheOp i (row # rows) done results c =
     (case cacheOp i c (or_DependentID row) of
        (Inl err, c1) \<Rightarrow> (Panicked nil_dereference, c1)
      | (Inr operation, c1) \<Rightarrow>
          (if op_done operation then
             (case unpack_get_response L (GetResponse operation) of
                (response, Some err) \<Rightarrow> (Exited ''Cannot unmarhshal result'', c1)
              | (response, None) \<Rightarrow>
                  poll_rows L cacheOp (Suc i) rows (done \<and> op_done operation)
                    (results(or_Value row \<mapsto> gresp_value response)) c1)
           else poll_rows L cacheOp (Suc i) rows (done \<and> op_done operation) results c1))"

text \<open>
  \<open>load\<close> is the answer of the query for the evaluation named in the request: its operations, none
  when the query found no evaluation or failed (its error is not looked at).
\<close>

definition engine_GetOperation ::
    "'any proto_lib \<Rightarrow> (engine_effect list \<Rightarrow> string \<Rightarrow> OperationRow list) \<Rightarrow>
     (nat \<Rightarrow> 'c \<Rightarrow> string \<Rightarrow> (go_error + 'any operation) \<times> 'c) \<Rightarrow> engine_state \<times> 'c \<Rightarrow> string \<Rightarrow>
     (go_error + 'any operation) run \<times> (engine_state \<times> 'c)" where
  "engine_GetOperation L load cacheOp w name =
     (case w of (e, c) \<Rightarrow>
       (case poll_rows L cacheOp 0 (load (engine_trace e) name) True Map.empty c of
          (Panicked p, c1) \<Rightarrow> (Panicked p, (e, c1))
        | (Exited m, c1) \<Rightarrow> (Exited m, (e, c1))
        | (Value (done, results), c1) \<Rightarrow> (eval_reply L name done results, (e, c1))))"

definition engine_call_GetOperation ::
    "'any proto_lib \<Rightarrow> (engine_effect list \<Rightarrow> string \<Rightarrow> OperationRow list) \<Rightarrow>
     (nat \<Rightarrow> 'c \<Rightarrow> string \<Rightarrow> (go_error + 'any operation) \<times> 'c) \<Rightarrow> engine_state \<times> 'c \<Rightarrow> string \<Rightarrow>
     (go_error + 'any operation) \<times> (engine_state \<times> 'c)" where
  "engine_call_GetOperation L load cacheOp w name =
     rpc engine_restart (engine_GetOperation L load cacheOp w name)"

definition engine_call_Eval ::
    "'any proto_lib \<Rightarrow> (string \<Rightarrow> go_error + string) \<Rightarrow>
     (nat \<Rightarrow> 'c \<Rightarrow> 'any get_request \<Rightarrow> (go_error + 'any operation) \<times> 'c) \<Rightarrow> engine_answers \<Rightarrow>
     engine_state \<times> 'c \<Rightarrow> 'any eval_request \<Rightarrow>
     (go_error + 'any operation) \<times> (engine_state \<times> 'c)" where
  "engine_call_Eval L parse cacheGet ans w req =
     rpc engine_restart (Eval L parse cacheGet ans w req)"


section \<open>get\<close>

text \<open>
  The first client of the cache, which nothing calls any more. Its request has no context, which the
  cache reads through, so all it can still do is end both processes.
\<close>

definition engine_get ::
    "'any proto_lib \<Rightarrow> dial_answers \<Rightarrow>
     ('w \<Rightarrow> 'any get_request \<Rightarrow> (go_error + 'any operation) \<times> 'w) \<Rightarrow> string \<Rightarrow> 'w \<Rightarrow> get_response run \<times> 'w" where
  "engine_get L dial cacheGet evalID w =
     run_then (Connect dial ''eval-cache.eval.svc.cluster.local:50051'', w) (\<lambda>conn w.
       case cacheGet w \<lparr>gr_evaluation = evalID, gr_context = None, gr_value = [], gr_skip_caching = False\<rparr> of
         (Inl err, w1) \<Rightarrow> (Exited ''Error when calling Get'', w1)
       | (Inr operation, w1) \<Rightarrow>
           (case unpack_get_response L (GetResponse operation) of
              (response, Some err) \<Rightarrow> (Exited ''Cannot unmarhshal result'', w1)
            | (response, None) \<Rightarrow> (Value response, w1)))"

lemma engine_get_fails:
  "\<exists>m w'. engine_get L dial (cache_call_Get L stubs ans) evalID w = (Exited m, w') \<and>
     (w' = w \<or> w' = cache_restart w)"
  by (cases "NewConnection dial ''eval-cache.eval.svc.cluster.local:50051'' (path_in cert_dir ''ca.crt'')
      (path_in cert_dir ''tls.crt'') (path_in cert_dir ''tls.key'')")
    (simp_all add: engine_get_def Connect_def cache_call_Get_def cache_Get_def rpc_def deref_def run_then_def)

section \<open>What the loops do\<close>

text \<open>
  A loop that ends normally has asked for every value; all of them hold a response that unpacks,
  and when it says done, every one of them was done.
\<close>

lemma eval_values_Inr:
  assumes "eval_values L get ident req i vs d ops c = (Value (Inr (d', ops')), c')"
    and "d \<longrightarrow> (\<forall>v opn. ops v = Some opn \<longrightarrow> op_done opn)"
  shows "dom ops' = dom ops \<union> set vs"
    and "d' \<longrightarrow> d \<and> (\<forall>v opn. ops' v = Some opn \<longrightarrow> op_done opn)"
    and "\<forall>v opn. ops' v = Some opn \<longrightarrow>
           ops v = Some opn \<or> snd (unpack_get_response L (GetResponse opn)) = None"
  using assms
proof (induction vs arbitrary: i d ops c)
  case Nil
  { case 1 then show ?case by simp next
    case 2 then show ?case by simp next
    case 3 then show ?case by simp }
next
  case (Cons v vs)
  have step: "\<exists>opn c1. eval_values L get ident req (Suc i) vs (d \<and> op_done opn) (ops(v \<mapsto> opn)) c1 =
      (Value (Inr (d', ops')), c') \<and> snd (unpack_get_response L (GetResponse opn)) = None"
    if "eval_values L get ident req i (v # vs) d ops c = (Value (Inr (d', ops')), c')"
    for i d ops c
    using that by (auto split: prod.splits sum.splits if_splits)
  { case 1
    from step [OF 1(1)] obtain opn c1 where
      e: "eval_values L get ident req (Suc i) vs (d \<and> op_done opn) (ops(v \<mapsto> opn)) c1 =
        (Value (Inr (d', ops')), c')" by blast
    have "d \<and> op_done opn \<longrightarrow> (\<forall>w x. (ops(v \<mapsto> opn)) w = Some x \<longrightarrow> op_done x)"
      using 1(2) by auto
    from Cons.IH(1) [OF e this] show ?case by (simp del: fun_upd_apply)
  next
    case 2
    from step [OF 2(1)] obtain opn c1 where
      e: "eval_values L get ident req (Suc i) vs (d \<and> op_done opn) (ops(v \<mapsto> opn)) c1 =
        (Value (Inr (d', ops')), c')" by blast
    have "d \<and> op_done opn \<longrightarrow> (\<forall>w x. (ops(v \<mapsto> opn)) w = Some x \<longrightarrow> op_done x)"
      using 2(2) by auto
    from Cons.IH(2) [OF e this] show ?case by blast
  next
    case 3
    from step [OF 3(1)] obtain opn c1 where
      e: "eval_values L get ident req (Suc i) vs (d \<and> op_done opn) (ops(v \<mapsto> opn)) c1 =
        (Value (Inr (d', ops')), c')" "snd (unpack_get_response L (GetResponse opn)) = None" by blast
    have "d \<and> op_done opn \<longrightarrow> (\<forall>w x. (ops(v \<mapsto> opn)) w = Some x \<longrightarrow> op_done x)"
      using 3(2) by auto
    from Cons.IH(3) [OF e(1) this] e(2) show ?case by (metis fun_upd_apply option.inject) }
qed

lemma collect_values_total:
  assumes "\<forall>v opn. ops v = Some opn \<longrightarrow> snd (unpack_get_response L (GetResponse opn)) = None"
  shows "collect_values L ops vs results = Value (\<lambda>v. if v \<in> set vs \<and> ops v \<noteq> None
     then Some (gresp_value (fst (unpack_get_response L (GetResponse (the (ops v))))))
     else results v)"
  using assms
proof (induction vs arbitrary: results)
  case (Cons v vs)
  show ?case
  proof (cases "ops v")
    case None
    with Cons show ?thesis by (auto intro!: ext)
  next
    case (Some opn)
    then obtain response where "unpack_get_response L (GetResponse opn) = (response, None)"
      using Cons.prems by (metis prod.collapse)
    with Some Cons show ?thesis by (auto intro!: ext)
  qed
qed simp

text \<open>The rows of an evaluation, as the loop asks for them.\<close>

definition rows_for ::
    "(string \<Rightarrow> go_error + string) \<Rightarrow> string \<Rightarrow> (string \<times> 'any operation) list \<Rightarrow> OperationRow list" where
  "rows_for parse ident kvs =
     map (\<lambda>(v, opn). \<lparr>or_EvaluationID = ident, or_DependentID = projr (parse (op_name opn)), or_Value = v\<rparr>)
       kvs"

lemma create_operations_Value:
  assumes "create_operations parse ident kvs e = (Value u, e')"
  shows "engine_trace e' = engine_trace e @ map CreateOperation (rows_for parse ident kvs)"
    and "\<forall>(v, opn) \<in> set kvs. \<not> isl (parse (op_name opn))"
  using assms by (induction parse ident kvs e rule: create_operations.induct)
    (auto simp: rows_for_def split: sum.splits)

lemma create_operations_ok:
  assumes "\<forall>(v, opn) \<in> set kvs. \<not> isl (parse (op_name opn))"
  shows "create_operations parse ident kvs e =
     (Value (), \<lparr>engine_trace = engine_trace e @ map CreateOperation (rows_for parse ident kvs)\<rparr>)"
  using assms by (induction parse ident kvs e rule: create_operations.induct)
    (auto simp: rows_for_def engine_log_def split: sum.splits)

text \<open>
  An evaluation that succeeds: who asked for it is known or the call had no metadata, and the rows
  of its operations and of the evaluation are in the database.
\<close>

lemma newEvaluation_None:
  assumes "newEvaluation parse ans ident ops e = (Value None, e')"
  shows "\<exists>user host. engine_trace e' = engine_trace e @
      map CreateOperation (rows_for parse ident (range_entries ops (eng_order ans))) @
      [CreateEvaluation \<lparr>ev_ID = ident, ev_User = user, ev_Hostname = host\<rparr>]"
proof -
  from assms obtain user host e1 where
      c: "create_operations parse ident (range_entries ops (eng_order ans)) e = (Value (), e1)"
    and e': "e' = engine_log (CreateEvaluation \<lparr>ev_ID = ident, ev_User = user, ev_Hostname = host\<rparr>) e1"
    by (auto simp: newEvaluation_def run_then_Value Let_def split: option.splits if_splits)
  from create_operations_Value(1) [OF c] e' show ?thesis by auto
qed

text \<open>Everything a successful \<open>Eval\<close> went through.\<close>

lemma Eval_Inr:
  assumes "Eval L parse get ans (e, c) req = (Value (Inr r), (e', c'))"
  obtains ident d ops results where
    "eng_uuid ans = Inr ident"
    "eval_values L get ident req 0 (er_values req) True Map.empty c = (Value (Inr (d, ops)), c')"
    "newEvaluation parse ans ident ops e = (Value None, e')"
    "(if d then collect_values L ops (er_values req) Map.empty else Value Map.empty) = Value results"
    "eval_reply L ident d results = Value (Inr r)"
  using assms
  by (auto simp: Eval_def run_then_Value split: sum.splits run.splits prod.splits option.splits)

lemma eval_reply_Inr:
  "eval_reply L n d results = Value (Inr r) \<longleftrightarrow>
     (\<exists>a. pack_eval_response L \<lparr>eresp_values = results\<rparr> = Inr a \<and> r = reply_operation n d a)"
  by (auto simp: eval_reply_def split: sum.splits)

lemma reply_operation_simps [simp]:
  "op_name (reply_operation n d a) = n"
  "op_done (reply_operation n d a) = d"
  "GetResponse (reply_operation n d a) = Some a"
  by (simp_all add: reply_operation_def GetResponse_def)

section \<open>The database\<close>

text \<open>
  What the code relies on: the query for an evaluation gives the operations inserted for it, in
  some order, when the evaluation itself was inserted, and nothing otherwise.
\<close>

definition rows_of :: "engine_effect list \<Rightarrow> string \<Rightarrow> OperationRow list" where
  "rows_of t n =
     concat (map (\<lambda>x. case x of
         CreateOperation row \<Rightarrow> (if or_EvaluationID row = n then [row] else [])
       | CreateEvaluation ev \<Rightarrow> []) t)"

definition evaluations_of :: "engine_effect list \<Rightarrow> string list" where
  "evaluations_of t =
     concat (map (\<lambda>x. case x of CreateOperation row \<Rightarrow> [] | CreateEvaluation ev \<Rightarrow> [ev_ID ev]) t)"

definition db_rows :: "engine_effect list \<Rightarrow> string \<Rightarrow> OperationRow list" where
  "db_rows t n = (if n \<in> set (evaluations_of t) then rows_of t n else [])"

definition db_law :: "(engine_effect list \<Rightarrow> string \<Rightarrow> OperationRow list) \<Rightarrow> bool" where
  "db_law load \<longleftrightarrow> (\<forall>t n. mset (load t n) = mset (db_rows t n))"

lemma db_law_db_rows [simp]: "db_law db_rows"
  by (simp add: db_law_def)

lemma db_law_set: "db_law load \<Longrightarrow> set (load t n) = set (db_rows t n)"
  unfolding db_law_def using mset_eq_setD by blast

lemma rows_of_append [simp]: "rows_of (t @ u) n = rows_of t n @ rows_of u n"
  by (simp add: rows_of_def)

lemma evaluations_of_append [simp]: "evaluations_of (t @ u) = evaluations_of t @ evaluations_of u"
  by (simp add: evaluations_of_def)

lemma rows_of_created:
  "rows_of (map CreateOperation (rows_for parse ident kvs)) n =
     (if n = ident then rows_for parse ident kvs else [])"
  by (induction kvs) (auto simp: rows_of_def rows_for_def)

lemma evaluations_of_created [simp]: "evaluations_of (map CreateOperation rows) = []"
  by (induction rows) (auto simp: evaluations_of_def)

lemma rows_of_CreateEvaluation [simp]: "rows_of [CreateEvaluation ev] n = []"
  by (simp add: rows_of_def)

lemma evaluations_of_CreateEvaluation [simp]: "evaluations_of [CreateEvaluation ev] = [ev_ID ev]"
  by (simp add: evaluations_of_def)

text \<open>After a successful \<open>Eval\<close> under a fresh identifier the query gives exactly its rows.\<close>

lemma db_rows_after_newEvaluation:
  assumes "newEvaluation parse ans ident ops e = (Value None, e')"
    and "rows_of (engine_trace e) ident = []"
  shows "db_rows (engine_trace e') ident = rows_for parse ident (range_entries ops (eng_order ans))"
  using newEvaluation_None [OF assms(1)] assms(2)
  by (auto simp: db_rows_def rows_of_created)

text \<open>An evaluation recorded earlier keeps its rows.\<close>

lemma db_rows_other:
  assumes "newEvaluation parse ans ident ops e = (Value None, e')" and "n \<noteq> ident"
  shows "db_rows (engine_trace e') n = db_rows (engine_trace e) n"
  using newEvaluation_None [OF assms(1)] assms(2)
  by (auto simp: db_rows_def rows_of_created)


section \<open>The engine serves operations in turn\<close>

text \<open>
  What the engine relies on: an operations service behind it, a database and the protobuf runtime.
  An evaluation is finished when the service has a final answer for each of its rows.
\<close>

definition engine_finished ::
    "(engine_effect list \<Rightarrow> string \<Rightarrow> OperationRow list) \<Rightarrow> ('c \<Rightarrow> string \<Rightarrow> bool) \<Rightarrow>
     engine_state \<times> 'c \<Rightarrow> string \<Rightarrow> bool" where
  "engine_finished load finished w n \<longleftrightarrow>
     (case w of (e, c) \<Rightarrow> \<forall>row \<in> set (load (engine_trace e) n). finished c (or_DependentID row))"

locale engine_backend = operations_service get_operation finished invar
  for get_operation :: "'x \<Rightarrow> 'c \<Rightarrow> string \<Rightarrow> (go_error + 'any operation) \<times> 'c"
    and finished :: "'c \<Rightarrow> string \<Rightarrow> bool"
    and invar :: "'c \<Rightarrow> bool" +
  fixes lib :: "'any proto_lib"
    and load :: "engine_effect list \<Rightarrow> string \<Rightarrow> OperationRow list"
begin

lemma poll_rows_invar:
  "invar c \<Longrightarrow> invar (snd (poll_rows lib (\<lambda>i. get_operation (xs i)) i rows d res c))"
proof (induction rows arbitrary: i d res c)
  case (Cons row rows)
  obtain r c1 where get: "get_operation (xs i) c (or_DependentID row) = (r, c1)" by fastforce
  then have "invar c1" using invar_get [of c "xs i" "or_DependentID row"] Cons.prems by simp
  with get Cons.IH [of c1] show ?case by (auto split: sum.splits prod.splits option.splits)
qed simp

text \<open>A loop over the rows that ends normally observes which of them were finished, and only that.\<close>

lemma poll_rows_Value:
  assumes "invar c"
    and "poll_rows lib (\<lambda>i. get_operation (xs i)) i rows d res c = (Value (d', res'), c')"
  shows "(d' \<longleftrightarrow> d \<and> (\<forall>row \<in> set rows. finished c (or_DependentID row))) \<and>
    (\<forall>m. finished c' m \<longleftrightarrow> finished c m) \<and>
    dom res' = dom res \<union> or_Value ` {row \<in> set rows. finished c (or_DependentID row)}"
  using assms
proof (induction rows arbitrary: i d res c)
  case Nil
  then show ?case by simp
next
  case (Cons row rows)
  from Cons.prems(2) obtain opn c1 where
      get: "get_operation (xs i) c (or_DependentID row) = (Inr opn, c1)"
    by (auto split: prod.splits sum.splits)
  have inv1: "invar c1" using invar_get [of c "xs i" "or_DependentID row"] get Cons.prems by simp
  have same: "finished c1 m = finished c m" for m
    using finished_get [OF Cons.prems(1) get] .
  have done_eq: "op_done opn = finished c (or_DependentID row)"
    using done_iff [OF Cons.prems(1) get] .
  from Cons.prems(2) get obtain res1 where
      rest: "poll_rows lib (\<lambda>i. get_operation (xs i)) (Suc i) rows (d \<and> op_done opn) res1 c1 =
        (Value (d', res'), c')"
    and res1: "dom res1 = dom res \<union> (if op_done opn then {or_Value row} else {})"
    by (cases "op_done opn") (auto split: prod.splits option.splits)
  from Cons.IH [OF inv1 rest] show ?case
    unfolding same res1 done_eq by auto
qed

lemma GetOperation_Value:
  assumes "invar c"
    and "engine_GetOperation lib load (\<lambda>i. get_operation (xs i)) (e, c) n = (Value (Inr r), w')"
  obtains c' res where "w' = (e, c')" and "\<forall>m. finished c' m \<longleftrightarrow> finished c m"
    and "eval_reply lib n (engine_finished load finished (e, c) n) res = Value (Inr r)"
    and "dom res = or_Value `
      {row \<in> set (load (engine_trace e) n). finished c (or_DependentID row)}"
proof -
  from assms(2) obtain d res c' where
      p: "poll_rows lib (\<lambda>i. get_operation (xs i)) 0 (load (engine_trace e) n) True Map.empty c =
        (Value (d, res), c')"
    and w': "w' = (e, c')" and r: "eval_reply lib n d res = Value (Inr r)"
    by (auto simp: engine_GetOperation_def split: prod.splits run.splits)
  from poll_rows_Value [OF assms(1) p] r w' show ?thesis
    by (intro that [of c' res]) (auto simp: engine_finished_def)
qed

end

sublocale engine_backend \<subseteq> engine: operations_service
  "\<lambda>xs. engine_call_GetOperation lib load (\<lambda>i. get_operation (xs i))"
  "engine_finished load finished" "\<lambda>w. invar (snd w)"
proof unfold_locales
  fix w w' :: "engine_state \<times> 'c" and xs :: "nat \<Rightarrow> 'x" and n m and r :: "'any operation"
  obtain e c where w: "w = (e, c)" by (cases w)
  assume inv: "invar (snd w)"
  then have inv_c: "invar c" using w by simp
  show "invar (snd (snd (engine_call_GetOperation lib load (\<lambda>i. get_operation (xs i)) w n)))"
    using poll_rows_invar [OF inv_c, of xs 0 "load (engine_trace e) n" True Map.empty]
    unfolding engine_call_GetOperation_def
    by (intro rpc_state [where P = "\<lambda>w. invar (snd w)"])
      (auto simp: w engine_GetOperation_def engine_restart_def split: prod.splits run.splits)
  assume "engine_call_GetOperation lib load (\<lambda>i. get_operation (xs i)) w n = (Inr r, w')"
  then have g: "engine_GetOperation lib load (\<lambda>i. get_operation (xs i)) (e, c) n = (Value (Inr r), w')"
    by (simp add: engine_call_GetOperation_def rpc_Inr w)
  show "op_done r = engine_finished load finished w n"
    by (rule GetOperation_Value [OF inv_c g]) (auto simp: eval_reply_Inr w)
  show "engine_finished load finished w' m = engine_finished load finished w m"
    by (rule GetOperation_Value [OF inv_c g]) (auto simp: engine_finished_def w)
qed

text \<open>The engine as it is deployed: over the cache, which is over the builder.\<close>

interpretation deployed: engine_backend
  "\<lambda>(x, ans). cache_call_GetOperation L (builder_call_GetOperation L x) ans"
  "cache_finished builder_finished"
  "\<lambda>w. proto_laws L \<and> cache_inv L builder_inv builder_serves builder_built w" L load
  for L :: "'any proto_lib" and load
  by (rule engine_backend.intro) (rule builder.cache.operations_service_axioms)

section \<open>Properties\<close>

text \<open>
  C13. A successful \<open>Eval\<close> under a fresh identifier leaves the evaluation in the database with exactly
  one operation for every distinct requested value, each pointing at the operation the cache gave for
  that value, so a later query finds precisely them; the rows of every other evaluation stay.
\<close>

theorem Eval_records_operations:
  assumes "Eval L parse get ans (e, c) req = (Value (Inr r), (e', c'))"
    and "db_law load" and "rows_of (engine_trace e) (op_name r) = []"
    and "distinct (eng_order ans)" and "set (eng_order ans) = set (er_values req)"
  shows "mset (map or_Value (load (engine_trace e') (op_name r))) = mset_set (set (er_values req)) \<and>
    (\<exists>d ops. eval_values L get (op_name r) req 0 (er_values req) True Map.empty c =
         (Value (Inr (d, ops)), c') \<and> dom ops = set (er_values req) \<and>
       (\<forall>row \<in> set (load (engine_trace e') (op_name r)). \<exists>opn.
          ops (or_Value row) = Some opn \<and> parse (op_name opn) = Inr (or_DependentID row))) \<and>
    (\<forall>n. n \<noteq> op_name r \<longrightarrow> mset (load (engine_trace e') n) = mset (load (engine_trace e) n))"
proof -
  from assms(1) obtain ident d ops results where run: "eng_uuid ans = Inr ident"
      "eval_values L get ident req 0 (er_values req) True Map.empty c = (Value (Inr (d, ops)), c')"
      "newEvaluation parse ans ident ops e = (Value None, e')"
      "eval_reply L ident d results = Value (Inr r)"
    by (rule Eval_Inr)
  have r: "op_name r = ident" using run(4) by (auto simp: eval_reply_Inr)
  have ops: "dom ops = set (er_values req)" using eval_values_Inr(1) [OF run(2)] by simp
  then have order: "range_order ops (eng_order ans)" using assms(4,5) by (simp add: range_order_def)
  let ?es = "range_entries ops (eng_order ans)"
  have rows: "db_rows (engine_trace e') ident = rows_for parse ident ?es"
    using db_rows_after_newEvaluation [OF run(3)] assms(3) r by simp
  have "map or_Value (rows_for parse ident ?es) = map fst ?es"
    by (simp add: rows_for_def case_prod_unfold comp_def)
  with order have vals: "map or_Value (db_rows (engine_trace e') ident) = eng_order ans"
    by (simp add: rows)
  obtain u e1 where "create_operations parse ident ?es e = (Value u, e1)"
    using run(3) by (auto simp: newEvaluation_def run_then_Value split: option.splits)
  from create_operations_Value(2) [OF this]
  have deps: "\<exists>opn. ops (or_Value row) = Some opn \<and> parse (op_name opn) = Inr (or_DependentID row)"
    if "row \<in> set (db_rows (engine_trace e') ident)" for row
    using that unfolding rows
    by (fastforce simp: rows_for_def set_range_entries split: sum.splits)
  have "mset (map or_Value (load (engine_trace e') ident)) = mset (map or_Value (db_rows (engine_trace e') ident))"
    using assms(2) by (metis db_law_def mset_map)
  also have "\<dots> = mset_set (set (er_values req))"
    using vals assms(4,5) by (metis mset_set_set)
  finally have m: "mset (map or_Value (load (engine_trace e') ident)) = mset_set (set (er_values req))" .
  have "mset (load (engine_trace e') n) = mset (load (engine_trace e) n)" if "n \<noteq> ident" for n
    using assms(2) db_rows_other [OF run(3) that] by (simp add: db_law_def)
  with m ops deps run(2) show ?thesis unfolding r db_law_set [OF assms(2)] by blast
qed

definition ready_cache :: "nat \<Rightarrow> unit \<Rightarrow> tagged_any get_request \<Rightarrow> (go_error + tagged_any operation) \<times> unit" where
  "ready_cache i u q =
     (Inr (reply_operation (''op-'' @ gr_value q) True
        (AnyGetResponse \<lparr>gresp_name = [], gresp_value = Some (StringScalar ''x'')\<rparr>)), ())"

definition ready_answers :: engine_answers where
  "ready_answers =
     \<lparr>eng_uuid = Inr ''e1'', eng_metadata = Some [''user'' \<mapsto> [''me''], ''hostname'' \<mapsto> [''here'']],
      eng_order = [''b'', ''a''], eng_create_error = None, eng_create_rows = 1\<rparr>"

definition ready_request :: "tagged_any eval_request" where
  "ready_request = \<lparr>er_context = None, er_values = [''a'', ''b'', ''a''], er_skip_caching = False\<rparr>"

lemma ready_Eval:
  "\<exists>r e'. Eval tagged_lib Inr ready_cache ready_answers (engine_init, ()) ready_request = (Value (Inr r), (e', ())) \<and>
     op_name r = ''e1'' \<and> op_done r"
  by (simp add: Eval_def newEvaluation_def ready_cache_def ready_answers_def ready_request_def md_first_def
      engine_init_def eval_reply_def Let_def)

theorem Eval_records_operations_witness:
  "\<exists>r e'. Eval tagged_lib Inr ready_cache ready_answers (engine_init, ()) ready_request = (Value (Inr r), (e', ())) \<and>
     mset (map or_Value (db_rows (engine_trace e') (op_name r))) = mset_set {''a'', ''b''}"
proof -
  obtain r e' where r: "Eval tagged_lib Inr ready_cache ready_answers (engine_init, ()) ready_request =
      (Value (Inr r), (e', ()))" using ready_Eval by blast
  have fresh: "rows_of (engine_trace engine_init) (op_name r) = []"
    by (simp add: engine_init_def rows_of_def)
  have order: "distinct (eng_order ready_answers)" "set (eng_order ready_answers) = set (er_values ready_request)"
    by (auto simp: ready_answers_def ready_request_def)
  have vals: "set (er_values ready_request) = {''a'', ''b''}" by (auto simp: ready_request_def)
  from Eval_records_operations [OF r db_law_db_rows fresh order, THEN conjunct1, unfolded vals] r
  show ?thesis by blast
qed

text \<open>
  C18. The reply of a successful \<open>Eval\<close> is named by the new identifier. When it says done it holds a
  value for exactly the requested names; otherwise it holds none.
\<close>

theorem Eval_reply_values:
  assumes "proto_laws L"
    and "Eval L parse get ans (e, c) req = (Value (Inr r), (e', c'))"
  shows "eng_uuid ans = Inr (op_name r) \<and>
    (\<exists>resp. unpack_eval_response L (GetResponse r) = (resp, None) \<and>
       dom (eresp_values resp) = (if op_done r then set (er_values req) else {}))"
proof -
  from assms(2) obtain ident d ops results where run: "eng_uuid ans = Inr ident"
      "eval_values L get ident req 0 (er_values req) True Map.empty c = (Value (Inr (d, ops)), c')"
      "(if d then collect_values L ops (er_values req) Map.empty else Value Map.empty) = Value results"
      "eval_reply L ident d results = Value (Inr r)"
    by (rule Eval_Inr)
  have ops: "dom ops = set (er_values req)" using eval_values_Inr(1) [OF run(2)] by simp
  have un: "\<forall>v opn. ops v = Some opn \<longrightarrow> snd (unpack_get_response L (GetResponse opn)) = None"
    using eval_values_Inr(3) [OF run(2)] by simp
  have res: "dom results = (if d then set (er_values req) else {})"
  proof -
    have "v \<in> set (er_values req) \<Longrightarrow> ops v \<noteq> None" for v using ops by blast
    with run(3) show ?thesis
      by (auto simp: collect_values_total [OF un] domIff split: if_splits)
  qed
  from run(4) obtain a where a: "pack_eval_response L \<lparr>eresp_values = results\<rparr> = Inr a"
      "r = reply_operation ident d a" by (auto simp: eval_reply_Inr)
  have "dom (eresp_values (wire_eval_response \<lparr>eresp_values = results\<rparr>)) = dom results"
    by (auto simp: wire_eval_response_def split: option.splits)
  with run(1) a res show ?thesis using proto_laws_unpack(5) [OF assms(1) a(1)] by simp
qed

theorem Eval_reply_values_witness:
  "\<exists>r e' resp. Eval tagged_lib Inr ready_cache ready_answers (engine_init, ()) ready_request =
      (Value (Inr r), (e', ())) \<and>
    unpack_eval_response tagged_lib (GetResponse r) = (resp, None) \<and> dom (eresp_values resp) = {''a'', ''b''}"
proof -
  obtain r e' where r: "Eval tagged_lib Inr ready_cache ready_answers (engine_init, ()) ready_request =
      (Value (Inr r), (e', ()))" "op_done r" using ready_Eval by blast
  from Eval_reply_values [OF tagged_lib_laws r(1)] r show ?thesis
    by (auto simp: ready_request_def insert_commute)
qed

text \<open>
  A call that carries metadata without the key \<open>user\<close> or without the key \<open>hostname\<close> kills the
  engine's process once the cache has answered for every value, and nothing is recorded.
\<close>

theorem Eval_without_user_panics:
  assumes "eng_uuid ans = Inr ident"
    and "eval_values L get ident req 0 (er_values req) True Map.empty c = (Value (Inr (d, ops)), c')"
    and "eng_metadata ans = Some md" and "md ''user'' = None \<or> md ''hostname'' = None"
  shows "Eval L parse get ans (e, c) req = (Panicked index_out_of_range, (e, c'))"
proof -
  have "newEvaluation parse ans ident ops e = (Panicked index_out_of_range, e)"
    using assms(3,4) by (auto simp: newEvaluation_def md_first_def split: option.splits list.splits)
  with assms(1,2) show ?thesis by (simp add: Eval_def)
qed

theorem Eval_without_user_panics_witness:
  "Eval tagged_lib Inr ready_cache (ready_answers\<lparr>eng_metadata := Some Map.empty\<rparr>) (engine_init, ())
     (ready_request\<lparr>er_values := []\<rparr>) = (Panicked index_out_of_range, (engine_init, ()))"
  by (rule Eval_without_user_panics [where ident = "''e1''" and d = True and ops = Map.empty
        and md = Map.empty])
    (simp_all add: ready_answers_def ready_request_def)

text \<open>
  An evaluation the database does not know, or whose query failed, is reported as done, with no
  values, and the cache is not asked.
\<close>

theorem unknown_evaluation_is_done:
  assumes "proto_laws L" and "load (engine_trace e) n = []"
    and "engine_GetOperation L load cacheOp (e, c) n = (Value (Inr r), w')"
  shows "w' = (e, c) \<and> op_name r = n \<and> op_done r \<and>
    unpack_eval_response L (GetResponse r) = (\<lparr>eresp_values = Map.empty\<rparr>, None)"
proof -
  have "wire_eval_response \<lparr>eresp_values = Map.empty\<rparr> = \<lparr>eresp_values = Map.empty\<rparr>"
    by (simp add: wire_eval_response_def)
  then show ?thesis
    using assms by (auto simp: engine_GetOperation_def eval_reply_Inr proto_facts)
qed

theorem unknown_evaluation_is_done_witness:
  "\<exists>r. engine_GetOperation tagged_lib db_rows (\<lambda>i c n. (Inl ErrUnavailable, c)) (engine_init, ()) ''nobody'' =
     (Value (Inr r), (engine_init, ())) \<and> op_done r"
proof -
  have none: "db_rows (engine_trace engine_init) ''nobody'' = []"
    by (simp add: db_rows_def engine_init_def evaluations_of_def)
  obtain r where r: "engine_GetOperation tagged_lib db_rows (\<lambda>i c n. (Inl ErrUnavailable, c)) (engine_init, ()) ''nobody'' =
     (Value (Inr r), (engine_init, ()))"
    using none by (auto simp: engine_GetOperation_def eval_reply_def)
  from unknown_evaluation_is_done [where load = db_rows, OF tagged_lib_laws none r] r show ?thesis by blast
qed

end
