(* ===== verification/Helpers.thy ===== *)
theory Helpers
  imports Go_Sha256
begin

text \<open>
  The small packages: \<open>pkg/git\<close> over the go-git library, whose answers are arguments, \<open>pkg/pointer\<close>
  and \<open>pkg/hash\<close>.
\<close>

section \<open>pkg/git\<close>

text \<open>A reference: its full name and the hash it points to.\<close>

record git_ref =
  ref_name :: string
  ref_hash :: string

text \<open>A repository that was opened, by what reading it gives.\<close>

record 'status git_repo =
  repo_head :: "go_error + git_ref"
  repo_tags :: "go_error + git_ref list"
  repo_worktree :: "go_error + (go_error + 'status)"

type_synonym 'status git_world = "string \<Rightarrow> go_error + 'status git_repo"

definition GetRepo :: "'status git_world \<Rightarrow> string \<Rightarrow> go_error + 'status git_repo" where
  "GetRepo plainOpen workspace =
     (case plainOpen workspace of Inl err \<Rightarrow> Inl err | Inr repo \<Rightarrow> Inr repo)"

text \<open>The branch and the commit of the head, both the name of the reference.\<close>

definition GetHead :: "'status git_world \<Rightarrow> string \<Rightarrow> go_error + string \<times> string" where
  "GetHead plainOpen workspace =
     (case GetRepo plainOpen workspace of
        Inl err \<Rightarrow> Inl err
      | Inr repo \<Rightarrow>
          (case repo_head repo of
             Inl err \<Rightarrow> Inl err
           | Inr ref \<Rightarrow> Inr (ref_name ref, ref_name ref)))"

text \<open>So the commit of the head is never a hash.\<close>

lemma GetHead_commit_is_name: "GetHead plainOpen workspace = Inr (branch, commit) \<Longrightarrow> commit = branch"
  by (auto simp: GetHead_def split: sum.splits)

text \<open>The work tree, which stands for what asking it for its status gives.\<close>

definition GetWorktree :: "'status git_world \<Rightarrow> string \<Rightarrow> go_error + (go_error + 'status)" where
  "GetWorktree plainOpen workspace =
     (case GetRepo plainOpen workspace of
        Inl err \<Rightarrow> Inl err
      | Inr repo \<Rightarrow>
          (case repo_worktree repo of Inl err \<Rightarrow> Inl err | Inr worktree \<Rightarrow> Inr worktree))"

definition WorkspaceStatus :: "'status git_world \<Rightarrow> string \<Rightarrow> go_error + 'status" where
  "WorkspaceStatus plainOpen workspace =
     (case GetWorktree plainOpen workspace of
        Inl err \<Rightarrow> Inl err
      | Inr status \<Rightarrow> status)"

record Commit =
  commit_Branch :: string
  commit_Hash :: string

fun tag_entries :: "git_ref list \<Rightarrow> (string \<rightharpoonup> Commit) \<Rightarrow> (string \<rightharpoonup> Commit)" where
  "tag_entries [] tags = tags"
| "tag_entries (t # ts) tags =
     (let tag = split_on CHR ''/'' (ref_name t)
      in tag_entries ts
           (tags(tag ! (length tag - 1) \<mapsto> \<lparr>commit_Branch = ''main'', commit_Hash = ref_hash t\<rparr>)))"

definition GetTags :: "'status git_world \<Rightarrow> string \<Rightarrow> go_error + (string \<rightharpoonup> Commit)" where
  "GetTags plainOpen workspace =
     (case GetRepo plainOpen workspace of
        Inl err \<Rightarrow> Inl err
      | Inr repo \<Rightarrow>
          (case repo_tags repo of
             Inl err \<Rightarrow> Inl err
           | Inr refs \<Rightarrow> Inr (tag_entries refs Map.empty)))"

text \<open>The short name of a tag is what follows the last slash.\<close>

definition short_name :: "git_ref \<Rightarrow> string" where
  "short_name t = last (split_on CHR ''/'' (ref_name t))"

lemma tag_entries_last:
  "tag_entries ts tags n =
     (case filter (\<lambda>t. short_name t = n) (rev ts) of
        [] \<Rightarrow> tags n
      | t # _ \<Rightarrow> Some \<lparr>commit_Branch = ''main'', commit_Hash = ref_hash t\<rparr>)"
  by (induction ts arbitrary: tags)
    (auto simp: Let_def short_name_def last_conv_nth filter_empty_conv split: list.splits)

section \<open>pkg/pointer\<close>

text \<open>An \<open>any\<close> as far as \<open>Get\<close> looks: a map from strings, or something else. A nil slice is \<open>None\<close>.\<close>

datatype 'a go_any = AnyMap "string \<Rightarrow> 'a go_any option" | AnyOther 'a

type_synonym Pointer = "string list option"

definition fragments :: "Pointer \<Rightarrow> string list" where
  "fragments p = (case p of None \<Rightarrow> [] | Some fs \<Rightarrow> fs)"

fun join_fragments :: "string list \<Rightarrow> string \<Rightarrow> string" where
  "join_fragments [] str = str"
| "join_fragments (fragment # fs) str = join_fragments fs (str @ ''.'' @ fragment)"

definition Pointer_String :: "Pointer \<Rightarrow> string" where
  "Pointer_String p = join_fragments (fragments p) []"

definition Pointer_Head :: "Pointer \<Rightarrow> string option" where
  "Pointer_Head p = (if length (fragments p) = 0 then None else Some (fragments p ! 0))"

definition Pointer_Get :: "Pointer \<Rightarrow> 'a go_any \<Rightarrow> (go_error + 'a go_any) run" where
  "Pointer_Get p data =
     (case data of
        AnyMap ch \<Rightarrow>
          (if p \<noteq> None
           then
             (case Pointer_Head p of
                None \<Rightarrow> Panicked nil_dereference
              | Some h \<Rightarrow>
                  (case ch h of
                     Some result \<Rightarrow> Value (Inr result)
                   | None \<Rightarrow> Value (Inl (ErrText (''invalid element: '' @ h)))))
           else Value (Inl (ErrText ''cannot dereference nil pointer'')))
      | AnyOther x \<Rightarrow> Value (Inl (ErrText (''invalid pointer: '' @ Pointer_String p))))"

lemma join_fragments_concat: "join_fragments fs str = str @ concat (map (\<lambda>f. CHR ''.'' # f) fs)"
  by (induction fs arbitrary: str) auto

section \<open>pkg/hash\<close>

text \<open>The running hash holds the bytes written to it so far.\<close>

record HashState =
  RunningHash :: sha_writer

definition NewHashState :: HashState where
  "NewHashState = \<lparr>RunningHash = sha_New\<rparr>"

definition HashState_Digest :: "HashState \<Rightarrow> string" where
  "HashState_Digest h = sha_Sum (RunningHash h)"

text \<open>\<open>Hash\<close> prints its argument and makes a reflected value of it, but writes nothing.\<close>

definition Hash :: "'a \<Rightarrow> string" where
  "Hash x = (let s = NewHashState in HashState_Digest s)"

section \<open>Properties\<close>

text \<open>
  \<open>GetTags\<close> maps a name to the last tag of the repository whose full name ends in it after its last
  slash: of two tags in different folders with the same short name only one is seen.
\<close>

theorem GetTags_last_wins:
  assumes "plainOpen workspace = Inr repo" and "repo_tags repo = Inr refs"
  shows "\<exists>tags. GetTags plainOpen workspace = Inr tags \<and>
    (\<forall>n. tags n = (case filter (\<lambda>t. short_name t = n) (rev refs) of
       [] \<Rightarrow> None
     | t # _ \<Rightarrow> Some \<lparr>commit_Branch = ''main'', commit_Hash = ref_hash t\<rparr>))"
  using assms by (simp add: GetTags_def GetRepo_def tag_entries_last)

definition sample_repo :: "bool git_repo" where
  "sample_repo =
     \<lparr>repo_head = Inr \<lparr>ref_name = ''refs/heads/main'', ref_hash = ''c0ffee''\<rparr>,
      repo_tags = Inr [\<lparr>ref_name = ''refs/tags/a/v1'', ref_hash = ''aa''\<rparr>,
        \<lparr>ref_name = ''refs/tags/b/v1'', ref_hash = ''bb''\<rparr>],
      repo_worktree = Inr (Inr True)\<rparr>"

theorem GetTags_last_wins_witness:
  "\<exists>tags. GetTags (\<lambda>_. Inr sample_repo) ''/home/me/eval'' = Inr tags \<and>
    tags ''v1'' = Some \<lparr>commit_Branch = ''main'', commit_Hash = ''bb''\<rparr> \<and> tags ''v2'' = None"
proof -
  obtain tags where t: "GetTags (\<lambda>_. Inr sample_repo) ''/home/me/eval'' = Inr tags"
      "\<forall>n. tags n = (case filter (\<lambda>t. short_name t = n) (rev
          [\<lparr>ref_name = ''refs/tags/a/v1'', ref_hash = ''aa''\<rparr>, \<lparr>ref_name = ''refs/tags/b/v1'', ref_hash = ''bb''\<rparr>]) of
        [] \<Rightarrow> None | t # _ \<Rightarrow> Some \<lparr>commit_Branch = ''main'', commit_Hash = ref_hash t\<rparr>)"
    using GetTags_last_wins [of "\<lambda>_. Inr sample_repo" "''/home/me/eval''" sample_repo]
    by (auto simp: sample_repo_def)
  then show ?thesis by (simp add: short_name_def)
qed

text \<open>
  \<open>Get\<close> of a pointer finds what a map holds under its first fragment, whatever fragments follow; an
  empty pointer that is not nil panics on a map, and everything that is not a map is an error.
\<close>

theorem Pointer_Get_first:
  "Pointer_Get (Some (h # fs)) (AnyMap ch) =
     Value (case ch h of Some x \<Rightarrow> Inr x | None \<Rightarrow> Inl (ErrText (''invalid element: '' @ h))) \<and>
   Pointer_Get (Some []) (AnyMap ch) = Panicked nil_dereference \<and>
   Pointer_Get None (AnyMap ch) = Value (Inl (ErrText ''cannot dereference nil pointer'')) \<and>
   Pointer_Get p (AnyOther x) =
     Value (Inl (ErrText (''invalid pointer: '' @ concat (map (\<lambda>f. CHR ''.'' # f) (fragments p)))))"
  by (simp add: Pointer_Get_def Pointer_Head_def Pointer_String_def fragments_def join_fragments_concat
      split: option.splits)

text \<open>\<open>Hash\<close> gives every argument the digest of no bytes at all.\<close>

theorem Hash_ignores_argument:
  "hex_string (Hash x) = ''e3b0c44298fc1c149afbf4c8996fb92427ae41e4649b934ca495991b7852b855''"
  by (simp add: Hash_def HashState_Digest_def NewHashState_def sha_New_def sha_Sum_def sha256_empty)

end
