(* ===== verification/Evalctl.thy ===== *)
theory Evalctl
  imports Engine Grpc_Client Helpers
begin

text \<open>
  \<open>cmd/evalctl\<close>: the command-line client. \<open>eval\<close> picks an action graph by the name of the requested
  value, applies the user's substitutions to it, sends it to the engine and polls until the
  evaluation is done. Go's \<open>sort.Strings\<close> compares bytes, which is the order of
  \<open>List_Lexorder\<close> on characters.
\<close>

section \<open>Completion\<close>

definition GenerateCompletions :: "string list" where
  "GenerateCompletions =
     [''compare.baseline.train.features.generate'',
      ''compare.baseline.train.features.generate.images'',
      ''compare.baseline.train.features.process'',
      ''compare.baseline.train.features.process.out'',
      ''compare.baseline.train.features.aggregate'',
      ''compare.baseline.train.model_train'',
      ''compare.baseline.analyze'',
      ''compare.exp.train.features.generate'',
      ''compare.exp.train.features.process'',
      ''compare.exp.train.features.aggregate'',
      ''compare.exp.train.model_train'',
      ''compare.exp.analyze'',
      ''compare.summarize'',
      ''image.build'']"

definition completeTargets :: "string list \<Rightarrow> string list" where
  "completeTargets args = (if length args > 0 then [''foo'', ''bar''] else GenerateCompletions)"

section \<open>Building a configuration from substitutions\<close>

fun unique_loop :: "(string \<rightharpoonup> bool) \<Rightarrow> string list \<Rightarrow> string list \<Rightarrow> string list" where
  "unique_loop inResult result [] = result"
| "unique_loop inResult result (str # s) =
     (if inResult str = None then unique_loop (inResult(str \<mapsto> True)) (result @ [str]) s
      else unique_loop inResult result s)"

definition unique :: "string list \<Rightarrow> string list" where
  "unique s = unique_loop Map.empty [] s"

definition getWithDefault :: "(string \<rightharpoonup> string) \<Rightarrow> string \<Rightarrow> string \<Rightarrow> string" where
  "getWithDefault vars varName defaultValue =
     (case vars varName of Some value \<Rightarrow> value | None \<Rightarrow> defaultValue)"

definition createBuildImageConfig :: "(string \<rightharpoonup> string) \<Rightarrow> build_image_config" where
  "createBuildImageConfig substitutionMap =
     (let bazelTargets = [''//actions/wrapper:wrapper''];
          bazelTargets =
            (case substitutionMap ''image.build.bazel_targets'' of
               Some bazelTargetsString \<Rightarrow>
                 sort (unique (bazelTargets @ split_on CHR '' '' bazelTargetsString))
             | None \<Rightarrow> bazelTargets);
          bazelTargetsString =
            getWithDefault substitutionMap ''image.build.bazel_targets'' ''//actions/wrapper'';
          bazelTargets = sort (unique (bazelTargets @ split_on CHR '' '' bazelTargetsString));
          branch = getWithDefault substitutionMap ''image.build.commit_point.branch'' ''main'';
          commit = getWithDefault substitutionMap ''image.build.commit_point.commit_sha'' ''golden''
      in \<lparr>bic_image_name = ''eval'', bic_image_tag = ''latest'', bic_base_image = ''debian:buster'',
          bic_commit_point = Some
            \<lparr>cp_name = [], cp_branch = branch, cp_commit_sha = commit, cp_commit_required = []\<rparr>,
          bic_bazel_targets = bazelTargets\<rparr>)"

section \<open>Choosing the graphs\<close>

text \<open>
  The buckets of the requested values. In the branch for a graph already seen the appended slice is
  assigned to a local variable only, so the map keeps the first value.
\<close>

fun bucket_values :: "string list \<Rightarrow> (string \<rightharpoonup> string list) \<Rightarrow> (string \<rightharpoonup> string list)" where
  "bucket_values [] result = result"
| "bucket_values (v # vs) result =
     (let graphName = hd (split_on CHR ''.'' v)
      in case result graphName of
           Some valueList \<Rightarrow> bucket_values vs result
         | None \<Rightarrow> bucket_values vs (result(graphName \<mapsto> [v])))"

definition valueGraphBuckets :: "string list \<Rightarrow> (string \<rightharpoonup> string list)" where
  "valueGraphBuckets values = bucket_values (unique values) Map.empty"

record 'any valueRequest =
  vr_g :: "'any agraph"
  vr_vl :: "string list"

fun resolve_buckets ::
    "(string \<rightharpoonup> 'any agraph) \<Rightarrow> (string \<times> string list) list \<Rightarrow> 'any valueRequest list \<Rightarrow>
     go_error + 'any valueRequest list" where
  "resolve_buckets available [] result = Inr result"
| "resolve_buckets available ((k, vl) # buckets) result =
     (case available k of
        Some g \<Rightarrow> resolve_buckets available buckets (result @ [\<lparr>vr_g = g, vr_vl = vl\<rparr>])
      | None \<Rightarrow> Inl (ErrText (''Invalid value, graph '' @ k @ '' unkown'')))"

text \<open>\<open>order\<close> is the order of the loop over the buckets.\<close>

definition actionGraphs ::
    "'any proto_lib \<Rightarrow> string list \<Rightarrow> string list \<Rightarrow> go_error + 'any valueRequest list" where
  "actionGraphs L order values =
     resolve_buckets (KnownActionGraphs L) (range_entries (valueGraphBuckets values) order) []"

section \<open>Substitutions\<close>

text \<open>The configuration of the action \<open>build\<close> of the graph \<open>image\<close>, read and written in place.\<close>

definition build_config :: "(string \<rightharpoonup> 'any agraph) \<Rightarrow> 'any option" where
  "build_config graphs =
     (case graphs ''image'' of
        None \<Rightarrow> None
      | Some g \<Rightarrow> (case ag_actions g ''build'' of None \<Rightarrow> None | Some a \<Rightarrow> act_config a))"

definition set_build_config :: "'any option \<Rightarrow> (string \<rightharpoonup> 'any agraph) \<Rightarrow> (string \<rightharpoonup> 'any agraph)" where
  "set_build_config c graphs =
     graphs(''image'' := map_option (\<lambda>g. g\<lparr>ag_actions := (ag_actions g)
         (''build'' := map_option (\<lambda>a. a\<lparr>act_config := c\<rparr>) (ag_actions g ''build''))\<rparr>)
       (graphs ''image''))"

definition substitute_targets ::
    "'any proto_lib \<Rightarrow> (string \<rightharpoonup> string) \<Rightarrow> (string \<rightharpoonup> 'any agraph) \<Rightarrow> (string \<rightharpoonup> 'any agraph)" where
  "substitute_targets L substitutionMap graphs =
     (case substitutionMap ''image.build.bazel_targets'' of
        None \<Rightarrow> graphs
      | Some bazelTargets \<Rightarrow>
          (case unpack_build_image_config L (build_config graphs) of
             (buildConfig, Some err) \<Rightarrow> graphs
           | (buildConfig, None) \<Rightarrow>
               set_build_config
                 (packed_or_nil (pack_build_image_config L
                    (buildConfig\<lparr>bic_bazel_targets := split_on CHR '' '' bazelTargets\<rparr>)))
                 graphs))"

definition substitute_commit ::
    "'any proto_lib \<Rightarrow> (string \<rightharpoonup> string) \<Rightarrow> (string \<rightharpoonup> 'any agraph) \<Rightarrow>
     (string \<rightharpoonup> 'any agraph) run" where
  "substitute_commit L substitutionMap graphs =
     (case substitutionMap ''image.build.commit_sha'' of
        None \<Rightarrow> Value graphs
      | Some commitSha \<Rightarrow>
          (case unpack_build_image_config L (build_config graphs) of
             (buildConfig, Some err) \<Rightarrow> Value graphs
           | (buildConfig, None) \<Rightarrow>
               (case bic_commit_point buildConfig of
                  None \<Rightarrow> Panicked nil_dereference
                | Some cp \<Rightarrow>
                    Value (set_build_config
                      (packed_or_nil (pack_build_image_config L
                         (buildConfig\<lparr>bic_commit_point := Some (cp\<lparr>cp_commit_sha := commitSha\<rparr>)\<rparr>)))
                      graphs))))"

definition eval_request_for ::
    "bool \<Rightarrow> 'any agraph \<Rightarrow> string \<Rightarrow> string \<Rightarrow> string list \<Rightarrow> 'any eval_request" where
  "eval_request_for skipCaching actionGraph workspace_branch workspace_commit_sha wantedValues =
     \<lparr>er_context = Some
        \<lparr>ctx_actions = Some actionGraph,
         ctx_substitutions =
           [\<lparr>sub_variable = ''...branch'', sub_replace_value = ''dev'', sub_value = workspace_branch\<rparr>,
            \<lparr>sub_variable = ''...commit_sha'', sub_replace_value = ''dev'',
             sub_value = workspace_commit_sha\<rparr>]\<rparr>,
      er_values = wantedValues,
      er_skip_caching = skipCaching\<rparr>"

section \<open>Printing\<close>

text \<open>A message whose oneof is unset prints as \<open>null\<close>; a nil message panics.\<close>

definition ppScalar :: "scalar_value option \<Rightarrow> string run" where
  "ppScalar v =
     (case v of
        None \<Rightarrow> Panicked nil_dereference
      | Some (ScalarValue (Some (ScalarS s))) \<Rightarrow> Value s
      | Some (ScalarValue (Some (ScalarB b))) \<Rightarrow> Value (if b then ''true'' else ''false'')
      | Some (ScalarValue None) \<Rightarrow> Value ''null'')"

text \<open>One row per field; only the first shows the name of the value.\<close>

fun field_rows :: "string \<Rightarrow> field_value list \<Rightarrow> string list list run" where
  "field_rows k [] = Value []"
| "field_rows k (el # els) =
     (case ppScalar (fv_value el) of
        Value cell \<Rightarrow>
          (case field_rows [] els of
             Value rows \<Rightarrow> Value ([k, fv_name el, cell] # rows)
           | Panicked p \<Rightarrow> Panicked p
           | Exited m \<Rightarrow> Exited m)
      | Panicked p \<Rightarrow> Panicked p
      | Exited m \<Rightarrow> Exited m)"

text \<open>One table per value, each with the rows \<open>header\<close> on top, in the order of the loop.\<close>

fun value_tables ::
    "string list list \<Rightarrow> (string \<times> typed_value option) list \<Rightarrow> string list list list run" where
  "value_tables header [] = Value []"
| "value_tables header ((k, v) # kvs) =
     (case v of
        None \<Rightarrow> Panicked nil_dereference
      | Some tv \<Rightarrow>
          (case field_rows k (tv_fields tv) of
             Value rows \<Rightarrow>
               (case value_tables header kvs of
                  Value tables \<Rightarrow> Value ((header @ rows) # tables)
                | Panicked p \<Rightarrow> Panicked p
                | Exited m \<Rightarrow> Exited m)
           | Panicked p \<Rightarrow> Panicked p
           | Exited m \<Rightarrow> Exited m))"

section \<open>Waiting\<close>

text \<open>
  The polling loop. \<open>get\<close> is the engine's stub, \<open>sleep\<close> what happens to the world in the five
  seconds between two polls. A failed call has a nil reply, which the loop's condition reads.
  The loop has no bound: a run that never sees \<open>done\<close> is \<open>None\<close>.
\<close>

partial_function (option) await ::
    "('w \<Rightarrow> string \<Rightarrow> (go_error + 'any operation) \<times> 'w) \<Rightarrow> ('w \<Rightarrow> 'w) \<Rightarrow> 'any operation \<Rightarrow> 'w \<Rightarrow>
     ('any operation run \<times> 'w) option" where
  "await get sleep operation w =
     (if op_done operation then Some (Value operation, w)
      else (case get w (op_name operation) of
              (Inl err, w1) \<Rightarrow> Some (Panicked nil_dereference, sleep w1)
            | (Inr operation1, w1) \<Rightarrow> await get sleep operation1 (sleep w1)))"

text \<open>What \<open>evalCmdImpl\<close> and \<open>waitCompletion\<close> do once the loop has ended.\<close>

definition print_result ::
    "'any proto_lib \<Rightarrow> string list list \<Rightarrow> string list \<Rightarrow> 'any operation \<Rightarrow>
     string list list list run" where
  "print_result L header order operation =
     (case unpack_eval_response L (GetResponse operation) of
        (response, Some err) \<Rightarrow> Exited ''Cannot unmarhshal result''
      | (response, None) \<Rightarrow> value_tables header (range_entries (eresp_values response) order))"

text \<open>The connection to the engine, with evalctl's own certificate.\<close>

definition engine_connection :: "dial_answers \<Rightarrow> go_error + grpc_conn" where
  "engine_connection dial =
     NewConnection dial ''engine.eval.net:443'' (path_in cert_dir ''evalCA.crt'')
       (path_in cert_dir ''evalctl.crt'') (path_in cert_dir ''evalctl.key'')"

text \<open>\<open>attach\<close>, which takes one argument, only says so; \<open>waitCompletion\<close> is not reached from it.\<close>

definition attachCmdImpl :: "string list \<Rightarrow> string run" where
  "attachCmdImpl args =
     (case args of [] \<Rightarrow> Panicked index_out_of_range | a # _ \<Rightarrow> Value (''Attaching to '' @ a))"

text \<open>\<open>waitCompletion\<close>, which polls once more at the start, always by the name it was given.\<close>

definition waitCompletion ::
    "'any proto_lib \<Rightarrow> dial_answers \<Rightarrow> string list \<Rightarrow>
     ('w \<Rightarrow> string \<Rightarrow> (go_error + 'any operation) \<times> 'w) \<Rightarrow> ('w \<Rightarrow> 'w) \<Rightarrow> string \<Rightarrow> 'w \<Rightarrow>
     (string list list list run \<times> 'w) option" where
  "waitCompletion L dial order get sleep operationName w =
     (case engine_connection dial of
        Inl err \<Rightarrow> Some (Exited ''did not connect'', w)
      | Inr conn \<Rightarrow>
          (case get w operationName of
             (Inl err, w1) \<Rightarrow> Some (Panicked nil_dereference, w1)
           | (Inr operation, w1) \<Rightarrow>
               (case await (\<lambda>w _. get w operationName) sleep operation w1 of
                  None \<Rightarrow> None
                | Some (Value opn, w2) \<Rightarrow> Some (print_result L [] order opn, w2)
                | Some (Panicked p, w2) \<Rightarrow> Some (Panicked p, w2)
                | Some (Exited m, w2) \<Rightarrow> Some (Exited m, w2))))"

section \<open>The command\<close>

text \<open>
  The environment's answers: connecting, who runs the command, the home directory and the git
  repositories (the status of a work tree is whether it is clean), the orders of the loops over the
  buckets, over the actions of a dumped graph and over the values of the response.
\<close>

record evalctl_answers =
  ec_dial :: dial_answers
  ec_requester :: requester_answers
  ec_home :: string
  ec_git :: "bool git_world"
  ec_bucket_order :: "string list"
  ec_dump_order :: "string list"
  ec_value_order :: "string list"

fun dump_requests :: "string list \<Rightarrow> 'any valueRequest list \<Rightarrow> string list run" where
  "dump_requests ks [] = Value []"
| "dump_requests ks (vr # vrs) =
     (case fst (Dump ks (Some (vr_g vr))) of
        Value out \<Rightarrow>
          (case dump_requests ks vrs of
             Value outs \<Rightarrow> Value (out @ outs)
           | Panicked p \<Rightarrow> Panicked p
           | Exited m \<Rightarrow> Exited m)
      | Panicked p \<Rightarrow> Panicked p
      | Exited m \<Rightarrow> Exited m)"

text \<open>The graphs known, with the substitutions applied, and the request for the wanted values.\<close>

definition prepare_request ::
    "'any proto_lib \<Rightarrow> (string \<rightharpoonup> string) \<Rightarrow> bool \<Rightarrow> string \<times> string \<Rightarrow> string list \<Rightarrow>
     'any eval_request run" where
  "prepare_request L substitutionMap skipCaching head_refs wantedValues =
     (case substitute_commit L substitutionMap
             (substitute_targets L substitutionMap (KnownActionGraphs L)) of
        Panicked p \<Rightarrow> Panicked p
      | Exited m \<Rightarrow> Exited m
      | Value knownActionGraphs \<Rightarrow>
          (case wantedValues of
             [] \<Rightarrow> Panicked index_out_of_range
           | fullValuePath # _ \<Rightarrow>
               (case knownActionGraphs (hd (split_on CHR ''.'' fullValuePath)) of
                  None \<Rightarrow> Exited ''Unknown action graph''
                | Some actionGraph \<Rightarrow>
                    Value (eval_request_for skipCaching actionGraph (fst head_refs) (snd head_refs)
                      wantedValues))))"

text \<open>The workspace, as the set-up of the command derives it from the home directory.\<close>

definition workspaceTop :: "string \<Rightarrow> string" where
  "workspaceTop dirname = dirname @ ''/eval''"

text \<open>
  \<open>evalCmdImpl\<close>: the checks that come first, the request, the call with the metadata that says who is
  asking, and the loop. The reply to
  \<open>Eval\<close> must hold a response even when it is not done. The result is the tables printed at the
  end; the progress messages, the tags and the sorted names of the first response, which nothing
  reads, are left out.
\<close>

definition evalCmdImpl ::
    "'any proto_lib \<Rightarrow> evalctl_answers \<Rightarrow>
     (metadata \<Rightarrow> 'w \<Rightarrow> 'any eval_request \<Rightarrow> (go_error + 'any operation) \<times> 'w) \<Rightarrow>
     ('w \<Rightarrow> string \<Rightarrow> (go_error + 'any operation) \<times> 'w) \<Rightarrow> ('w \<Rightarrow> 'w) \<Rightarrow>
     (string \<rightharpoonup> string) \<Rightarrow> bool \<Rightarrow> string list \<Rightarrow> 'w \<Rightarrow>
     (string list list list run \<times> 'w) option" where
  "evalCmdImpl L ans eval get sleep substitutionMap skipCaching args w =
     (case engine_connection (ec_dial ans) of
        Inl err \<Rightarrow> Some (Exited ''did not connect'', w)
      | Inr conn \<Rightarrow>
     (case WithRequesterInfo (ec_requester ans) Map.empty of
        Panicked p \<Rightarrow> Some (Panicked p, w)
      | Exited m \<Rightarrow> Some (Exited m, w)
      | Value ctx \<Rightarrow>
     (case WorkspaceStatus (ec_git ans) (workspaceTop (ec_home ans)) of
        Inl err \<Rightarrow> Some (Exited ''Error'', w)
      | Inr clean \<Rightarrow>
        (case actionGraphs L (ec_bucket_order ans) args of
           Inl err \<Rightarrow> Some (Value [], w)
         | Inr resolvedGraphs \<Rightarrow>
             (case dump_requests (ec_dump_order ans) resolvedGraphs of
                Panicked p \<Rightarrow> Some (Panicked p, w)
              | Exited m \<Rightarrow> Some (Exited m, w)
              | Value _ \<Rightarrow>
             (case GetHead (ec_git ans) (workspaceTop (ec_home ans)) of
                Inl err \<Rightarrow> Some (Exited ''Cannot get workspace head references'', w)
              | Inr head_refs \<Rightarrow>
             (case prepare_request L substitutionMap skipCaching head_refs args of
                Panicked p \<Rightarrow> Some (Panicked p, w)
              | Exited m \<Rightarrow> Some (Exited m, w)
              | Value request \<Rightarrow>
             (case eval ctx w request of
                (Inl err, w1) \<Rightarrow> Some (Exited ''Error when calling Eval'', w1)
              | (Inr operation, w1) \<Rightarrow>
             (if snd (unpack_eval_response L (GetResponse operation)) \<noteq> None
              then Some (Exited ''Cannot unmarhshal result'', w1)
              else
             (case await get sleep operation w1 of
                None \<Rightarrow> None
              | Some (Panicked p, w2) \<Rightarrow> Some (Panicked p, w2)
              | Some (Exited m, w2) \<Rightarrow> Some (Exited m, w2)
              | Some (Value opn, w2) \<Rightarrow>
                  Some (print_result L
                    [[''compare.baseline.train.features.generate.images''], [[]]]
                    (ec_value_order ans) opn, w2)))))))))))"


section \<open>The helpers\<close>

lemma unique_loop_snoc:
  "unique_loop m r (s @ [x]) =
     (if m x = None \<and> x \<notin> set s then unique_loop m r s @ [x] else unique_loop m r s)"
  by (induction s arbitrary: m r) auto

lemma unique_Nil [simp]: "unique [] = []"
  by (simp add: unique_def)

lemma unique_snoc: "unique (s @ [x]) = (if x \<in> set s then unique s else unique s @ [x])"
  by (simp add: unique_def unique_loop_snoc)

text \<open>\<open>unique\<close> keeps the first occurrence of every string.\<close>

lemma unique_remdups: "unique s = rev (remdups (rev s))"
  by (induction s rule: rev_induct) (auto simp: unique_snoc)

lemma set_unique [simp]: "set (unique s) = set s"
  by (simp add: unique_remdups)

lemma distinct_unique [simp]: "distinct (unique s)"
  by (simp add: unique_remdups)

lemma find_unique: "find P (unique s) = find P s"
proof (induction s rule: rev_induct)
  case (snoc x s)
  have "P x \<Longrightarrow> x \<in> set s \<Longrightarrow> find P s \<noteq> None"
    by (auto simp: find_None_iff)
  with snoc show ?case
    by (auto simp: unique_snoc find_append split: option.splits)
qed simp

lemma sort_unique: "sort (unique s) = sorted_list_of_set (set s)"
proof (rule sorted_distinct_set_unique)
  show "sorted (sort (unique s))" and "distinct (sort (unique s))" by simp_all
  show "sorted (sorted_list_of_set (set s))" and "distinct (sorted_list_of_set (set s))"
    by simp_all
  show "set (sort (unique s)) = set (sorted_list_of_set (set s))" by simp
qed

text \<open>
  The targets of a configuration are a canonical list: sorted, without repetitions, the wrapper and
  the fields of the substitution (or the default).
\<close>

definition requested_targets :: "(string \<rightharpoonup> string) \<Rightarrow> string set" where
  "requested_targets m = insert ''//actions/wrapper:wrapper''
     (set (split_on CHR '' '' (getWithDefault m ''image.build.bazel_targets'' ''//actions/wrapper'')))"

lemma createBuildImageConfig_targets:
  "bic_bazel_targets (createBuildImageConfig m) = sorted_list_of_set (requested_targets m)"
proof (cases "m ''image.build.bazel_targets''")
  case None
  then show ?thesis
    by (simp add: createBuildImageConfig_def requested_targets_def getWithDefault_def Let_def sort_unique)
next
  case (Some t)
  then show ?thesis
    by (simp add: createBuildImageConfig_def requested_targets_def getWithDefault_def Let_def sort_unique
        insert_absorb Un_commute)
qed

lemma bucket_values_find:
  "bucket_values vs m g =
     (case m g of
        Some vl \<Rightarrow> Some vl
      | None \<Rightarrow> map_option (\<lambda>v. [v]) (find (\<lambda>v. hd (split_on CHR ''.'' v) = g) vs))"
  by (induction vs arbitrary: m) (auto simp: Let_def split: option.splits)

lemma valueGraphBuckets_find:
  "valueGraphBuckets vs g = map_option (\<lambda>v. [v]) (find (\<lambda>v. hd (split_on CHR ''.'' v) = g) vs)"
  by (simp add: valueGraphBuckets_def bucket_values_find find_unique)

lemma dom_valueGraphBuckets:
  "dom (valueGraphBuckets vs) = (\<lambda>v. hd (split_on CHR ''.'' v)) ` set vs"
proof -
  have "g \<in> dom (valueGraphBuckets vs) \<longleftrightarrow> g \<in> (\<lambda>v. hd (split_on CHR ''.'' v)) ` set vs" for g
    by (auto simp: valueGraphBuckets_find find_None_iff image_iff domIff)
  then show ?thesis by blast
qed

lemma resolve_buckets_Inr:
  "(\<exists>rs. resolve_buckets av bs res = Inr rs) \<longleftrightarrow> (\<forall>(k, vl) \<in> set bs. av k \<noteq> None)"
proof (induction bs arbitrary: res)
  case (Cons b bs)
  then show ?case by (cases b; cases "av (fst b)") simp_all
qed simp

lemma resolve_buckets_requests:
  "resolve_buckets av bs res = Inr rs \<Longrightarrow>
     rs = res @ map (\<lambda>(k, vl). \<lparr>vr_g = the (av k), vr_vl = vl\<rparr>) bs"
proof (induction bs arbitrary: res)
  case (Cons b bs)
  then show ?case by (cases b; cases "av (fst b)") fastforce+
qed simp

lemma actionGraphs_known:
  assumes "range_order (valueGraphBuckets vs) order"
  shows "(\<exists>rs. actionGraphs L order vs = Inr rs) \<longleftrightarrow>
    (\<forall>v \<in> set vs. hd (split_on CHR ''.'' v) \<in> {''image'', ''generate''})"
proof -
  let ?es = "range_entries (valueGraphBuckets vs) order"
  have "fst ` set ?es = (\<lambda>v. hd (split_on CHR ''.'' v)) ` set vs"
    using assms by (metis dom_valueGraphBuckets image_set range_order_def range_order_fst)
  moreover have "(\<forall>(k, vl) \<in> set ?es. P k) \<longleftrightarrow> (\<forall>k \<in> fst ` set ?es. P k)" for P
    by auto
  moreover have "KnownActionGraphs L k \<noteq> None \<longleftrightarrow> k \<in> {''image'', ''generate''}" for k
    using dom_KnownActionGraphs [of L] by blast
  ultimately show ?thesis
    by (simp only: actionGraphs_def resolve_buckets_Inr) blast
qed

lemma dump_requests_Value: "\<exists>out. dump_requests ks vrs = Value out"
proof (induction vrs)
  case (Cons vr vrs)
  obtain out where "Dump ks (Some (vr_g vr)) = (Value out, ())" using Dump_Some by blast
  with Cons show ?case by auto
qed simp

section \<open>What the substitutions change\<close>

text \<open>The image configuration a set of substitutions asks for.\<close>

definition substituted_config :: "(string \<rightharpoonup> string) \<Rightarrow> build_image_config" where
  "substituted_config m =
     (let c = default_build_image_config;
          c = (case m ''image.build.bazel_targets'' of
                 None \<Rightarrow> c | Some t \<Rightarrow> c\<lparr>bic_bazel_targets := split_on CHR '' '' t\<rparr>)
      in case m ''image.build.commit_sha'' of
           None \<Rightarrow> c
         | Some sha \<Rightarrow> c\<lparr>bic_commit_point := map_option (\<lambda>cp. cp\<lparr>cp_commit_sha := sha\<rparr>) (bic_commit_point c)\<rparr>)"

lemma build_config_set [simp]:
  assumes "graphs ''image'' = Some g" and "ag_actions g ''build'' = Some a"
  shows "build_config (set_build_config c graphs) = c"
  using assms by (simp add: build_config_def set_build_config_def)

lemma build_config_known:
  "build_config (KnownActionGraphs L) = packed_or_nil (pack_build_image_config L default_build_image_config)"
  by (simp add: build_config_def ImageGraph_def NewBuildImageAction_def)

definition image_graph_with :: "'any proto_lib \<Rightarrow> 'any option \<Rightarrow> 'any agraph" where
  "image_graph_with L c =
     \<lparr>ag_name = ''image'', ag_actions = [''build'' \<mapsto> (NewBuildImageAction L)\<lparr>act_config := c\<rparr>]\<rparr>"

definition graphs_with :: "'any proto_lib \<Rightarrow> 'any option \<Rightarrow> (string \<rightharpoonup> 'any agraph)" where
  "graphs_with L c = (KnownActionGraphs L)(''image'' \<mapsto> image_graph_with L c)"

lemma graphs_with_known:
  "KnownActionGraphs L = graphs_with L (packed_or_nil (pack_build_image_config L default_build_image_config))"
  by (auto simp: graphs_with_def image_graph_with_def ImageGraph_def NewBuildImageAction_def
      KnownActionGraphs_def)

lemma set_build_config_with [simp]: "set_build_config c (graphs_with L c') = graphs_with L c"
  by (auto simp: set_build_config_def graphs_with_def image_graph_with_def)

lemma build_config_with [simp]: "build_config (graphs_with L c) = c"
  by (simp add: build_config_def graphs_with_def image_graph_with_def)

lemma graphs_with_simps [simp]:
  "graphs_with L c ''image'' = Some (image_graph_with L c)"
  "graphs_with L c ''generate'' = Some (GenerateGraph L)"
  by (simp_all add: graphs_with_def)

lemma substitutions_config:
  assumes laws: "proto_laws L" and packs: "packs_all (pack_build_image_config L)"
  obtains c where
    "substitute_commit L m (substitute_targets L m (KnownActionGraphs L)) = Value (graphs_with L (Some c))"
    "unpack_build_image_config L (Some c) = (substituted_config m, None)"
proof -
  have pack: "\<exists>a. pack_build_image_config L cfg = Inr a \<and> unpack_build_image_config L (Some a) = (cfg, None)"
    for cfg using laws packs by (metis packs_all_def proto_laws_unpack(1))
  obtain a0 where a0: "pack_build_image_config L default_build_image_config = Inr a0"
      "unpack_build_image_config L (Some a0) = (default_build_image_config, None)"
    using pack by blast
  let ?cfg = "case m ''image.build.bazel_targets'' of
      None \<Rightarrow> default_build_image_config
    | Some t \<Rightarrow> default_build_image_config\<lparr>bic_bazel_targets := split_on CHR '' '' t\<rparr>"
  obtain a1 where a1: "substitute_targets L m (KnownActionGraphs L) = graphs_with L (Some a1)"
      "unpack_build_image_config L (Some a1) = (?cfg, None)"
  proof (cases "m ''image.build.bazel_targets''")
    case None
    with a0 show ?thesis by (intro that [of a0]) (simp_all add: substitute_targets_def graphs_with_known)
  next
    case (Some t)
    obtain a where "pack_build_image_config L
        (default_build_image_config\<lparr>bic_bazel_targets := split_on CHR '' '' t\<rparr>) = Inr a"
      "unpack_build_image_config L (Some a) =
        (default_build_image_config\<lparr>bic_bazel_targets := split_on CHR '' '' t\<rparr>, None)"
      using pack by blast
    with Some a0 show ?thesis
      by (intro that [of a]) (simp_all add: substitute_targets_def graphs_with_known)
  qed
  show ?thesis
  proof (cases "m ''image.build.commit_sha''")
    case None
    with a1 show ?thesis
      by (intro that [of a1]) (simp_all add: substitute_commit_def substituted_config_def Let_def)
  next
    case (Some sha)
    obtain cp where cp: "bic_commit_point ?cfg = Some cp"
      by (cases "m ''image.build.bazel_targets''") (simp_all add: default_build_image_config_def)
    obtain a where a: "pack_build_image_config L
        (?cfg\<lparr>bic_commit_point := Some (cp\<lparr>cp_commit_sha := sha\<rparr>)\<rparr>) = Inr a"
      "unpack_build_image_config L (Some a) =
        (?cfg\<lparr>bic_commit_point := Some (cp\<lparr>cp_commit_sha := sha\<rparr>)\<rparr>, None)"
      using pack by blast
    with Some a1 cp show ?thesis
      by (intro that [of a]) (simp_all add: substitute_commit_def substituted_config_def Let_def)
  qed
qed

text \<open>The request for a value of the image graph carries the configuration that was asked for.\<close>

lemma prepare_request_image:
  assumes "proto_laws L" and "packs_all (pack_build_image_config L)"
    and "hd (split_on CHR ''.'' v) = ''image''"
  obtains c where
    "prepare_request L m skip refs (v # vs) =
       Value (eval_request_for skip (image_graph_with L (Some c)) (fst refs) (snd refs) (v # vs))"
    "unpack_build_image_config L (Some c) = (substituted_config m, None)"
  using substitutions_config [OF assms(1,2), of m thesis] assms(3)
  by (simp add: prepare_request_def)

section \<open>Polling ends when the evaluation does\<close>

text \<open>The world before the \<open>k\<close>-th poll of \<open>n\<close>.\<close>

definition poll_world ::
    "('w \<Rightarrow> string \<Rightarrow> (go_error + 'any operation) \<times> 'w) \<Rightarrow> ('w \<Rightarrow> 'w) \<Rightarrow> string \<Rightarrow> nat \<Rightarrow> 'w \<Rightarrow> 'w" where
  "poll_world get sleep n k w = ((\<lambda>w. sleep (snd (get w n))) ^^ k) w"

lemma poll_world_0 [simp]: "poll_world get sleep n 0 w = w"
  by (simp add: poll_world_def)

lemma poll_world_step:
  "poll_world get sleep n (Suc k) w = sleep (snd (get (poll_world get sleep n k w) n))"
  by (simp add: poll_world_def)

lemma poll_world_Suc:
  "poll_world get sleep n (Suc k) w = poll_world get sleep n k (sleep (snd (get w n)))"
  by (simp add: poll_world_def funpow_Suc_right del: funpow.simps)

lemma await_done: "op_done opn \<Longrightarrow> await get sleep opn w = Some (Value opn, w)"
  by (subst await.simps) simp

lemma await_pending:
  "\<not> op_done opn \<Longrightarrow> await get sleep opn w =
     (case get w (op_name opn) of
        (Inl err, w1) \<Rightarrow> Some (Panicked nil_dereference, sleep w1)
      | (Inr opn1, w1) \<Rightarrow> await get sleep opn1 (sleep w1))"
  by (subst await.simps) simp

text \<open>
  When the first \<open>k\<close> polls answer \<open>not done\<close> and the next one answers \<open>done\<close>, that reply is the
  result, five seconds later.
\<close>

lemma await_returns:
  assumes "op_name opn = n" and "\<not> op_done opn"
    and "\<And>j. j < k \<Longrightarrow> \<exists>r w'. get (poll_world get sleep n j w) n = (Inr r, w') \<and> op_name r = n \<and> \<not> op_done r"
    and "get (poll_world get sleep n k w) n = (Inr v, w1)" and "op_done v"
  shows "await get sleep opn w = Some (Value v, sleep w1)"
  using assms
proof (induction k arbitrary: opn w)
  case 0
  then show ?case by (simp add: await_pending await_done)
next
  case (Suc k)
  from Suc.prems(3) [of 0] obtain r w' where g: "get w n = (Inr r, w')" "op_name r = n" "\<not> op_done r"
    by auto
  have "await get sleep r (sleep w') = Some (Value v, sleep w1)"
  proof (rule Suc.IH [OF g(2,3)])
    show "get (poll_world get sleep n k (sleep w')) n = (Inr v, w1)"
      using Suc.prems(4) g by (simp add: poll_world_Suc)
    show "op_done v" by (rule Suc.prems(5))
    fix j assume "j < k"
    with Suc.prems(3) [of "Suc j"] g show "\<exists>r1 w1.
        get (poll_world get sleep n j (sleep w')) n = (Inr r1, w1) \<and> op_name r1 = n \<and> \<not> op_done r1"
      by (simp add: poll_world_Suc)
  qed
  with Suc.prems(1,2) g show ?case by (simp add: await_pending)
qed

text \<open>A run that ends with a reply ends with one that is done.\<close>

lemma await_result:
  assumes "await get sleep opn w = Some (Value r, w')"
  shows "op_done r"
proof -
  have "case fst y of Value r \<Rightarrow> op_done r | _ \<Rightarrow> True" if "await get sleep opn w = Some y" for y
    by (rule await.raw_induct [where P = "\<lambda>get sleep opn w y.
          case fst y of Value r \<Rightarrow> op_done r | _ \<Rightarrow> True", OF _ that])
      (auto split: if_splits prod.splits sum.splits)
  from this [OF assms] show ?thesis by simp
qed

definition never_done ::
    "('w \<Rightarrow> string \<Rightarrow> (go_error + 'any operation) \<times> 'w) \<Rightarrow> ('w \<Rightarrow> 'w) \<Rightarrow> string \<Rightarrow> 'w \<Rightarrow> bool" where
  "never_done get sleep n w \<longleftrightarrow>
     (\<forall>j. \<exists>r w'. get (poll_world get sleep n j w) n = (Inr r, w') \<and> op_name r = n \<and> \<not> op_done r)"

lemma never_done_step:
  assumes "never_done get sleep n w"
  obtains r w' where "get w n = (Inr r, w')" and "op_name r = n" and "\<not> op_done r"
    and "never_done get sleep n (sleep w')"
proof -
  from assms [unfolded never_done_def, THEN spec, of 0] obtain r w' where
    g: "get w n = (Inr r, w')" "op_name r = n" "\<not> op_done r" by auto
  have "\<exists>r1 w1. get (poll_world get sleep n j (sleep w')) n = (Inr r1, w1) \<and>
      op_name r1 = n \<and> \<not> op_done r1" for j
    using assms [unfolded never_done_def, THEN spec, of "Suc j"] g by (simp add: poll_world_Suc)
  with g that show ?thesis by (auto simp: never_done_def)
qed

text \<open>And when no poll is ever done the loop does not end.\<close>

lemma await_diverges:
  assumes "op_name opn = n" and "\<not> op_done opn" and "never_done get sleep n w"
  shows "await get sleep opn w = None"
proof -
  have ended: "\<not> (op_name opn = n \<and> \<not> op_done opn \<and> never_done get sleep n w)"
    if "await get sleep opn w = Some y" for y
  proof (rule await.raw_induct [where P = "\<lambda>get sleep opn w y.
        \<not> (op_name opn = n \<and> \<not> op_done opn \<and> never_done get sleep n w)", OF _ that])
    fix await' :: "('b \<Rightarrow> string \<Rightarrow> (go_error + 'a operation) \<times> 'b) \<Rightarrow> ('b \<Rightarrow> 'b) \<Rightarrow>
        'a operation \<Rightarrow> 'b \<Rightarrow> ('a operation run \<times> 'b) option"
      and get sleep opn w y
    assume IH: "\<And>get sleep opn w y. await' get sleep opn w = Some y \<Longrightarrow>
        \<not> (op_name opn = n \<and> \<not> op_done opn \<and> never_done get sleep n w)"
      and run: "(if op_done opn then Some (Value opn, w)
        else case get w (op_name opn) of
               (Inl err, w1) \<Rightarrow> Some (Panicked nil_dereference, sleep w1)
             | (Inr opn1, w1) \<Rightarrow> await' get sleep opn1 (sleep w1)) = Some y"
    show "\<not> (op_name opn = n \<and> \<not> op_done opn \<and> never_done get sleep n w)"
    proof
      assume a: "op_name opn = n \<and> \<not> op_done opn \<and> never_done get sleep n w"
      then have "never_done get sleep n w" by simp
      then obtain r w' where g: "get w n = (Inr r, w')" "op_name r = n" "\<not> op_done r"
        "never_done get sleep n (sleep w')" by (rule never_done_step)
      with a run have "await' get sleep r (sleep w') = Some y" by simp
      from IH [OF this] g show False by simp
    qed
  qed
  show ?thesis
  proof (cases "await get sleep opn w")
    case (Some y)
    from ended [OF this] assms show ?thesis by simp
  qed
qed

section \<open>Printing a value\<close>

lemma field_rows_strings:
  "field_rows k (map (\<lambda>(n, v). \<lparr>fv_name = n, fv_value = Some (ScalarValue (Some (ScalarS v)))\<rparr>) nvs) =
     Value (case nvs of
        [] \<Rightarrow> []
      | (n, v) # rest \<Rightarrow> [k, n, v] # map (\<lambda>(n, v). [[], n, v]) rest)"
proof (induction nvs arbitrary: k)
  case (Cons nv nvs)
  then show ?case by (cases nv; cases nvs) (auto simp: ppScalar_def)
qed simp

section \<open>Properties\<close>

text \<open>
  C17. While every poll is answered under the evaluation's name, the client's loop ends exactly when
  some poll answers done, and then it ends with such a reply.
\<close>

theorem polling_ends_iff_done:
  assumes "op_name opn = n" and "\<not> op_done opn"
    and "\<forall>j. \<exists>r w'. get (poll_world get sleep n j w) n = (Inr r, w') \<and> op_name r = n"
  shows "((\<exists>y. await get sleep opn w = Some y) \<longleftrightarrow>
      (\<exists>j r w'. get (poll_world get sleep n j w) n = (Inr r, w') \<and> op_done r)) \<and>
    (\<forall>y. await get sleep opn w = Some y \<longrightarrow> (\<exists>r w'. y = (Value r, w') \<and> op_done r))"
proof (cases "never_done get sleep n w")
  case True
  then have "\<not> (\<exists>j r w'. get (poll_world get sleep n j w) n = (Inr r, w') \<and> op_done r)"
    unfolding never_done_def by (metis Pair_inject sum.inject(2))
  with await_diverges [OF assms(1,2) True] show ?thesis by simp
next
  case False
  let ?done = "\<lambda>j. \<exists>r w'. get (poll_world get sleep n j w) n = (Inr r, w') \<and> op_done r"
  from False assms(3) have ex: "\<exists>j. ?done j" unfolding never_done_def by blast
  define k where "k = (LEAST j. ?done j)"
  have "?done k" unfolding k_def by (rule LeastI_ex [OF ex])
  then obtain v w1 where v: "get (poll_world get sleep n k w) n = (Inr v, w1)" "op_done v" by blast
  have "\<not> ?done j" if "j < k" for j using that not_less_Least unfolding k_def by blast
  then have "\<exists>r w'. get (poll_world get sleep n j w) n = (Inr r, w') \<and> op_name r = n \<and> \<not> op_done r"
    if "j < k" for j using that assms(3) by blast
  then have "await get sleep opn w = Some (Value v, sleep w1)"
    by (rule await_returns [where k = k and get = get and w = w and n = n, OF assms(1,2) _ v])
  with v ex show ?thesis by auto
qed

definition counting_get :: "nat \<Rightarrow> string \<Rightarrow> (go_error + tagged_any operation) \<times> nat" where
  "counting_get w n = (Inr \<lparr>op_name = n, op_done = (2 \<le> w), op_metadata = None, op_result = None\<rparr>, w)"

theorem polling_ends_iff_done_witness:
  "\<exists>y. await counting_get Suc \<lparr>op_name = ''e'', op_done = False, op_metadata = None, op_result = None\<rparr> 0 = Some y"
proof -
  let ?op = "\<lparr>op_name = ''e'', op_done = False, op_metadata = None, op_result = None\<rparr> :: tagged_any operation"
  have "poll_world counting_get Suc ''e'' 2 0 = 2"
    by (simp add: poll_world_def counting_get_def numeral_2_eq_2)
  then have "\<exists>j r w'. counting_get (poll_world counting_get Suc ''e'' j 0) ''e'' = (Inr r, w') \<and> op_done r"
    by (intro exI [of _ 2]) (simp add: counting_get_def)
  moreover have "\<forall>j. \<exists>r w'. counting_get (poll_world counting_get Suc ''e'' j 0) ''e'' = (Inr r, w') \<and> op_name r = ''e''"
    by (simp add: counting_get_def)
  ultimately show ?thesis
    using polling_ends_iff_done [of ?op "''e''" counting_get Suc 0] by simp
qed

text \<open>
  C19. The request the client sends for a value of the graph \<open>image\<close> carries the graph's action \<open>build\<close>
  with the built-in configuration, the targets replaced by the fields of the substitution
  \<open>image.build.bazel_targets\<close> and the commit by \<open>image.build.commit_sha\<close>, each where it is given.
\<close>

theorem request_carries_configuration:
  assumes "proto_laws L" and "packs_all (pack_build_image_config L)"
    and "hd (split_on CHR ''.'' v) = ''image''"
  shows "\<exists>g a conf. prepare_request L m skip refs (v # vs) =
      Value (eval_request_for skip g (fst refs) (snd refs) (v # vs)) \<and>
    ag_actions g ''build'' = Some a \<and> act_kind a = ''build-image'' \<and>
    unpack_build_image_config L (act_config a) = (conf, None) \<and>
    bic_bazel_targets conf = (case m ''image.build.bazel_targets'' of
        None \<Rightarrow> [''//actions/wrapper''] | Some t \<Rightarrow> split_on CHR '' '' t) \<and>
    map_option cp_commit_sha (bic_commit_point conf) = Some (case m ''image.build.commit_sha'' of
        None \<Rightarrow> ''1937df925312572ef64753e9bf20a208de98b8be'' | Some sha \<Rightarrow> sha) \<and>
    map_option cp_branch (bic_commit_point conf) = Some ''main''"
proof -
  obtain c where c: "prepare_request L m skip refs (v # vs) =
      Value (eval_request_for skip (image_graph_with L (Some c)) (fst refs) (snd refs) (v # vs))"
      "unpack_build_image_config L (Some c) = (substituted_config m, None)"
    by (rule prepare_request_image [OF assms])
  have conf: "bic_bazel_targets (substituted_config m) = (case m ''image.build.bazel_targets'' of
        None \<Rightarrow> [''//actions/wrapper''] | Some t \<Rightarrow> split_on CHR '' '' t) \<and>
    map_option cp_commit_sha (bic_commit_point (substituted_config m)) = Some (case m ''image.build.commit_sha'' of
        None \<Rightarrow> ''1937df925312572ef64753e9bf20a208de98b8be'' | Some sha \<Rightarrow> sha) \<and>
    map_option cp_branch (bic_commit_point (substituted_config m)) = Some ''main''"
    by (simp add: substituted_config_def default_build_image_config_def Let_def split: option.splits)
  have "ag_actions (image_graph_with L (Some c)) ''build'' = Some ((NewBuildImageAction L)\<lparr>act_config := Some c\<rparr>)"
    by (simp add: image_graph_with_def)
  moreover have "act_kind ((NewBuildImageAction L)\<lparr>act_config := Some c\<rparr>) = ''build-image''"
    by (simp add: NewBuildImageAction_def)
  moreover have "unpack_build_image_config L (act_config ((NewBuildImageAction L)\<lparr>act_config := Some c\<rparr>)) =
      (substituted_config m, None)" using c(2) by simp
  ultimately show ?thesis using c(1) conf by blast
qed

theorem request_carries_configuration_witness:
  "\<exists>g. prepare_request tagged_lib [''image.build.commit_sha'' \<mapsto> ''abc''] False (''main'', ''abc'') [''image.build''] =
    Value (eval_request_for False g ''main'' ''abc'' [''image.build''])"
proof -
  have "packs_all (pack_build_image_config tagged_lib)" by (simp add: packs_all_def)
  moreover have "hd (split_on CHR ''.'' ''image.build'') = ''image''" by simp
  ultimately show ?thesis
    using request_carries_configuration [OF tagged_lib_laws, of "''image.build''"
        "[''image.build.commit_sha'' \<mapsto> ''abc'']" False "(''main'', ''abc'')" "[]"] by auto
qed

text \<open>
  A configuration made from substitutions depends only on what they ask for (the only call of
  \<open>createBuildImageConfig\<close> is commented out, so what is sent is not in this form): its targets are the
  wrapper and the fields of the substitution (or the default target), sorted and without repetition,
  so substitutions that list the same targets in any order give the same list.
\<close>

theorem configuration_targets_canonical:
  "bic_bazel_targets (createBuildImageConfig m) =
     sorted_list_of_set (insert ''//actions/wrapper:wrapper''
       (set (case m ''image.build.bazel_targets'' of
          None \<Rightarrow> [''//actions/wrapper''] | Some t \<Rightarrow> split_on CHR '' '' t)))"
proof (cases "m ''image.build.bazel_targets''")
  case None
  then have "getWithDefault m ''image.build.bazel_targets'' ''//actions/wrapper'' = ''//actions/wrapper''"
    by (simp add: getWithDefault_def)
  with None show ?thesis
    by (simp add: createBuildImageConfig_targets requested_targets_def split_on_no_sep)
next
  case (Some t)
  then have "getWithDefault m ''image.build.bazel_targets'' ''//actions/wrapper'' = t"
    by (simp add: getWithDefault_def)
  with Some show ?thesis by (simp add: createBuildImageConfig_targets requested_targets_def)
qed

text \<open>
  \<open>unique\<close> keeps the first occurrence of every string and drops the others, in order.
\<close>

theorem unique_keeps_first: "unique s = rev (remdups (rev s))"
  by (rule unique_remdups)

text \<open>
  The buckets of the requested values hold, for every graph named, only the first of its values:
  the others are lost.
\<close>

theorem buckets_keep_first_value:
  "valueGraphBuckets vs g =
     map_option (\<lambda>v. [v]) (find (\<lambda>v. hd (split_on CHR ''.'' v) = g) vs)"
  by (rule valueGraphBuckets_find)

text \<open>
  The requested values are accepted exactly when each begins with the name of a built-in graph,
  whatever order the loop over the buckets takes.
\<close>

theorem actionGraphs_accepts_known:
  assumes "range_order (valueGraphBuckets vs) order"
  shows "(\<exists>rs. actionGraphs L order vs = Inr rs) \<longleftrightarrow>
    (\<forall>v \<in> set vs. hd (split_on CHR ''.'' v) \<in> {''image'', ''generate''})"
  by (rule actionGraphs_known [OF assms])

theorem actionGraphs_accepts_known_witness:
  "\<not> (\<exists>rs. actionGraphs tagged_lib [''other''] [''other.x''] = Inr rs)"
proof -
  have "range_order (valueGraphBuckets [''other.x'']) [''other'']"
    by (auto simp: range_order_def dom_valueGraphBuckets)
  from actionGraphs_accepts_known [OF this, of tagged_lib] show ?thesis by simp
qed

text \<open>
  Printing the values of a response never fails on dictionaries of strings: each value gives one
  table with one row per entry, and only its first row shows the value's name.
\<close>

theorem printing_dictionaries:
  "value_tables header (map (\<lambda>(k, kt, kv, m). (k, Some (StringDictionary kt kv m))) ds) =
     Value (map (\<lambda>(k, kt, kv, m). header @
        (case range_entries m kv of
           [] \<Rightarrow> []
         | (n, v) # rest \<Rightarrow> [k, n, v] # map (\<lambda>(n, v). [[], n, v]) rest)) ds)"
proof (induction ds)
  case (Cons d ds)
  obtain k kt kv m where d: "d = (k, kt, kv, m)" by (cases d)
  have "field_rows k (tv_fields (StringDictionary kt kv m)) = Value
      (case range_entries m kv of
         [] \<Rightarrow> []
       | (n, v) # rest \<Rightarrow> [k, n, v] # map (\<lambda>(n, v). [[], n, v]) rest)"
    using field_rows_strings [of k "range_entries m kv"] by (simp add: StringDictionary_def)
  with Cons d show ?case by simp
qed simp

end
