(* ===== verification/System.thy ===== *)
theory System
  imports Evalctl
begin

text \<open>
  The services together. The backend is the cache in front of the builder and the runner; a step is
  one call some client makes, one task a worker handles, or a process that starts again, so the
  steps interleave freely. The predicate \<open>ok\<close> says which requests the clients make. Over the
  backend run the engine and the client, whose loops are sequences of these steps.
\<close>

section \<open>The backend as a step relation\<close>

type_synonym 'any backend = "('any, builder_state, runner_state) cache_world"

definition backend_init :: "'any backend" where
  "backend_init = (NewCacheBackend, builder_init, \<lparr>runner_jobs = []\<rparr>)"

text \<open>The answers of one \<open>Get\<close> are fresh when the identifiers in them were not used before.\<close>

definition fresh_answers :: "build_answers \<Rightarrow> cache_answers \<Rightarrow> 'any backend \<Rightarrow> bool" where
  "fresh_answers y ans w \<longleftrightarrow>
     builder_fresh y (fst (snd w)) \<and>
     (case cache_uuid ans of Inl e \<Rightarrow> True | Inr i \<Rightarrow> downstreamOperation (fst w) i = None)"

text \<open>The calls of the cache with the builder and the runner behind it.\<close>

definition backend_Get ::
    "'any proto_lib \<Rightarrow> build_answers \<Rightarrow> string list \<times> go_error option \<Rightarrow> cache_answers \<Rightarrow>
     'any backend \<Rightarrow> 'any get_request \<Rightarrow> (go_error + 'any operation) \<times> 'any backend" where
  "backend_Get L y job ans w req =
     cache_call_Get L (stubs_for (builder_call_Build y) (call_CreateJob (fst job) (snd job))) ans w req"

definition backend_GetOperation ::
    "'any proto_lib \<Rightarrow> registry_answers \<times> cache_answers \<Rightarrow> 'any backend \<Rightarrow> string \<Rightarrow>
     (go_error + 'any operation) \<times> 'any backend" where
  "backend_GetOperation L =
     (\<lambda>(reg, ans). cache_call_GetOperation L (builder_call_GetOperation L reg) ans)"

inductive backend_step ::
    "'any proto_lib \<Rightarrow> ('any get_request \<Rightarrow> bool) \<Rightarrow> 'any backend \<Rightarrow> 'any backend \<Rightarrow> bool"
  for L ok where
  step_Get: "ok req \<Longrightarrow> fresh_answers y ans w \<Longrightarrow> backend_Get L y job ans w req = (reply, w') \<Longrightarrow>
    backend_step L ok w w'"
| step_GetOperation: "backend_GetOperation L x w n = (reply, w') \<Longrightarrow> backend_step L ok w w'"
| step_Build: "builder_fresh y b \<Longrightarrow>
    builder_call_Build y b q = ((reply :: go_error + 'any operation), b') \<Longrightarrow>
    backend_step L ok (c, b, r) (c, b', r)"
| step_Worker: "Enqueue t \<in> set (builder_trace b) \<Longrightarrow>
    backend_step L ok (c, b, r) (c, builder_process wa b t, r)"
| step_Builder_restart: "backend_step L ok (c, b, r) (c, builder_restart b, r)"
| step_Cache_restart: "backend_step L ok w (cache_restart w)"

definition reachable :: "'any proto_lib \<Rightarrow> ('any get_request \<Rightarrow> bool) \<Rightarrow> 'any backend \<Rightarrow> bool" where
  "reachable L ok w \<longleftrightarrow> (backend_step L ok)\<^sup>*\<^sup>* backend_init w"

lemma reachable_init [intro]: "reachable L ok backend_init"
  by (simp add: reachable_def)

lemma reachable_step: "reachable L ok w \<Longrightarrow> backend_step L ok w w' \<Longrightarrow> reachable L ok w'"
  unfolding reachable_def by (rule rtranclp.rtrancl_into_rtrancl)

lemma reachable_induct [consumes 1, case_names init step]:
  assumes "reachable L ok w" and "P backend_init"
    and "\<And>w w'. reachable L ok w \<Longrightarrow> P w \<Longrightarrow> backend_step L ok w w' \<Longrightarrow> P w'"
  shows "P w"
  using assms(1) unfolding reachable_def
proof (induction rule: rtranclp_induct)
  case base
  then show ?case by (rule assms(2))
next
  case (step y z)
  then show ?case using assms(3) [of y z] by (simp add: reachable_def)
qed

section \<open>The invariant of the backend\<close>

abbreviation backend_inv :: "'any proto_lib \<Rightarrow> 'any backend \<Rightarrow> bool" where
  "backend_inv L \<equiv> cache_inv L builder_inv builder_serves builder_built"

lemma cache_call_Get_cases:
  assumes "cache_call_Get L st ans w req = (reply, w')"
  obtains r w1 where "cache_Get L st ans w req = (r, w1)" and "w' = w1 \<or> w' = cache_restart w1"
  using assms by (cases "cache_Get L st ans w req")
    (auto simp: cache_call_Get_def rpc_def split: run.splits sum.splits)

lemma backend_inv_Get:
  assumes "backend_inv L w" and "fresh_answers y ans w" and "backend_Get L y job ans w req = (reply, w')"
  shows "backend_inv L w'"
proof -
  from assms(3) obtain r w1 where
      g: "cache_Get L (stubs_for (builder_call_Build y) (call_CreateJob (fst job) (snd job))) ans w req = (r, w1)"
    and w': "w' = w1 \<or> w' = cache_restart w1"
    unfolding backend_Get_def by (rule cache_call_Get_cases)
  have fr: "builder_fresh y (fst (snd w))"
    "\<And>i. cache_uuid ans = Inr i \<Longrightarrow> downstreamOperation (fst w) i = None"
    using assms(2) by (simp_all add: fresh_answers_def)
  have "backend_inv L (snd (cache_Get L (stubs_for (builder_call_Build y)
      (call_CreateJob (fst job) (snd job))) ans w req))"
    by (rule builder.inv_Get [OF assms(1)]) (use fr in simp_all)
  with g have "backend_inv L w1" by simp
  with w' show ?thesis using builder.inv_restart by blast
qed

lemma backend_inv_GetOperation:
  assumes "proto_laws L" and "backend_inv L w" and "backend_GetOperation L x w n = (reply, w')"
  shows "backend_inv L w'"
  using builder.cache.invar_get [of L w x n] assms
  by (cases x) (simp add: backend_GetOperation_def)

lemma backend_inv_builder:
  assumes "backend_inv L (c, b, r)" and "builder_inv b'"
    and "set (builder_trace b) \<subseteq> set (builder_trace b')"
  shows "backend_inv L (c, b', r)"
  using assms(1,2) serves_mono [OF assms(3)] built_mono [OF assms(3)] by (rule cache_inv_mono)

lemma backend_inv_step:
  assumes "proto_laws L" and "backend_step L ok w w'" and "backend_inv L w"
  shows "backend_inv L w'"
  using assms(2,3)
proof cases
  case (step_Get req y ans job reply)
  with assms(3) show ?thesis using backend_inv_Get by blast
next
  case (step_GetOperation x n reply)
  with assms(1,3) show ?thesis using backend_inv_GetOperation by blast
next
  case (step_Build y b q reply b' c r)
  with assms(3) have "builder_inv b" by (simp add: cache_inv_simp)
  with step_Build have "builder_inv b'" using builder_inv_call_Build by blast
  moreover have "set (builder_trace b) \<subseteq> set (builder_trace b')"
    using step_Build trace_call_Build by blast
  ultimately show ?thesis using step_Build assms(3) backend_inv_builder by blast
next
  case (step_Worker t b c r wa)
  with assms(3) have "builder_inv b" by (simp add: cache_inv_simp)
  with step_Worker have "builder_inv (builder_process wa b t)"
    "set (builder_trace b) \<subseteq> set (builder_trace (builder_process wa b t))"
    using builder_process_state by blast+
  with step_Worker assms(3) show ?thesis using backend_inv_builder by blast
next
  case (step_Builder_restart c b r)
  with assms(3) have "builder_inv (builder_restart b)" by (simp add: cache_inv_simp)
  with step_Builder_restart assms(3) show ?thesis
    using backend_inv_builder [of L c b r "builder_restart b"] by simp
next
  case step_Cache_restart
  with assms(3) show ?thesis using builder.inv_restart by blast
qed

lemma reachable_inv:
  assumes "proto_laws L" and "reachable L ok w"
  shows "backend_inv L w"
  using assms(2)
proof (induction rule: reachable_induct)
  case init
  then show ?case by (simp add: backend_init_def cache_inv_init)
next
  case (step w w')
  then show ?case using backend_inv_step [OF assms(1)] by blast
qed


section \<open>Entries under the digest of their action\<close>

text \<open>
  A request asks for a build when its value names the action \<open>build\<close> of its graph and that action
  is an image build; this is what \<open>evalctl\<close> sends for \<open>image.build\<close>.
\<close>

definition asks_build :: "'any get_request \<Rightarrow> bool" where
  "asks_build req =
     (case gr_context req of
        None \<Rightarrow> False
      | Some ctx \<Rightarrow>
          (case ctx_actions ctx of
             None \<Rightarrow> False
           | Some g \<Rightarrow>
               (case ag_actions g ''build'' of
                  None \<Rightarrow> False
                | Some a \<Rightarrow>
                    act_kind a = ''build-image'' \<and>
                    (case GetAction (Some g) (gr_value req) of
                       Value (Inr main) \<Rightarrow> main = a
                     | _ \<Rightarrow> False))))"

definition entry_keyed :: "'any proto_lib \<Rightarrow> string \<Rightarrow> 'any cacheValue \<Rightarrow> bool" where
  "entry_keyed L d cv \<longleftrightarrow>
     (\<exists>a. cv_Action cv = Some a \<and> act_kind a = ''build-image'' \<and> ActionDigest L a = Inr d)"

definition cache_keyed :: "'any proto_lib \<Rightarrow> 'any cache_state \<Rightarrow> bool" where
  "cache_keyed L c \<longleftrightarrow>
     (\<forall>d cvs. cb_data c d = Some cvs \<longrightarrow> (\<forall>cv \<in> set cvs. entry_keyed L d cv))"

lemma cache_keyed_put:
  assumes "cache_keyed L c" and "entry_keyed L d cv"
    and "cb_data c' = (cb_data c)(d \<mapsto> slice_at (cb_data c) d @ [cv])"
  shows "cache_keyed L c'"
  using assms by (auto simp: cache_keyed_def slice_at_def split: option.splits if_splits)

lemma cache_keyed_same: "cache_keyed L c \<Longrightarrow> cb_data c' = cb_data c \<Longrightarrow> cache_keyed L c'"
  by (simp add: cache_keyed_def)

lemma createJob_fst [simp]: "fst (createJob st w) = fst w"
  by (simp add: createJob_def split: prod.splits)

lemma buildImage_fst: "fst (snd (buildImage st cfg w)) = fst w"
proof -
  obtain c b r where "w = (c, b, r)" by (cases w)
  then show ?thesis
    by (cases "bic_commit_point cfg") (auto simp: buildImage_def split: prod.splits)
qed

lemma fresh_build_data:
  assumes "fresh_build L st ans actions main w = (res, w')"
  shows "cb_data (fst w') = cb_data (fst w) \<or>
    (\<exists>d i a g. ActionDigest L main = Inr d \<and> actions = Some g \<and> ag_actions g ''build'' = Some a \<and>
       cb_data (fst w') = (cb_data (fst w))(d \<mapsto>
         slice_at (cb_data (fst w)) d @ [\<lparr>cv_Action = Some a, cv_Operation = i\<rparr>]))"
proof -
  consider (none) "w' = w"
    | (built) d g a op w1 where "ActionDigest L main = Inr d" "actions = Some g"
        "ag_actions g ''build'' = Some a"
        "buildImage st (fst (unpack_build_image_config L (act_config a))) w = (op, w1)"
        "run_then (op, w1) (register_build L ans d a) = (res, w')"
  proof (cases "\<exists>d g a. ActionDigest L main = Inr d \<and> actions = Some g \<and> ag_actions g ''build'' = Some a")
    case False
    with assms none show ?thesis
      by (cases "ActionDigest L main"; cases actions)
        (auto simp: fresh_build_def Execute_def deref_def split: option.splits)
  next
    case True
    then obtain d g a where d: "ActionDigest L main = Inr d" "actions = Some g"
      "ag_actions g ''build'' = Some a" by blast
    obtain op w1 where b: "buildImage st (fst (unpack_build_image_config L (act_config a))) w = (op, w1)"
      by (rule prod.exhaust)
    from d b assms have "run_then (op, w1) (register_build L ans d a) = (res, w')"
      by (simp add: fresh_build_def Execute_def)
    with d b built show ?thesis by blast
  qed
  then show ?thesis
  proof cases
    case none
    then show ?thesis by simp
  next
    case (built d g a op w1)
    have f: "fst w1 = fst w" using built(4) buildImage_fst by (metis snd_conv)
    show ?thesis
      using built(1-3,5) f
      by (cases op; cases w1)
        (auto simp: register_build_def CacheBackend_Put_def Let_def split: sum.splits)
  qed
qed

lemma cache_keyed_Get:
  assumes "cache_keyed L (fst w)" and "asks_build req" and "cache_Get L st ans w req = (res, w')"
  shows "cache_keyed L (fst w')"
proof -
  from assms(2) obtain ctx g a where a: "gr_context req = Some ctx" "ctx_actions ctx = Some g"
      "ag_actions g ''build'' = Some a" "act_kind a = ''build-image''"
      "GetAction (Some g) (gr_value req) = Value (Inr a)"
    by (auto simp: asks_build_def split: option.splits run.splits sum.splits)
  let ?w = "createJob st w"
  have "w' = ?w \<or> fresh_build L st ans (Some g) a ?w = (res, w')"
    using assms(3) a
    by (cases "CacheBackend_Get L (fst w) a")
      (auto simp: cache_Get_def EssentialActions_def Let_def split: if_splits sum.splits)
  then show ?thesis
  proof
    assume "w' = ?w"
    with assms(1) show ?thesis by simp
  next
    assume "fresh_build L st ans (Some g) a ?w = (res, w')"
    from fresh_build_data [OF this] a(3) consider
        "cb_data (fst w') = cb_data (fst w)"
      | d i where "ActionDigest L a = Inr d" "cb_data (fst w') = (cb_data (fst w))(d \<mapsto>
          slice_at (cb_data (fst w)) d @ [\<lparr>cv_Action = Some a, cv_Operation = i\<rparr>])"
      by auto
    then show ?thesis
    proof cases
      case 1
      with assms(1) show ?thesis by (rule cache_keyed_same)
    next
      case (2 d i)
      then have "entry_keyed L d \<lparr>cv_Action = Some a, cv_Operation = i\<rparr>"
        using a(4) by (simp add: entry_keyed_def)
      with assms(1) show ?thesis using 2(2) by (rule cache_keyed_put)
    qed
  qed
qed

lemma cache_GetOperation_data:
  assumes "cache_GetOperation L get ans w n = (r, w')"
  shows "cb_data (fst w') = cb_data (fst w)"
  using assms
  by (auto simp: cache_GetOperation_def poll_downstream_def Let_def
      split: prod.splits option.splits sum.splits if_splits)

lemma cache_keyed_restart: "cache_keyed L (fst w) \<Longrightarrow> cache_keyed L (fst (cache_restart w))"
  by (cases w) (simp add: cache_restart_def cache_keyed_def NewCacheBackend_def)

lemma reachable_keyed:
  assumes "reachable L asks_build w"
  shows "cache_keyed L (fst w)"
  using assms
proof (induction rule: reachable_induct)
  case init
  then show ?case by (simp add: backend_init_def cache_keyed_def NewCacheBackend_def)
next
  case (step w w')
  from step.hyps(2) show ?case
  proof cases
    case (step_Get req y ans job reply)
    from step_Get(3) obtain r w1 where
        g: "cache_Get L (stubs_for (builder_call_Build y) (call_CreateJob (fst job) (snd job))) ans w req =
          (r, w1)"
      and w': "w' = w1 \<or> w' = cache_restart w1"
      unfolding backend_Get_def by (rule cache_call_Get_cases)
    from step.IH step_Get(1) g have "cache_keyed L (fst w1)" by (rule cache_keyed_Get)
    with w' show ?thesis using cache_keyed_restart by blast
  next
    case (step_GetOperation x n reply)
    obtain reg ans where x: "x = (reg, ans)" by (cases x)
    obtain r w1 where g: "cache_GetOperation L (builder_call_GetOperation L reg) ans w n = (r, w1)"
      by (rule prod.exhaust)
    have "cache_keyed L (fst w1)"
      using step.IH cache_GetOperation_data [OF g] by (rule cache_keyed_same)
    moreover have "w' = w1 \<or> w' = cache_restart w1"
      using step_GetOperation g x
      by (auto simp: backend_GetOperation_def cache_call_GetOperation_def rpc_def
          split: run.splits sum.splits)
    ultimately show ?thesis using cache_keyed_restart by blast
  next
    case step_Cache_restart
    with step.IH show ?thesis using cache_keyed_restart by blast
  qed (use step.IH in simp_all)
qed

text \<open>
  A hit: the entry was put for a build whose targets include the requested ones and whose base image
  and commit point hash to the same digest, and the builder was asked for exactly that build.
\<close>

lemma CacheBackend_Get_Inr:
  assumes "CacheBackend_Get L c action = Value (Inr n)"
  obtains d cvs cv where "ActionDigest L action = Inr d" and "cb_data c d = Some cvs" and "cv \<in> set cvs"
    and "cv_Operation cv = n"
    and "answers_request L (fst (unpack_build_image_config L (act_config action))) cv"
proof -
  have first: "\<exists>cv \<in> set cvs. cv_Operation cv = n \<and> answers_request L cfg cv"
    if "first_compatible L cfg cvs = Value (Some n)" for cfg cvs
    using that
  proof (induction cvs)
    case (Cons cv cvs)
    then show ?case
      by (auto simp: answers_request_def split: option.splits prod.splits if_splits)
  qed simp
  from assms obtain d cvs where d: "ActionDigest L action = Inr d" "cb_data c d = Some cvs"
    and f: "first_compatible L (fst (unpack_build_image_config L (act_config action))) cvs = Value (Some n)"
    by (auto simp: CacheBackend_Get_def Let_def split: sum.splits option.splits run.splits if_splits)
  from first [OF f] d that show ?thesis by blast
qed


text \<open>A hit under keyed entries was built for the same digest and at least the same targets.\<close>

lemma hit_is_backed:
  assumes "backend_inv L (c, b, r)" and "cache_keyed L c"
    and "CacheBackend_Get L c action = Value (Inr n)" and "act_kind action = ''build-image''"
    and "unpack_build_image_config L (act_config action) = (new, None)"
  shows "\<exists>old cp m. downstreamOperation c n = Some m \<and> bic_commit_point old = Some cp \<and>
    builder_serves b m (requested cp old) \<and>
    set (bic_bazel_targets new) \<subseteq> set (bic_bazel_targets old) \<and>
    sha256 (digest_input L old) = sha256 (digest_input L new)"
proof -
  from assms(3) obtain d cvs cv where d: "ActionDigest L action = Inr d" "cb_data c d = Some cvs"
      "cv \<in> set cvs" "cv_Operation cv = n" "answers_request L new cv"
    by (rule CacheBackend_Get_Inr) (use assms(5) in simp)
  from d(5) obtain a old where a: "cv_Action cv = Some a"
      "unpack_build_image_config L (act_config a) = (old, None)" "Compatible new old"
    by (auto simp: answers_request_def)
  have "entry_backed L builder_serves c b cv"
    using assms(1) d(2,3) by (auto simp: cache_inv_simp)
  with a d(4) obtain cp m where m: "bic_commit_point old = Some cp" "downstreamOperation c n = Some m"
      "builder_serves b m (requested cp old)"
    by (auto simp: entry_backed_def)
  have "entry_keyed L d cv"
    using assms(2) d(2,3) by (auto simp: cache_keyed_def)
  with a have "d = hex_string (sha256 (digest_input L old))"
    by (auto simp: entry_keyed_def ActionDigest_build)
  moreover have "d = hex_string (sha256 (digest_input L new))"
    using ActionDigest_build [OF assms(4,5)] d(1) by simp
  ultimately have "sha256 (digest_input L old) = sha256 (digest_input L new)"
    by (simp add: hex_string_inj)
  with m a(3) show ?thesis by (auto simp: Compatible_iff)
qed

section \<open>What a poll answers\<close>

text \<open>The response of the cache for a finished build: the image as a dictionary.\<close>

definition image_response :: "cache_answers \<Rightarrow> build_response \<Rightarrow> get_response" where
  "image_response ans resp =
     \<lparr>gresp_name = [],
      gresp_value = Some (StringDictionary (cache_type_order ans) (cache_value_order ans)
        (image_info resp))\<rparr>"

text \<open>Polling an operation whose last result was not final asks the builder for its operation.\<close>

lemma cache_GetOperation_poll:
  assumes "\<And>res. cb_upstream (fst w) n = Some res \<Longrightarrow> \<not> op_done res"
  shows "cache_GetOperation L get ans w n = poll_downstream L get ans w n"
  using assms by (cases w) (auto simp: cache_GetOperation_def split: option.splits)

lemma poll_downstream_Inr:
  assumes "poll_downstream L get ans (c, b, r) n = (Value (Inr v), w')"
    and "downstreamOperation c n = Some m"
  obtains opn b' resp where "get b m = (Inr opn, b')"
    and "w' = (c\<lparr>cb_upstream := (cb_upstream c)(n \<mapsto> opn)\<rparr>, b', r)"
    and "(if op_done opn then unpack_build_response L (GetResponse opn)
          else (zero_build_response, None)) = (resp, None)"
    and "respond L n (op_done opn) (image_response ans resp) = Value (Inr v)"
proof -
  from assms obtain opn b' where g: "get b m = (Inr opn, b')"
    by (auto simp: poll_downstream_def split: sum.splits prod.splits)
  obtain resp err where u: "(if op_done opn then unpack_build_response L (GetResponse opn)
      else (zero_build_response, None)) = (resp, err)" by (rule prod.exhaust)
  from assms g u have "err = None"
    by (cases err) (auto simp: poll_downstream_def Let_def)
  with assms g u that show ?thesis
    by (auto simp: poll_downstream_def image_response_def Let_def)
qed

lemma respond_Inr:
  assumes "proto_laws L" and "respond L n d resp = Value (Inr v)"
  shows "op_name v = n \<and> op_done v = d \<and> unpack_get_response L (GetResponse v) = (resp, None)"
  using assms by (auto simp: respond_def proto_facts split: sum.splits)

lemma respond_total:
  assumes "proto_laws L" and "packs_all (pack_get_response L)"
  obtains v where "respond L n d resp = Value (Inr v)" and "op_name v = n" and "op_done v = d"
    and "unpack_get_response L (GetResponse v) = (resp, None)"
proof -
  obtain a where "pack_get_response L resp = Inr a" using assms(2) by (auto simp: packs_all_def)
  with assms(1) show ?thesis
    by (intro that [of "reply_operation n d a"]) (simp_all add: respond_def proto_facts)
qed

section \<open>Polling one evaluation\<close>

text \<open>
  The engine over the backend: its stub is what the client polls. What the environment answers
  during a poll may depend on the world.
\<close>

type_synonym 'any deployed = "engine_state \<times> 'any backend"

definition engine_poll ::
    "'any proto_lib \<Rightarrow> (engine_effect list \<Rightarrow> string \<Rightarrow> OperationRow list) \<Rightarrow>
     ('any deployed \<Rightarrow> nat \<Rightarrow> registry_answers \<times> cache_answers) \<Rightarrow> 'any deployed \<Rightarrow> string \<Rightarrow>
     (go_error + 'any operation) \<times> 'any deployed" where
  "engine_poll L load env w n =
     engine_call_GetOperation L load (\<lambda>i. backend_GetOperation L (env w i)) w n"

text \<open>What the builder answers for a build it has marked done.\<close>

definition built_response :: "registry_answers \<Rightarrow> builder_state \<Rightarrow> string \<Rightarrow> build_response" where
  "built_response reg b m =
     \<lparr>bresp_response = ''will be nicer (but is real): '' @ m,
      bresp_imageName = bi_ImageName (info_at b m),
      bresp_imageTag = bi_ImageTag (info_at b m),
      bresp_imageDigest =
        (case getDigest reg (bi_ImageName (info_at b m)) (bi_ImageTag (info_at b m)) of
           Inl err \<Rightarrow> [] | Inr d \<Rightarrow> d)\<rparr>"

lemma builder_GetOperation_done:
  assumes "buildDone b m = Some True" and "pack_build_response L (built_response reg b m) = Inr a"
  shows "builder_call_GetOperation L reg b m = (Inr (reply_operation m True a), b)"
  using assms
  by (simp add: builder_call_GetOperation_def builder_GetOperation_def built_response_def
      reply_operation_def Let_def)

lemma builder_GetOperation_pending:
  assumes "buildDone b m \<noteq> Some True"
  shows "builder_call_GetOperation L reg b m =
    (Inr \<lparr>op_name = m, op_done = False, op_metadata = None, op_result = None\<rparr>, b)"
  using assms by (simp add: builder_call_GetOperation_def builder_GetOperation_def)

definition runtime_ok :: "'any proto_lib \<Rightarrow> bool" where
  "runtime_ok L \<longleftrightarrow> proto_laws L \<and> packs_all (pack_build_response L) \<and>
     packs_all (pack_get_response L) \<and> packs_all (pack_eval_response L)"

text \<open>The cache waits for the builder: it knows the operation and holds no final result for it.\<close>

definition waits_for :: "'any cache_state \<Rightarrow> string \<Rightarrow> string \<Rightarrow> bool" where
  "waits_for c n m \<longleftrightarrow>
     downstreamOperation c n = Some m \<and>
     (case cb_upstream c n of None \<Rightarrow> True | Some res \<Rightarrow> \<not> op_done res)"

lemma waits_for_poll:
  "waits_for c n m \<Longrightarrow> cache_GetOperation L get ans (c, b, r) n = poll_downstream L get ans (c, b, r) n"
  by (rule cache_GetOperation_poll) (auto simp: waits_for_def)

lemma backend_poll_done:
  assumes ok: "runtime_ok L" and "waits_for c n m" and "buildDone b m = Some True"
  obtains v a where
    "backend_GetOperation L (reg, ans) (c, b, r) n =
       (Inr v, (c\<lparr>cb_upstream := (cb_upstream c)(n \<mapsto> reply_operation m True a)\<rparr>, b, r))"
    "op_done v" "unpack_get_response L (GetResponse v) = (image_response ans (built_response reg b m), None)"
    "pack_build_response L (built_response reg b m) = Inr a"
proof -
  obtain a where a: "pack_build_response L (built_response reg b m) = Inr a"
    using ok by (metis runtime_ok_def packs_all_def)
  have laws: "proto_laws L" "packs_all (pack_get_response L)" using ok by (simp_all add: runtime_ok_def)
  from laws obtain v where v: "respond L n True (image_response ans (built_response reg b m)) = Value (Inr v)"
      "op_done v" "unpack_get_response L (GetResponse v) = (image_response ans (built_response reg b m), None)"
    by (rule respond_total [where n = n and d = True
        and resp = "image_response ans (built_response reg b m)"]) simp
  have "unpack_build_response L (Some a) = (built_response reg b m, None)"
    using laws(1) a by (rule proto_laws_unpack(3))
  with assms(2) have "poll_downstream L (builder_call_GetOperation L reg) ans (c, b, r) n =
      (Value (Inr v), (c\<lparr>cb_upstream := (cb_upstream c)(n \<mapsto> reply_operation m True a)\<rparr>, b, r))"
    using builder_GetOperation_done [OF assms(3) a] v(1)
    by (simp add: poll_downstream_def waits_for_def image_response_def Let_def)
  with assms(2) v(2,3) a show ?thesis
    by (intro that [of v a])
      (simp_all add: backend_GetOperation_def cache_call_GetOperation_def waits_for_poll)
qed

lemma backend_poll_pending:
  assumes ok: "runtime_ok L" and "waits_for c n m" and "buildDone b m \<noteq> Some True"
  obtains v c' where "backend_GetOperation L (reg, ans) (c, b, r) n = (Inr v, (c', b, r))"
    and "\<not> op_done v" and "waits_for c' n m"
proof -
  let ?op = "\<lparr>op_name = m, op_done = False, op_metadata = None, op_result = None\<rparr>"
  have laws: "proto_laws L" "packs_all (pack_get_response L)" using ok by (simp_all add: runtime_ok_def)
  from laws obtain v where v: "respond L n False (image_response ans zero_build_response) = Value (Inr v)"
      "\<not> op_done v"
    by (rule respond_total [where n = n and d = False and resp = "image_response ans zero_build_response"]) simp
  with assms(2) have "poll_downstream L (builder_call_GetOperation L reg) ans (c, b, r) n =
      (Value (Inr v), (c\<lparr>cb_upstream := (cb_upstream c)(n \<mapsto> ?op)\<rparr>, b, r))"
    by (simp add: poll_downstream_def waits_for_def image_response_def Let_def
        builder_GetOperation_pending [OF assms(3)])
  with assms(2) v(2) show ?thesis
    by (intro that [of v "c\<lparr>cb_upstream := (cb_upstream c)(n \<mapsto> ?op)\<rparr>"])
      (simp_all add: backend_GetOperation_def cache_call_GetOperation_def waits_for_poll,
       simp add: waits_for_def)
qed

text \<open>The engine's answer for an evaluation of one value, while the build runs and when it is done.\<close>

lemma eval_reply_total:
  assumes "packs_all (pack_eval_response L)"
  obtains a where "eval_reply L n d results = Value (Inr (reply_operation n d a))"
    and "pack_eval_response L \<lparr>eresp_values = results\<rparr> = Inr a"
  using assms by (auto simp: eval_reply_def packs_all_def split: sum.splits)

lemma engine_poll_pending:
  assumes ok: "runtime_ok L" and row: "load (engine_trace e) n = [row]"
    and "waits_for c (or_DependentID row) m" and "buildDone b m \<noteq> Some True"
  obtains v c' where "engine_poll L load env (e, c, b, r) n = (Inr v, (e, c', b, r))"
    and "op_name v = n" and "\<not> op_done v" and "waits_for c' (or_DependentID row) m"
proof -
  obtain reg ans where x: "env (e, c, b, r) 0 = (reg, ans)" by (rule prod.exhaust)
  from ok assms(3,4) obtain v c' where
      g: "backend_GetOperation L (reg, ans) (c, b, r) (or_DependentID row) = (Inr v, (c', b, r))"
      "\<not> op_done v" "waits_for c' (or_DependentID row) m" by (rule backend_poll_pending)
  obtain a where "eval_reply L n False Map.empty = Value (Inr (reply_operation n False a))"
    using ok by (metis runtime_ok_def eval_reply_total)
  with g row x show ?thesis
    by (intro that [of "reply_operation n False a" c'])
      (simp_all add: engine_poll_def engine_call_GetOperation_def engine_GetOperation_def)
qed

definition image_values ::
    "registry_answers \<Rightarrow> cache_answers \<Rightarrow> builder_state \<Rightarrow> string \<Rightarrow> OperationRow \<Rightarrow> eval_response" where
  "image_values reg ans b m row =
     \<lparr>eresp_values = [or_Value row \<mapsto> gresp_value (image_response ans (built_response reg b m))]\<rparr>"

lemma eval_response_eta: "\<lparr>eresp_values = eresp_values v\<rparr> = v"
  by (cases v) simp

lemma wire_image_values: "wire_eval_response (image_values reg ans b m row) = image_values reg ans b m row"
  by (auto simp: wire_eval_response_def image_values_def image_response_def)

lemma engine_poll_done:
  assumes ok: "runtime_ok L" and row: "load (engine_trace e) n = [row]"
    and "waits_for c (or_DependentID row) m" and "buildDone b m = Some True"
  obtains v c' a where "engine_poll L load env (e, c, b, r) n = (Inr v, (e, c', b, r))"
    and "op_name v = n" and "op_done v"
    and "unpack_eval_response L (GetResponse v) =
      (image_values (fst (env (e, c, b, r) 0)) (snd (env (e, c, b, r) 0)) b m row, None)"
    and "cb_upstream c' (or_DependentID row) = Some (reply_operation m True a)"
    and "pack_build_response L (built_response (fst (env (e, c, b, r) 0)) b m) = Inr a"
proof -
  obtain reg ans where x: "env (e, c, b, r) 0 = (reg, ans)" by (rule prod.exhaust)
  from ok assms(3,4) obtain v a where
      g: "backend_GetOperation L (reg, ans) (c, b, r) (or_DependentID row) =
        (Inr v, (c\<lparr>cb_upstream := (cb_upstream c)(or_DependentID row \<mapsto> reply_operation m True a)\<rparr>, b, r))"
      "op_done v" "unpack_get_response L (GetResponse v) = (image_response ans (built_response reg b m), None)"
      "pack_build_response L (built_response reg b m) = Inr a"
    by (rule backend_poll_done)
  let ?vals = "image_values reg ans b m row"
  obtain a' where a': "eval_reply L n True (eresp_values ?vals) = Value (Inr (reply_operation n True a'))"
      "pack_eval_response L \<lparr>eresp_values = eresp_values ?vals\<rparr> = Inr a'"
    using ok by (metis runtime_ok_def eval_reply_total)
  have "unpack_eval_response L (Some a') = (wire_eval_response \<lparr>eresp_values = eresp_values ?vals\<rparr>, None)"
    using ok a'(2) by (simp add: runtime_ok_def proto_laws_unpack(5))
  then have un: "unpack_eval_response L (Some a') = (?vals, None)"
    by (simp add: eval_response_eta wire_image_values)
  from g a' row x have "engine_poll L load env (e, c, b, r) n = (Inr (reply_operation n True a'),
      (e, c\<lparr>cb_upstream := (cb_upstream c)(or_DependentID row \<mapsto> reply_operation m True a)\<rparr>, b, r))"
    by (simp add: engine_poll_def engine_call_GetOperation_def engine_GetOperation_def image_values_def)
  with un g(4) x show ?thesis
    by (intro that [of "reply_operation n True a'"
          "c\<lparr>cb_upstream := (cb_upstream c)(or_DependentID row \<mapsto> reply_operation m True a)\<rparr>" a])
      simp_all
qed


text \<open>A cache that has just started says done, without a result, of every operation.\<close>

lemma engine_poll_unknown:
  assumes "proto_laws L" and "load (engine_trace e) n = row # rows"
  shows "engine_GetOperation L load (\<lambda>i. backend_GetOperation L (xs i)) (e, cache_restart w) n =
    (Exited ''Cannot unmarhshal result'', (e, cache_restart w))"
proof -
  obtain c b r where w: "w = (c, b, r)" by (rule prod_cases3)
  obtain reg ans where x: "xs 0 = (reg, ans)" by (rule prod.exhaust)
  obtain err where "unpack_get_response L None = (zero_get_response, Some err)"
    using assms(1) proto_laws_nil(4) by blast
  with assms(2) x show ?thesis
    by (simp add: w engine_GetOperation_def backend_GetOperation_def cache_call_GetOperation_def
        cache_GetOperation_def poll_downstream_def cache_restart_def NewCacheBackend_def GetResponse_def)
qed

section \<open>Polling until the build is done\<close>

text \<open>
  While the client sleeps, the builder and the runner do anything, which includes that the builder
  restarts and forgets what it recorded; the engine and the cache do not move, so nobody else calls
  them and neither restarts.
\<close>

definition idle :: "('any deployed \<Rightarrow> 'any deployed) \<Rightarrow> bool" where
  "idle sleep \<longleftrightarrow> (\<forall>e c b r. \<exists>b' r'. sleep (e, c, b, r) = (e, c, b', r'))"

definition builder_of :: "'any deployed \<Rightarrow> builder_state" where
  "builder_of w = fst (snd (snd w))"

lemma builder_of_simp [simp]: "builder_of (e, c, b, r) = b"
  by (simp add: builder_of_def)

lemma polls_wait:
  assumes ok: "runtime_ok L" and row: "load (engine_trace e) n = [row]" and idle: "idle sleep"
    and "waits_for c (or_DependentID row) m"
    and "\<And>i. i < j \<Longrightarrow>
      buildDone (builder_of (poll_world (engine_poll L load env) sleep n i (e, c, b, r))) m \<noteq> Some True"
  shows "\<exists>c' b' r'. poll_world (engine_poll L load env) sleep n j (e, c, b, r) = (e, c', b', r') \<and>
    waits_for c' (or_DependentID row) m"
  using assms(5)
proof (induction j)
  case 0
  with assms(4) show ?case by simp
next
  case (Suc j)
  let ?get = "engine_poll L load env"
  from Suc obtain c1 b1 r1 where
      w1: "poll_world ?get sleep n j (e, c, b, r) = (e, c1, b1, r1)" "waits_for c1 (or_DependentID row) m"
    by auto
  with Suc.prems [of j] have "buildDone b1 m \<noteq> Some True" by simp
  with ok row w1(2) obtain v c2 where
      "?get (e, c1, b1, r1) n = (Inr v, (e, c2, b1, r1))" "waits_for c2 (or_DependentID row) m"
    by (rule engine_poll_pending)
  moreover obtain b2 r2 where "sleep (e, c2, b1, r1) = (e, c2, b2, r2)"
    using idle unfolding idle_def by metis
  ultimately show ?case using w1(1) by (simp add: poll_world_step)
qed

lemma await_completes:
  assumes ok: "runtime_ok L" and row: "load (engine_trace e) n = [row]" and idle: "idle sleep"
    and wait: "waits_for c (or_DependentID row) m" and opn: "op_name opn = n" "\<not> op_done opn"
    and fin: "buildDone (builder_of (poll_world (engine_poll L load env) sleep n k (e, c, b, r))) m = Some True"
  obtains v w' reg ans b' where
    "await (engine_poll L load env) sleep opn (e, c, b, r) = Some (Value v, w')"
    "op_done v" "unpack_eval_response L (GetResponse v) = (image_values reg ans b' m row, None)"
    "buildDone b' m = Some True"
    "\<exists>j. b' = builder_of (poll_world (engine_poll L load env) sleep n j (e, c, b, r)) \<and>
      (\<forall>i < j. buildDone (builder_of (poll_world (engine_poll L load env) sleep n i (e, c, b, r))) m \<noteq> Some True)"
    "\<exists>x. env x 0 = (reg, ans)"
proof -
  let ?get = "engine_poll L load env"
  let ?W = "\<lambda>j. poll_world ?get sleep n j (e, c, b, r)"
  define K where "K = (LEAST j. buildDone (builder_of (?W j)) m = Some True)"
  have K: "buildDone (builder_of (?W K)) m = Some True"
    unfolding K_def by (rule LeastI [of _ k]) (rule fin)
  have before: "buildDone (builder_of (?W j)) m \<noteq> Some True" if "j < K" for j
    using that not_less_Least unfolding K_def by blast
  have world: "\<exists>c' b' r'. ?W j = (e, c', b', r') \<and> waits_for c' (or_DependentID row) m" if "j \<le> K" for j
    using before that by (intro polls_wait [where load = load, OF ok row idle wait]) simp
  from world [of K] obtain cK bK rK where WK: "?W K = (e, cK, bK, rK)" "waits_for cK (or_DependentID row) m"
    by auto
  with K have dK: "buildDone bK m = Some True" by simp
  from ok row WK(2) dK obtain v cv a where
      g: "?get (e, cK, bK, rK) n = (Inr v, (e, cv, bK, rK))" "op_done v"
        "unpack_eval_response L (GetResponse v) =
          (image_values (fst (env (e, cK, bK, rK) 0)) (snd (env (e, cK, bK, rK) 0)) bK m row, None)"
    by (rule engine_poll_done)
  have "\<exists>r w'. ?get (?W j) n = (Inr r, w') \<and> op_name r = n \<and> \<not> op_done r" if "j < K" for j
  proof -
    from world [of j] that obtain c1 b1 r1 where
        w1: "?W j = (e, c1, b1, r1)" "waits_for c1 (or_DependentID row) m" by auto
    with before [OF that] have "buildDone b1 m \<noteq> Some True" by simp
    with ok row w1(2) show ?thesis
      by (rule engine_poll_pending [where env = env and r = r1]) (use w1(1) in auto)
  qed
  moreover have "?get (?W K) n = (Inr v, (e, cv, bK, rK))"
    unfolding WK(1) by (rule g(1))
  ultimately have "await ?get sleep opn (e, c, b, r) = Some (Value v, sleep (e, cv, bK, rK))"
    by (rule await_returns [OF opn _ _ g(2)])
  moreover have "bK = builder_of (?W K)" using WK(1) by simp
  moreover have "\<exists>x. env x 0 = (fst (env (e, cK, bK, rK) 0), snd (env (e, cK, bK, rK) 0))"
    by (metis prod.collapse)
  ultimately show ?thesis using g(2,3) dK before that by blast
qed

text \<open>The client sleeps while the builder's workers do \<open>work\<close>.\<close>

definition sleeping :: "(builder_state \<Rightarrow> builder_state) \<Rightarrow> 'any deployed \<Rightarrow> 'any deployed" where
  "sleeping work w = (case w of (e, c, b, r) \<Rightarrow> (e, c, work b, r))"

lemma sleeping_simp [simp]: "sleeping work (e, c, b, r) = (e, c, work b, r)"
  by (simp add: sleeping_def)

lemma idle_sleeping: "idle (sleeping work)"
  by (simp add: idle_def)

lemma polls_work:
  assumes ok: "runtime_ok L" and row: "load (engine_trace e) n = [row]"
    and "waits_for c (or_DependentID row) m"
    and "\<And>i. i < j \<Longrightarrow> buildDone
      (builder_of (poll_world (engine_poll L load env) (sleeping work) n i (e, c, b, r))) m \<noteq> Some True"
  shows "builder_of (poll_world (engine_poll L load env) (sleeping work) n j (e, c, b, r)) = (work ^^ j) b"
  using assms(4)
proof (induction j)
  case 0
  then show ?case by simp
next
  case (Suc j)
  let ?get = "engine_poll L load env"
  have pend: "buildDone (builder_of (poll_world ?get (sleeping work) n i (e, c, b, r))) m \<noteq> Some True"
    if "i < j" for i using Suc.prems that by simp
  from polls_wait [where load = load, OF ok row idle_sleeping assms(3) pend] obtain c1 b1 r1 where
      w1: "poll_world ?get (sleeping work) n j (e, c, b, r) = (e, c1, b1, r1)"
      "waits_for c1 (or_DependentID row) m" by blast
  with Suc.prems [of j] have "buildDone b1 m \<noteq> Some True" by simp
  with ok row w1(2) obtain v c2 where "?get (e, c1, b1, r1) n = (Inr v, (e, c2, b1, r1))"
    by (rule engine_poll_pending)
  moreover have "(work ^^ j) b = b1" using Suc.IH [OF pend] w1(1) by simp
  ultimately show ?case using w1(1) by (simp add: poll_world_step)
qed


section \<open>What reaches the runner\<close>

lemma createJob_runner:
  "snd (snd (createJob (stubs_for bld (call_CreateJob ks create)) w)) = snd (snd w)"
  by (cases w) (simp add: createJob_def call_CreateJob_def CreateJob_nil_graph runner_restart_def)

lemma buildImage_runner: "snd (snd (snd (buildImage st cfg w))) = snd (snd w)"
proof -
  obtain c b r where "w = (c, b, r)" by (rule prod_cases3)
  then show ?thesis
    by (cases "bic_commit_point cfg") (auto simp: buildImage_def split: prod.splits)
qed

lemma register_build_runner:
  "snd (snd (snd (register_build L ans d a operation w))) = snd (snd w)"
  by (auto simp: register_build_def Let_def split: sum.splits prod.splits)

lemma fresh_build_runner: "snd (snd (snd (fresh_build L st ans actions main w))) = snd (snd w)"
proof (cases "ActionDigest L main")
  case (Inr d)
  show ?thesis
    unfolding fresh_build_def Inr sum.case Let_def
    by (rule run_then_state [where P = "\<lambda>x. snd (snd x) = snd (snd w)"],
        simp, rule run_then_state [where P = "\<lambda>x. snd (snd x) = snd (snd w)"],
        simp, rule run_then_state [where P = "\<lambda>x. snd (snd x) = snd (snd w)"],
        simp, rule run_then_state [where P = "\<lambda>x. snd (snd x) = snd (snd w)"])
      (simp_all add: buildImage_runner register_build_runner)
qed (simp add: fresh_build_def)

lemma cache_Get_runner:
  "snd (snd (snd (cache_Get L (stubs_for bld (call_CreateJob ks create)) ans w req))) = snd (snd w)"
  unfolding cache_Get_def Let_def
  by (rule run_then_state [where P = "\<lambda>x. snd (snd x) = snd (snd w)"], simp,
      rule run_then_state [where P = "\<lambda>x. snd (snd x) = snd (snd w)"], simp,
      auto simp: fresh_build_runner createJob_runner run_then_def split: sum.splits prod.splits run.splits)

end
