(* ===== verification/Backend_Spec.thy ===== *)
theory Backend_Spec
  imports System
begin

text \<open>
  What the backend promises, as an abstract machine: the operations the cache knows, each in one of
  three phases. Its state says nothing of builds, digests, messages or stubs. The cache, the builder
  and the runner together refine it.
\<close>

section \<open>Refinement\<close>

text \<open>
  A concrete relation refines an abstract one when an invariant is kept and every step is, seen
  through \<open>abs\<close>, an abstract step. Then runs are runs, and what abstract steps keep is kept.
\<close>

locale refinement =
  fixes cstep :: "'c \<Rightarrow> 'c \<Rightarrow> bool"
    and astep :: "'a \<Rightarrow> 'a \<Rightarrow> bool"
    and abs :: "'c \<Rightarrow> 'a"
    and inv :: "'c \<Rightarrow> bool"
  assumes inv_step: "inv w \<Longrightarrow> cstep w w' \<Longrightarrow> inv w'"
    and simulates: "inv w \<Longrightarrow> cstep w w' \<Longrightarrow> astep (abs w) (abs w')"
begin

lemma runs:
  assumes "inv w" and "cstep\<^sup>*\<^sup>* w w'"
  shows "inv w' \<and> astep\<^sup>*\<^sup>* (abs w) (abs w')"
  using assms(2)
proof (induction rule: rtranclp_induct)
  case base
  with assms(1) show ?case by simp
next
  case (step w1 w2)
  with inv_step simulates show ?case by (blast intro: rtranclp.rtrancl_into_rtrancl)
qed

lemma kept:
  assumes "inv w" and "cstep\<^sup>*\<^sup>* w w'" and "P (abs w)"
    and "\<And>s s'. astep s s' \<Longrightarrow> P s \<Longrightarrow> P s'"
  shows "P (abs w')"
proof -
  have "astep\<^sup>*\<^sup>* (abs w) (abs w')" using runs [OF assms(1,2)] by blast
  then show ?thesis
    by (induction rule: rtranclp_induct) (use assms(3,4) in blast)+
qed

end

section \<open>The abstract machine\<close>

text \<open>
  An operation waits for its build; its build is finished, which only the builder's memory says; or
  the cache holds its final result.
\<close>

datatype phase = Waiting | Built | Held

type_synonym operations = "string \<rightharpoonup> phase"

definition forget :: "operations \<Rightarrow> operations" where
  "forget s n = (if s n = Some Built then Some Waiting else s n)"

definition finish :: "string set \<Rightarrow> operations \<Rightarrow> operations" where
  "finish N s n = (if n \<in> N \<and> s n = Some Waiting then Some Built else s n)"

text \<open>
  A new operation starts, builds finish, a poll takes the result of a finished build, the builder
  starts again and forgets which builds are finished, the cache starts again and forgets every
  operation, or nothing a client can see happens.
\<close>

inductive spec_step :: "operations \<Rightarrow> operations \<Rightarrow> bool" where
  spec_start: "s n = None \<Longrightarrow> spec_step s (s(n \<mapsto> Waiting))"
| spec_finish: "spec_step s (finish N s)"
| spec_poll: "s n = Some Built \<Longrightarrow> spec_step s (s(n \<mapsto> Held))"
| spec_forget: "spec_step s (forget s)"
| spec_crash: "spec_step s Map.empty"
| spec_silent: "spec_step s s"

inductive_cases spec_stepE: "spec_step s s'"

text \<open>What a client of the machine sees: unknown operations are said to be done as well.\<close>

definition spec_done :: "operations \<Rightarrow> string \<Rightarrow> bool" where
  "spec_done s n \<longleftrightarrow> s n \<noteq> Some Waiting"

section \<open>The abstraction\<close>

definition phase_of :: "'any cache_state \<Rightarrow> builder_state \<Rightarrow> string \<Rightarrow> string \<Rightarrow> phase" where
  "phase_of c b n m =
     (if (case cb_upstream c n of None \<Rightarrow> False | Some res \<Rightarrow> op_done res) then Held
      else if buildDone b m = Some True then Built
      else Waiting)"

definition operations_of :: "'any backend \<Rightarrow> operations" where
  "operations_of w =
     (case w of (c, b, r) \<Rightarrow> \<lambda>n.
        (case downstreamOperation c n of None \<Rightarrow> None | Some m \<Rightarrow> Some (phase_of c b n m)))"

lemma operations_of_simp:
  "operations_of (c, b, r) n =
     (case downstreamOperation c n of None \<Rightarrow> None | Some m \<Rightarrow> Some (phase_of c b n m))"
  by (simp add: operations_of_def)

lemma phase_Held_iff: "phase_of c b n m = Held \<longleftrightarrow> (\<exists>res. cb_upstream c n = Some res \<and> op_done res)"
  by (simp add: phase_of_def split: option.splits)

lemma operations_crash: "operations_of (cache_restart w) = Map.empty"
  by (cases w) (auto simp: cache_restart_def operations_of_simp NewCacheBackend_def)

lemma operations_same:
  "buildDone b' = buildDone b \<Longrightarrow> operations_of (c, b', r') = operations_of (c, b, r)"
  by (rule ext) (simp add: operations_of_simp phase_of_def split: option.split)

lemma operations_forget:
  "buildDone b' = Map.empty \<Longrightarrow> operations_of (c, b', r') = forget (operations_of (c, b, r))"
  by (rule ext) (auto simp: operations_of_simp phase_of_def forget_def split: option.split)

lemma operations_finish:
  "buildDone b' = (buildDone b)(m \<mapsto> True) \<Longrightarrow>
     operations_of (c, b', r') = finish {n. downstreamOperation c n = Some m} (operations_of (c, b, r))"
  by (rule ext) (auto simp: operations_of_simp phase_of_def finish_def split: option.split)

lemma operations_start:
  assumes "cb_upstream c i = None" and "buildDone b m \<noteq> Some True"
  shows "operations_of (CacheBackend_Put d i a
      (c\<lparr>downstreamOperation := (downstreamOperation c)(i \<mapsto> m)\<rparr>), b, r) =
    (operations_of (c, b, r))(i \<mapsto> Waiting)"
  by (rule ext) (use assms in \<open>auto simp: operations_of_simp phase_of_def CacheBackend_Put_def split: option.split\<close>)

lemma operations_answer:
  assumes "downstreamOperation c n = Some m" and "op_done v \<longleftrightarrow> buildDone b m = Some True"
    and "phase_of c b n m \<noteq> Held"
  shows "operations_of (c\<lparr>cb_upstream := (cb_upstream c)(n \<mapsto> v)\<rparr>, b, r) =
    (if op_done v then (operations_of (c, b, r))(n \<mapsto> Held) else operations_of (c, b, r))"
  by (rule ext) (use assms in \<open>auto simp: operations_of_simp phase_of_def split: option.splits if_splits\<close>)

lemma spec_step_crash: "spec_step s (operations_of (cache_restart w))"
  by (simp add: operations_crash spec_crash)

text \<open>A builder that may have started again, or not.\<close>

lemma spec_step_builder:
  assumes "buildDone b' = buildDone b \<or> buildDone b' = Map.empty"
  shows "spec_step (operations_of (c, b, r)) (operations_of (c, b', r'))"
  using assms
proof
  assume "buildDone b' = buildDone b"
  from operations_same [OF this] show ?thesis using spec_silent by metis
next
  assume "buildDone b' = Map.empty"
  from operations_forget [OF this] show ?thesis using spec_forget by metis
qed

section \<open>What each step does to the operations\<close>

lemma call_Build_done:
  fixes reply :: "go_error + 'any operation"
  assumes "builder_call_Build y b q = (reply, b')"
  shows "buildDone b' = buildDone b \<or> buildDone b' = Map.empty"
  using assms
proof (rule builder_call_Build_state)
  fix r1 :: "(go_error + 'any operation) run" and s1
  assume "Build y b q = (r1, s1)" and "b' = s1 \<or> b' = builder_restart s1"
  then show ?thesis using Build_state(2) by fastforce
qed

lemma call_Build_Inr:
  assumes "builder_call_Build y b q = (Inr v, b')"
  shows "buildDone b' = buildDone b" and "op_name v = fst (ans_buildID y)"
proof -
  have "Build y b q = (Value (Inr v), b')" using assms by (simp add: builder_call_Build_def rpc_Inr)
  from Build_state(2) [OF this] Build_Inr [OF this]
  show "buildDone b' = buildDone b" "op_name v = fst (ans_buildID y)" by simp_all
qed

lemma buildImage_effect:
  fixes op :: "(go_error + 'any operation) run"
  assumes "buildImage (stubs_for (builder_call_Build y) jobs) cfg (c, b, r) = (op, (c', b', r'))"
  shows "c' = c" and "buildDone b' = buildDone b \<or> buildDone b' = Map.empty"
    and "op = Value (Inr v) \<Longrightarrow> buildDone b' = buildDone b \<and> op_name v = fst (ans_buildID y)"
proof -
  have "c' = c \<and> (buildDone b' = buildDone b \<or> buildDone b' = Map.empty) \<and>
    (op = Value (Inr v) \<longrightarrow> buildDone b' = buildDone b \<and> op_name v = fst (ans_buildID y))"
  proof (cases "bic_commit_point cfg")
    case None
    with assms show ?thesis by (auto simp: buildImage_def)
  next
    case (Some cp)
    obtain reply :: "go_error + 'any operation" and b1
      where bc: "builder_call_Build y b (requested cp cfg) = (reply, b1)" by (rule prod.exhaust)
    with assms Some have "op = Value reply" "c' = c" "b' = b1"
      by (simp_all add: buildImage_def requested_def)
    with call_Build_done [OF bc] call_Build_Inr [of y b "requested cp cfg"] bc show ?thesis by auto
  qed
  then show "c' = c" and "buildDone b' = buildDone b \<or> buildDone b' = Map.empty"
    and "op = Value (Inr v) \<Longrightarrow> buildDone b' = buildDone b \<and> op_name v = fst (ans_buildID y)" by auto
qed

text \<open>A miss either registers a new operation or leaves the cache as it was.\<close>

lemma fresh_build_effect:
  assumes "fresh_build L (stubs_for (builder_call_Build y) jobs) ans actions main (c, b, r) = (res, (c', b', r'))"
  shows "c' = c \<and> (buildDone b' = buildDone b \<or> buildDone b' = Map.empty) \<or>
    (\<exists>d i a. cache_uuid ans = Inr i \<and> buildDone b' = buildDone b \<and>
       c' = CacheBackend_Put d i a
         (c\<lparr>downstreamOperation := (downstreamOperation c)(i \<mapsto> fst (ans_buildID y))\<rparr>))"
proof (cases "\<exists>d g a. ActionDigest L main = Inr d \<and> actions = Some g \<and> ag_actions g ''build'' = Some a")
  case False
  with assms show ?thesis
    by (cases "ActionDigest L main"; cases actions)
      (auto simp: fresh_build_def Execute_def deref_def split: option.splits)
next
  case True
  then obtain d g a where d: "ActionDigest L main = Inr d" "actions = Some g"
    "ag_actions g ''build'' = Some a" by blast
  obtain op c1 b1 r1 where bi: "buildImage (stubs_for (builder_call_Build y) jobs)
      (fst (unpack_build_image_config L (act_config a))) (c, b, r) = (op, (c1, b1, r1))"
    by (rule prod_cases4)
  note eff = buildImage_effect [OF bi]
  from d bi assms have run: "run_then (op, (c1, b1, r1)) (register_build L ans d a) = (res, (c', b', r'))"
    by (simp add: fresh_build_def Execute_def)
  show ?thesis
  proof (cases op)
    case (Value x)
    with run have reg: "register_build L ans d a x (c1, b1, r1) = (res, (c', b', r'))" by simp
    show ?thesis
    proof (cases "\<exists>i v t. cache_uuid ans = Inr i \<and> x = Inr v \<and> pack_get_response L zero_get_response = Inr t")
      case True
      then obtain i v t where t: "cache_uuid ans = Inr i" "x = Inr v"
        "pack_get_response L zero_get_response = Inr t" by blast
      have "buildDone b1 = buildDone b" "op_name v = fst (ans_buildID y)"
        using eff(3) [of v] Value t(2) by simp_all
      with reg t eff(1) show ?thesis by (auto simp: register_build_def Let_def)
    next
      case False
      with reg have "c' = c1" "b' = b1"
        by (auto simp: register_build_def Let_def split: sum.splits)
      with eff(1,2) show ?thesis by simp
    qed
  qed (use run eff(1,2) in auto)
qed

lemma cache_Get_effect:
  assumes "cache_Get L (stubs_for (builder_call_Build y) jobs) ans (c, b, r) req = (res, (c', b', r'))"
  shows "c' = c \<and> (buildDone b' = buildDone b \<or> buildDone b' = Map.empty) \<or>
    (\<exists>d i a. cache_uuid ans = Inr i \<and> buildDone b' = buildDone b \<and>
       c' = CacheBackend_Put d i a
         (c\<lparr>downstreamOperation := (downstreamOperation c)(i \<mapsto> fst (ans_buildID y))\<rparr>))"
proof -
  let ?st = "stubs_for (builder_call_Build y) jobs"
  obtain r1 where job: "createJob ?st (c, b, r) = (c, b, r1)" by (simp add: createJob_def)
  consider "c' = c" "b' = b"
    | acts main where "fresh_build L ?st ans acts main (c, b, r1) = (res, (c', b', r'))"
  proof (cases "\<exists>ctx main. gr_context req = Some ctx \<and>
      GetAction (EssentialActions (ctx_actions ctx) (gr_value req)) (gr_value req) = Value (Inr main)")
    case False
    with assms that(1) show ?thesis
      by (auto simp: cache_Get_def run_then_def deref_def Let_def
          split: option.splits run.splits sum.splits)
  next
    case True
    then obtain ctx main where m: "gr_context req = Some ctx"
      "GetAction (EssentialActions (ctx_actions ctx) (gr_value req)) (gr_value req) = Value (Inr main)"
      by blast
    with assms job that show ?thesis
      by (cases "CacheBackend_Get L c main")
        (auto simp: cache_Get_def Let_def split: sum.splits if_splits)
  qed
  then show ?thesis
  proof cases
    case 2
    then show ?thesis by (rule fresh_build_effect)
  qed simp
qed

lemma spec_step_Get:
  assumes inv: "backend_inv L w" and fresh: "fresh_answers y ans w"
    and get: "backend_Get L y job ans w req = (reply, w')"
  shows "spec_step (operations_of w) (operations_of w')"
proof -
  obtain c b r where w: "w = (c, b, r)" by (rule prod_cases3)
  from get obtain res w1 where
      g: "cache_Get L (stubs_for (builder_call_Build y) (call_CreateJob (fst job) (snd job))) ans w req = (res, w1)"
    and w': "w' = w1 \<or> w' = cache_restart w1"
    unfolding backend_Get_def by (rule cache_call_Get_cases)
  obtain c1 b1 r1 where w1: "w1 = (c1, b1, r1)" by (rule prod_cases3)
  have "spec_step (operations_of w) (operations_of w1)"
    using cache_Get_effect [OF g [unfolded w w1]]
  proof (elim disjE exE conjE)
    assume "c1 = c" and "buildDone b1 = buildDone b"
    then show ?thesis using spec_step_builder [of b1 b c r r1] by (simp add: w w1)
  next
    assume "c1 = c" and "buildDone b1 = Map.empty"
    then show ?thesis using spec_step_builder [of b1 b c r r1] by (simp add: w w1)
  next
    fix d i a
    assume i: "cache_uuid ans = Inr i" and same: "buildDone b1 = buildDone b"
      and c1: "c1 = CacheBackend_Put d i a
        (c\<lparr>downstreamOperation := (downstreamOperation c)(i \<mapsto> fst (ans_buildID y))\<rparr>)"
    have down: "downstreamOperation c i = None" using fresh i w by (simp add: fresh_answers_def)
    have "\<forall>n res. cb_upstream c n = Some res \<longrightarrow> (\<exists>m. downstreamOperation c n = Some m)"
      using inv unfolding w cache_inv_simp result_backed_def by blast
    with down have up: "cb_upstream c i = None" by (metis not_None_eq)
    have "buildDone b (fst (ans_buildID y)) \<noteq> Some True"
      using inv fresh builder_freshD [of y b]
      by (auto simp: w fresh_answers_def cache_inv_simp builder_inv_def)
    with up same have "operations_of w1 = (operations_of (c, b1, r1))(i \<mapsto> Waiting)"
      unfolding w1 c1 by (intro operations_start) simp_all
    also have "operations_of (c, b1, r1) = operations_of w"
      unfolding w by (rule operations_same [OF same])
    finally have "operations_of w1 = (operations_of w)(i \<mapsto> Waiting)" .
    moreover have "operations_of w i = None" using down by (simp add: w operations_of_simp)
    ultimately show ?thesis using spec_start by metis
  qed
  with w' show ?thesis using spec_step_crash by metis
qed

lemma spec_step_GetOperation:
  assumes inv: "backend_inv L w" and get: "backend_GetOperation L x w n = (reply, w')"
  shows "spec_step (operations_of w) (operations_of w')"
proof (cases reply)
  case (Inr v)
  obtain c b r where w: "w = (c, b, r)" by (rule prod_cases3)
  obtain reg ans where x: "x = (reg, ans)" by (rule prod.exhaust)
  from get Inr have g: "cache_GetOperation L (builder_call_GetOperation L reg) ans (c, b, r) n =
      (Value (Inr v), w')"
    by (simp add: backend_GetOperation_def x w cache_call_GetOperation_def rpc_Inr)
  show ?thesis
  proof (cases "(\<exists>res. cb_upstream c n = Some res \<and> op_done res) \<or> downstreamOperation c n = None")
    case True
    with g have "w' = w"
      by (auto simp: w cache_GetOperation_def poll_downstream_def split: option.splits if_splits)
    then show ?thesis using spec_silent by simp
  next
    case False
    then obtain m where m: "downstreamOperation c n = Some m" by auto
    from False g have poll: "poll_downstream L (builder_call_GetOperation L reg) ans (c, b, r) n =
        (Value (Inr v), w')"
      by (auto simp: cache_GetOperation_def split: option.splits if_splits)
    obtain opn b' where
        o: "builder_call_GetOperation L reg b m = (Inr opn, b')"
        "w' = (c\<lparr>cb_upstream := (cb_upstream c)(n \<mapsto> opn)\<rparr>, b', r)"
      by (rule poll_downstream_Inr [OF poll m])
    from o(1) have bg: "builder_GetOperation L reg b m = (Value (Inr opn), b')"
      by (simp add: builder_call_GetOperation_def rpc_Inr)
    have b': "b' = b" using builder_GetOperation_state [of L reg b m] bg by simp
    have d: "op_done opn \<longleftrightarrow> buildDone b m = Some True" using builder_GetOperation_done_iff [OF bg] by simp
    have h: "phase_of c b n m \<noteq> Held" using False by (auto simp: phase_Held_iff)
    note ops = operations_answer [OF m d h, of r]
    show ?thesis
    proof (cases "op_done opn")
      case True
      with d h have "operations_of w n = Some Built"
        by (auto simp: w operations_of_simp m phase_of_def split: if_splits)
      with True ops show ?thesis unfolding o(2) b' w by (simp add: spec_poll)
    next
      case False
      with ops show ?thesis unfolding o(2) b' w by (simp add: spec_silent)
    qed
  qed
next
  case (Inl err)
  obtain reg ans where x: "x = (reg, ans)" by (rule prod.exhaust)
  obtain res w1 where g: "cache_GetOperation L (builder_call_GetOperation L reg) ans w n = (res, w1)"
    by (rule prod.exhaust)
  have "\<nexists>e. res = Value (Inl e)"
    using g by (cases w) (auto simp: cache_GetOperation_def poll_downstream_def respond_def Let_def
        split: option.splits sum.splits prod.splits if_splits)
  with get Inl g have "w' = cache_restart w1"
    by (auto simp: backend_GetOperation_def x cache_call_GetOperation_def rpc_def split: run.splits sum.splits)
  then show ?thesis using spec_step_crash by metis
qed

lemma spec_step_Worker:
  "spec_step (operations_of (c, b, r)) (operations_of (c, builder_process wa b t, r))"
proof -
  obtain res s1 where h: "HandleBuildTask wa b t = (res, s1)" by (rule prod.exhaust)
  have "buildDone s1 = buildDone b \<or> (\<exists>m. buildDone s1 = (buildDone b)(m \<mapsto> True))"
  proof (cases "task_payload t")
    case (Inl err)
    with h show ?thesis by (simp add: HandleBuildTask_def)
  next
    case (Inr p)
    obtain u s2 where bb: "builder_build wa b (bp_BuildID p) (bp_Branch p) (bp_CommitSHA p) (bp_Target p)
        (bp_ImageTag p) = (u, s2)" by (rule prod.exhaust)
    with HandleBuildTask_state [OF Inr, of wa b] h have "s1 = s2" by simp
    with builder_build_returns [OF bb] show ?thesis by auto
  qed
  then consider "buildDone (builder_process wa b t) = buildDone b \<or> buildDone (builder_process wa b t) = Map.empty"
    | m where "buildDone (builder_process wa b t) = (buildDone b)(m \<mapsto> True)"
    using h by (cases res) (auto simp: builder_process_def)
  then show ?thesis
  proof cases
    case 1
    then show ?thesis by (rule spec_step_builder)
  next
    case (2 m)
    from operations_finish [OF this, of c r r] show ?thesis using spec_finish by metis
  qed
qed

lemma backend_spec_step:
  assumes "backend_inv L w" and "backend_step L ok w w'"
  shows "spec_step (operations_of w) (operations_of w')"
  using assms(2)
proof cases
  case (step_Get req y ans job reply)
  with assms(1) show ?thesis using spec_step_Get by blast
next
  case (step_GetOperation x n reply)
  with assms(1) show ?thesis using spec_step_GetOperation by blast
next
  case (step_Build y b q reply b' c r)
  with call_Build_done show ?thesis using spec_step_builder by blast
next
  case (step_Worker t b c r wa)
  then show ?thesis using spec_step_Worker by simp
next
  case (step_Builder_restart c b r)
  then show ?thesis using spec_step_builder [of "builder_restart b" b c r r] by simp
next
  case step_Cache_restart
  then show ?thesis using spec_step_crash by metis
qed

lemma backend_spec_done:
  assumes "proto_laws L" and "backend_inv L w" and "backend_GetOperation L x w n = (Inr v, w')"
  shows "op_done v \<longleftrightarrow> spec_done (operations_of w) n"
proof -
  have "op_done v \<longleftrightarrow> cache_finished builder_finished w n"
    using builder.cache.done_iff [of L w x n v w'] assms by (cases x) (simp add: backend_GetOperation_def)
  then show ?thesis
    by (cases w) (auto simp: cache_finished_def spec_done_def operations_of_simp phase_of_def
        builder_finished_def split: option.splits if_splits)
qed

text \<open>The backend refines the machine; without restarts of the cache, it refines one that never crashes.\<close>

interpretation refined: refinement
  "backend_step L ok" spec_step operations_of "\<lambda>w. proto_laws L \<and> backend_inv L w"
  for L :: "'any proto_lib" and ok
  by unfold_locales (auto intro: backend_inv_step backend_spec_step)

interpretation lasting: refinement
  "\<lambda>w w'. backend_step L ok w w' \<and> operations_of w' \<noteq> Map.empty"
  "\<lambda>s s'. spec_step s s' \<and> s' \<noteq> Map.empty" operations_of "\<lambda>w. proto_laws L \<and> backend_inv L w"
  for L :: "'any proto_lib" and ok
  by unfold_locales (auto intro: backend_inv_step backend_spec_step)

section \<open>Consequences of the abstract machine\<close>

text \<open>
  Only a restart of the cache loses a result the cache holds, and only a restart of the builder makes
  a finished build wait again.
\<close>

lemma spec_step_Held: "spec_step s s' \<Longrightarrow> s n = Some Held \<Longrightarrow> s' n = Some Held \<or> s' = Map.empty"
  by (elim spec_stepE) (auto simp: finish_def forget_def)

lemma spec_step_Built:
  "spec_step s s' \<Longrightarrow> s n = Some Built \<Longrightarrow>
     s' n \<in> {Some Built, Some Held} \<or> s' = forget s \<or> s' = Map.empty"
  by (elim spec_stepE) (auto simp: finish_def)

lemma answered_Held:
  assumes "backend_inv L w" and "backend_GetOperation L x w n = (Inr v, w')" and "op_done v"
    and "downstreamOperation (fst w) n \<noteq> None"
  shows "operations_of w' n = Some Held"
proof -
  obtain c b r where w: "w = (c, b, r)" by (rule prod_cases3)
  obtain reg ans where x: "x = (reg, ans)" by (rule prod.exhaust)
  from assms(4) obtain m where m: "downstreamOperation c n = Some m" by (auto simp: w)
  from assms(2) have g: "cache_GetOperation L (builder_call_GetOperation L reg) ans (c, b, r) n =
      (Value (Inr v), w')"
    by (simp add: backend_GetOperation_def x w cache_call_GetOperation_def rpc_Inr)
  show ?thesis
  proof (cases "\<exists>res. cb_upstream c n = Some res \<and> op_done res")
    case True
    with g m show ?thesis by (auto simp: cache_GetOperation_def operations_of_simp phase_of_def)
  next
    case False
    with g have poll: "poll_downstream L (builder_call_GetOperation L reg) ans (c, b, r) n =
        (Value (Inr v), w')"
      by (auto simp: cache_GetOperation_def split: option.splits if_splits)
    obtain opn b' resp where
        "w' = (c\<lparr>cb_upstream := (cb_upstream c)(n \<mapsto> opn)\<rparr>, b', r)"
        "respond L n (op_done opn) (image_response ans resp) = Value (Inr v)"
      by (rule poll_downstream_Inr [OF poll m])
    with m assms(3) builder.respond_Value [of L n] show ?thesis by (auto simp: operations_of_simp phase_of_def)
  qed
qed

lemma Held_stays:
  assumes "proto_laws L" and "backend_inv L w"
    and "(\<lambda>w w'. backend_step L ok w w' \<and> operations_of w' \<noteq> Map.empty)\<^sup>*\<^sup>* w w'"
    and "operations_of w n = Some Held"
  shows "backend_inv L w' \<and> operations_of w' n = Some Held"
proof -
  have inv: "proto_laws L \<and> backend_inv L w" using assms(1,2) by simp
  have "operations_of w' n = Some Held"
    by (rule lasting.kept [OF inv assms(3), where P = "\<lambda>s. s n = Some Held"])
      (use assms(4) spec_step_Held in blast)+
  with lasting.runs [OF inv assms(3)] show ?thesis by simp
qed

end
