(* ===== verification/Build_Workers.thy ===== *)
theory Build_Workers
  imports Builder "HOL-Library.Multiset"
begin

text \<open>
  The workers of the builder side by side. The queue runs two tasks at a time in one process, and each
  watches the same jobs of the cluster while it waits, so what happens to one build's job reaches the
  worker of the other. Here \<open>build\<close> is cut at the points where it waits; the cluster sends every event
  to every watch. A ghost history keeps the order of submissions and of what ended the watches.
\<close>

section \<open>The pieces of build\<close>

definition payload_job :: "BuildPayload \<Rightarrow> job" where
  "payload_job p =
     buildJobSpec (bp_BuildID p) (bp_Branch p) (bp_CommitSHA p) (bp_Target p) (bp_ImageTag p)"

text \<open>Up to the open watch.\<close>

definition build_submit ::
    "worker_answers \<Rightarrow> builder_state \<Rightarrow> BuildPayload \<Rightarrow> unit run \<times> builder_state" where
  "build_submit ans s p =
     run_then (connectToK8s (wa_connect ans), s) (\<lambda>_ s0.
       case wa_create ans of
         Some err \<Rightarrow> (Exited ''Failed to create K8s job'', s0)
       | None \<Rightarrow>
           (let s1 = builder_log (CreateK8sJob (payload_job p)) s0
            in case wa_watch ans of
                 Some err \<Rightarrow> (Exited ''Failed to watch job'', s1)
               | None \<Rightarrow> (Value (), s1)))"

text \<open>One event of the watch: it ends the loop or not.\<close>

definition watch_take :: "watch_event \<Rightarrow> watch_end option" where
  "watch_take we =
     (case we_pods we of
        Inl err \<Rightarrow> Some PodsUnavailable
      | Inr pods \<Rightarrow> (if we_Type we = ''DELETED'' then Some WatchEnded else None))"

lemma watch_loop_take:
  "watch_loop (we # es) = (case watch_take we of Some verdict \<Rightarrow> verdict | None \<Rightarrow> watch_loop es)"
  by (simp add: watch_take_def split: sum.split)

text \<open>The mark, and what \<open>build\<close> does after it.\<close>

definition build_mark :: "builder_state \<Rightarrow> BuildPayload \<Rightarrow> builder_state" where
  "build_mark s p = s\<lparr>buildDone := (buildDone s)(bp_BuildID p \<mapsto> True)\<rparr>"

definition build_after :: "worker_answers \<Rightarrow> BuildPayload \<Rightarrow> unit run" where
  "build_after ans p =
     fst (run_then (playWithDocker (wa_registry ans) (bp_ImageTag p), ()) (\<lambda>_ s.
       case wa_pods ans of Inl err \<Rightarrow> (Value (), s) | Inr pods \<Rightarrow> (Value (), s)))"

lemma builder_build_pieces:
  "builder_build ans s (bp_BuildID p) (bp_Branch p) (bp_CommitSHA p) (bp_Target p) (bp_ImageTag p) =
     run_then (build_submit ans s p) (\<lambda>_ s1.
       case watch_loop (wa_events ans) of
         PodsUnavailable \<Rightarrow> (Value (), s1)
       | WatchEnded \<Rightarrow> (build_after ans p, build_mark s1 p))"
  by (auto simp: builder_build_def build_submit_def payload_job_def build_after_def build_mark_def run_then_def Let_def
      split: option.splits sum.splits prod.splits run.splits watch_end.splits)

section \<open>What a piece does to the builder\<close>

text \<open>
  A piece of a worker, seen from the rest of the builder: it takes a task of the queue and submits its
  job, or marks the build of a task whose job was submitted. Which worker does it is not said.
\<close>

inductive builder_piece :: "builder_state \<Rightarrow> builder_state \<Rightarrow> bool" where
  piece_submits: "Enqueue t \<in> set (builder_trace b) \<Longrightarrow> task_payload t = Inr p \<Longrightarrow>
    build_submit ans b p = (Value (), b') \<Longrightarrow> builder_piece b b'"
| piece_ends: "Enqueue t \<in> set (builder_trace b) \<Longrightarrow> task_payload t = Inr p \<Longrightarrow>
    build_submit ans b p = (res, b') \<Longrightarrow> \<not> returns res \<Longrightarrow> builder_piece b (builder_restart b')"
| piece_marks: "Enqueue t \<in> set (builder_trace b) \<Longrightarrow> task_payload t = Inr p \<Longrightarrow>
    CreateK8sJob (payload_job p) \<in> set (builder_trace b) \<Longrightarrow> builder_piece b (build_mark b p)"

lemma build_submit_state:
  assumes "build_submit ans b p = (res, b')"
  shows "b' = b \<or> b' = builder_log (CreateK8sJob (payload_job p)) b"
    and "res = Value () \<Longrightarrow> b' = builder_log (CreateK8sJob (payload_job p)) b"
  using assms
  by (auto simp: build_submit_def connectToK8s_def run_then_def Let_def split: option.splits)

lemma builder_inv_log_job:
  assumes "builder_inv b"
  shows "builder_inv (builder_log (CreateK8sJob j) b)"
proof -
  have "submitted b info \<Longrightarrow> submitted (builder_log (CreateK8sJob j) b) info" for info
    by (rule submitted_mono) auto
  moreover have "recorded (builder_log (CreateK8sJob j) b) = recorded b"
    by (intro ext) (simp add: recorded_def)
  ultimately show ?thesis using assms unfolding builder_inv_def by (simp, blast)
qed

lemma builder_inv_mark:
  assumes "builder_inv b" and "Enqueue t \<in> set (builder_trace b)" and "task_payload t = Inr p"
    and "CreateK8sJob (payload_job p) \<in> set (builder_trace b)"
  shows "builder_inv (build_mark b p)"
proof -
  from assms(1,2) obtain info ts where i: "recorded b info" "bi_Targets info = json_strings ts" "t = task_for info ts"
    by (auto simp: builder_inv_def)
  with assms(3,4) have "submitted b info" "bi_BuildID info = bp_BuildID p"
    by (auto simp: submitted_def task_for_def NewBuildTask_def job_for_def payload_job_def)
  with assms(1) i(1) show ?thesis by (auto simp: builder_inv_def recorded_def submitted_def build_mark_def)
qed

lemma builder_piece_state:
  assumes "builder_piece b b'" and "builder_inv b"
  shows "builder_inv b' \<and> set (builder_trace b) \<subseteq> set (builder_trace b')"
  using assms
proof cases
  case (piece_submits t p ans)
  with build_submit_state(2) [OF piece_submits(3)] assms(2) builder_inv_log_job show ?thesis by auto
next
  case (piece_ends t p ans res b1)
  from build_submit_state(1) [OF piece_ends(4)] assms(2) builder_inv_log_job have "builder_inv b1" by blast
  with build_submit_state(1) [OF piece_ends(4)] piece_ends(1) show ?thesis by auto
next
  case (piece_marks t p)
  with assms(2) builder_inv_mark show ?thesis by (auto simp: build_mark_def)
qed

section \<open>Workers side by side\<close>

text \<open>
  An event as the cluster sends it: its type, whether its object is a job, and the build the object
  belongs to, which the code does not look at. The channel of a watch holds the events not read yet.
\<close>

record cluster_event =
  ce_Type :: string
  ce_is_job :: bool
  ce_build :: string

definition seen_with :: "cluster_event \<Rightarrow> go_error + pod list \<Rightarrow> watch_event" where
  "seen_with ev pods = \<lparr>we_Type = ce_Type ev, we_is_job = ce_is_job ev, we_pods = pods\<rparr>"

datatype worker =
    Watches BuildPayload "cluster_event list"
  | Logs BuildPayload

fun receive :: "cluster_event \<Rightarrow> worker \<Rightarrow> worker" where
  "receive ev (Watches p es) = Watches p (es @ [ev])"
| "receive ev (Logs p) = Logs p"

datatype happening =
    Submitted string
  | Gone string
  | Closed string

definition event_happening :: "cluster_event \<Rightarrow> happening list" where
  "event_happening ev = (if ce_Type ev = ''DELETED'' then [Gone (ce_build ev)] else [])"

type_synonym workers = "builder_state \<times> worker multiset \<times> happening list"

text \<open>
  One step. A watch starts with an event for every job there is. A process that ends takes its workers
  with it; a panic in a task's handler may end the
  process or be caught by the queue.
\<close>

inductive worker_step :: "workers \<Rightarrow> workers \<Rightarrow> bool" where
  w_build: "Build ans b q = ((Value reply :: (go_error + unit operation) run), b') \<Longrightarrow> builder_fresh ans b \<Longrightarrow>
    worker_step (b, ws, h) (b', ws, h)"
| w_build_ends: "Build ans b q = ((res :: (go_error + unit operation) run), b') \<Longrightarrow> \<not> returns res \<Longrightarrow>
    builder_fresh ans b \<Longrightarrow> worker_step (b, ws, h) (builder_restart b', {#}, h)"
| w_submit: "Enqueue t \<in> set (builder_trace b) \<Longrightarrow> task_payload t = Inr p \<Longrightarrow>
    int (size ws) < Concurrency NewAsynq \<Longrightarrow> build_submit ans b p = (Value (), b') \<Longrightarrow>
    \<forall>ev \<in> set es. ce_Type ev = ''ADDED'' \<Longrightarrow>
    worker_step (b, ws, h) (b', add_mset (Watches p es) ws, h @ [Submitted (bp_BuildID p)])"
| w_submit_ends: "Enqueue t \<in> set (builder_trace b) \<Longrightarrow> task_payload t = Inr p \<Longrightarrow>
    build_submit ans b p = (res, b') \<Longrightarrow> \<not> returns res \<Longrightarrow>
    worker_step (b, ws, h) (builder_restart b', {#}, h)"
| w_event: "worker_step (b, ws, h) (b, image_mset (receive ev) ws, h @ event_happening ev)"
| w_goes_on: "watch_take (seen_with ev pods) = None \<Longrightarrow>
    worker_step (b, add_mset (Watches p (ev # es)) ws, h) (b, add_mset (Watches p es) ws, h)"
| w_gives_up: "watch_take (seen_with ev pods) = Some PodsUnavailable \<Longrightarrow>
    worker_step (b, add_mset (Watches p (ev # es)) ws, h) (b, ws, h)"
| w_ends: "watch_take (seen_with ev pods) = Some WatchEnded \<Longrightarrow>
    worker_step (b, add_mset (Watches p (ev # es)) ws, h) (build_mark b p, add_mset (Logs p) ws, h)"
| w_closed: "worker_step (b, add_mset (Watches p []) ws, h)
    (build_mark b p, add_mset (Logs p) ws, h @ [Closed (bp_BuildID p)])"
| w_logged: "build_after ans p = res \<Longrightarrow> returns res \<or> res = Panicked m \<Longrightarrow>
    worker_step (b, add_mset (Logs p) ws, h) (b, ws, h)"
| w_restart: "worker_step (b, ws, h) (builder_restart b, {#}, h)"

definition workers_init :: workers where
  "workers_init = (builder_init, {#}, [])"

abbreviation worker_run :: "workers \<Rightarrow> workers \<Rightarrow> bool" where
  "worker_run \<equiv> worker_step\<^sup>*\<^sup>*"

section \<open>The invariant\<close>

text \<open>The history since the last submissions of a build.\<close>

definition ended_after :: "string \<Rightarrow> happening list \<Rightarrow> bool" where
  "ended_after n h \<longleftrightarrow> (\<exists>h1 h2. h = h1 @ Submitted n # h2 \<and> (Closed n \<in> set h2 \<or> (\<exists>m. Gone m \<in> set h2)))"

definition worker_ok :: "builder_state \<Rightarrow> happening list \<Rightarrow> worker \<Rightarrow> bool" where
  "worker_ok b h w =
     (case w of
        Logs p \<Rightarrow> True
      | Watches p es \<Rightarrow>
          (\<exists>t. Enqueue t \<in> set (builder_trace b) \<and> task_payload t = Inr p) \<and>
          CreateK8sJob (payload_job p) \<in> set (builder_trace b) \<and>
          Submitted (bp_BuildID p) \<in> set h \<and>
          ((\<exists>ev \<in> set es. ce_Type ev = ''DELETED'') \<longrightarrow> ended_after (bp_BuildID p) h))"

definition workers_inv :: "workers \<Rightarrow> bool" where
  "workers_inv w =
     (case w of (b, ws, h) \<Rightarrow>
        builder_inv b \<and> int (size ws) \<le> Concurrency NewAsynq \<and> (\<forall>x \<in># ws. worker_ok b h x) \<and>
        (\<forall>n. buildDone b n = Some True \<longrightarrow> ended_after n h))"

lemma ended_after_append: "ended_after n h \<Longrightarrow> ended_after n (h @ h')"
  unfolding ended_after_def by (metis Un_iff append_Cons append_assoc set_append)

lemma ended_after_new:
  assumes "Submitted n \<in> set h"
  shows "ended_after n (h @ [Closed n])" and "ended_after n (h @ [Gone m])"
proof -
  from assms obtain h1 h2 where "h = h1 @ Submitted n # h2" by (meson split_list)
  then have "h @ [x] = h1 @ Submitted n # (h2 @ [x])" for x by simp
  then show "ended_after n (h @ [Closed n])" "ended_after n (h @ [Gone m])"
    unfolding ended_after_def by (metis in_set_conv_decomp)+
qed

lemma worker_ok_mono:
  assumes "worker_ok b h x" and "set (builder_trace b) \<subseteq> set (builder_trace b')"
  shows "worker_ok b' (h @ h') x"
  using assms ended_after_append by (fastforce simp: worker_ok_def split: worker.splits)

lemma worker_ok_receive:
  assumes "worker_ok b h x"
  shows "worker_ok b (h @ event_happening ev) (receive ev x)"
proof (cases x)
  case (Watches p es)
  have "worker_ok b (h @ event_happening ev) x" using assms by (rule worker_ok_mono) simp
  moreover have "ended_after (bp_BuildID p) (h @ event_happening ev)" if "ce_Type ev = ''DELETED''"
    using that assms Watches ended_after_new(2) by (simp add: worker_ok_def event_happening_def)
  ultimately show ?thesis using Watches by (auto simp: worker_ok_def)
qed (simp add: worker_ok_def)

lemma mark_inv:
  assumes inv: "workers_inv (b, add_mset (Watches p es) ws, h)" and ended: "ended_after (bp_BuildID p) (h @ h')"
  shows "workers_inv (build_mark b p, add_mset (Logs p) ws, h @ h')"
proof -
  from inv obtain t where t: "Enqueue t \<in> set (builder_trace b)" "task_payload t = Inr p"
      "CreateK8sJob (payload_job p) \<in> set (builder_trace b)"
    by (auto simp: workers_inv_def worker_ok_def)
  then have "builder_inv (build_mark b p)" using inv by (intro builder_inv_mark) (auto simp: workers_inv_def)
  moreover have "worker_ok (build_mark b p) (h @ h') x" if "x \<in># ws" for x
    using inv that by (intro worker_ok_mono [of b h x]) (auto simp: workers_inv_def build_mark_def)
  moreover have "ended_after n (h @ h')" if "buildDone (build_mark b p) n = Some True" for n
    using that inv ended ended_after_append [of n h h']
    by (auto simp: workers_inv_def build_mark_def split: if_splits)
  ultimately show ?thesis using inv by (auto simp: workers_inv_def worker_ok_def)
qed

lemma restart_inv: "builder_inv b \<Longrightarrow> workers_inv (builder_restart b, {#}, h)"
  by (simp add: workers_inv_def NewAsynq_def)

theorem worker_step_inv:
  assumes "worker_step w w'" and "workers_inv w"
  shows "workers_inv w'"
  using assms
proof (cases rule: worker_step.cases)
  case (w_build ans b q reply b' ws h)
  have inv: "builder_inv b" using assms(2) w_build(1) by (simp add: workers_inv_def)
  have "worker_ok b' h x" if "worker_ok b h x" for x
    using worker_ok_mono [OF that trace_Build [OF w_build(3)], of "[]"] by simp
  with assms(2) w_build builder_inv_Build [OF inv w_build(4,3)] Build_state(2) [OF w_build(3)] show ?thesis
    by (auto simp: workers_inv_def)
next
  case (w_build_ends ans b q res b' ws h)
  have "builder_inv b" using assms(2) w_build_ends(1) by (simp add: workers_inv_def)
  with w_build_ends show ?thesis using builder_inv_Build restart_inv by blast
next
  case (w_submit t b p ws ans b' es h)
  have inv: "builder_inv b" using assms(2) w_submit(1) by (simp add: workers_inv_def)
  have b': "b' = builder_log (CreateK8sJob (payload_job p)) b" by (rule build_submit_state(2) [OF w_submit(6) refl])
  have "worker_ok b' (h @ [Submitted (bp_BuildID p)]) (Watches p es)"
    using w_submit(3,4,7) by (auto simp: worker_ok_def b')
  moreover have "worker_ok b' (h @ [Submitted (bp_BuildID p)]) x" if "x \<in># ws" for x
    using assms(2) w_submit(1) that by (intro worker_ok_mono [of b h x]) (auto simp: workers_inv_def b')
  ultimately show ?thesis
    using assms(2) w_submit(1,2,5) builder_inv_log_job [OF inv] ended_after_append
    by (auto simp: workers_inv_def b')
next
  case (w_submit_ends t b p ans res b' ws h)
  have "builder_inv b" using assms(2) w_submit_ends(1) by (simp add: workers_inv_def)
  with build_submit_state(1) [OF w_submit_ends(5)] builder_inv_log_job have "builder_inv b'" by blast
  with w_submit_ends(2) show ?thesis using restart_inv by blast
next
  case (w_event b ws h ev)
  with assms(2) show ?thesis
    using worker_ok_receive ended_after_append by (auto simp: workers_inv_def)
next
  case (w_ends ev pods b p es ws h)
  then have "ce_Type ev = ''DELETED''" by (auto simp: watch_take_def seen_with_def split: sum.splits if_splits)
  with assms(2) w_ends(1) have "ended_after (bp_BuildID p) h" by (simp add: workers_inv_def worker_ok_def)
  with mark_inv [of b p "ev # es" ws h "[]"] assms(2) w_ends(1,2) show ?thesis by simp
next
  case (w_closed b p ws h)
  with assms(2) have "Submitted (bp_BuildID p) \<in> set h" by (simp add: workers_inv_def worker_ok_def)
  with mark_inv [of b p "[]" ws h] assms(2) w_closed show ?thesis using ended_after_new(1) by blast
next
  case (w_restart b ws h)
  with assms(2) show ?thesis using restart_inv by (simp add: workers_inv_def)
qed (auto simp: workers_inv_def worker_ok_def)

text \<open>To the rest of the builder a step of the workers is one of these.\<close>

lemma worker_step_pieces:
  assumes "worker_step (b, ws, h) (b', ws', h')" and "workers_inv (b, ws, h)"
  shows "b' = b \<or> b' = builder_restart b \<or> builder_piece b b' \<or>
    (\<exists>ans q. builder_fresh ans b \<and> b' = snd (builder_call_Build ans b q :: (go_error + unit operation) \<times> _))"
  using assms(1)
proof cases
  case (w_build ans q reply)
  then have "b' = snd (builder_call_Build ans b q :: (go_error + unit operation) \<times> _)"
    by (cases reply) (simp_all add: builder_call_Build_def rpc_def)
  with w_build show ?thesis by blast
next
  case (w_build_ends ans q res b1)
  then have "b' = snd (builder_call_Build ans b q :: (go_error + unit operation) \<times> _)"
    by (cases res) (simp_all add: builder_call_Build_def rpc_def)
  with w_build_ends show ?thesis by blast
next
  case (w_submit t p ans es)
  then show ?thesis using piece_submits by blast
next
  case (w_submit_ends t p ans res b1)
  then show ?thesis using piece_ends by blast
next
  case (w_ends ev pods p es ws1)
  with assms(2) obtain t where "Enqueue t \<in> set (builder_trace b)" "task_payload t = Inr p"
      "CreateK8sJob (payload_job p) \<in> set (builder_trace b)"
    by (auto simp: workers_inv_def worker_ok_def)
  then show ?thesis using w_ends piece_marks by blast
next
  case (w_closed p ws1)
  with assms(2) obtain t where "Enqueue t \<in> set (builder_trace b)" "task_payload t = Inr p"
      "CreateK8sJob (payload_job p) \<in> set (builder_trace b)"
    by (auto simp: workers_inv_def worker_ok_def)
  then show ?thesis using w_closed piece_marks by blast
qed simp_all

lemma worker_run_inv: "worker_run workers_init w \<Longrightarrow> workers_inv w"
proof (induction rule: rtranclp_induct)
  case base
  then show ?case
    by (simp add: workers_inv_def workers_init_def NewAsynq_def builder_init_def [symmetric])
      (simp add: builder_init_def)
next
  case (step w w')
  then show ?case using worker_step_inv by blast
qed

section \<open>What side by side means\<close>

text \<open>
  C12. However the workers of the builder overlap, never more than two, and however often its process
  ends: a build marked done has had a job submitted with exactly the branch, commit and targets of the
  request behind it, and after that submission its watch was closed or some object of the cluster was
  deleted. The record, whose targets are JSON text, belongs to no other request.
\<close>

theorem overlapping_builds_are_as_requested:
  assumes "worker_run workers_init (b, ws, h)" and "buildDone b n = Some True" and "builder_serves b n q"
  shows "\<exists>info. recorded b info \<and> bi_BuildID info = n \<and> (\<forall>q'. records info q' \<longleftrightarrow> q' = q) \<and>
    CreateK8sJob (buildJobSpec n (br_branch q) (br_commitSHA q) (br_target q) (bi_ImageTag info))
      \<in> set (builder_trace b) \<and>
    (\<exists>h1 h2. h = h1 @ Submitted n # h2 \<and> (Closed n \<in> set h2 \<or> (\<exists>m. Gone m \<in> set h2))) \<and>
    size ws \<le> 2"
proof -
  have inv: "workers_inv (b, ws, h)" using assms(1) by (rule worker_run_inv)
  then have invb: "builder_inv b" and ended: "ended_after n h" and two: "size ws \<le> 2"
    using assms(2) by (auto simp: workers_inv_def NewAsynq_def)
  from invb assms(2) obtain info where i: "recorded b info" "bi_BuildID info = n" "submitted b info"
    by (auto simp: builder_inv_def)
  from assms(3) obtain j where j: "recorded b j" "bi_BuildID j = n" "records j q"
    by (auto simp: builder_serves_def)
  from invb i(1,2) j(1,2) have "j = info" by (auto simp: builder_inv_def)
  with i j(3) submitted_job [OF i(3)] records_unique ended two show ?thesis
    unfolding ended_after_def by blast
qed

text \<open>A worker reads on to a deletion that is in its channel.\<close>

lemma watch_reads_on:
  assumes "ce_Type ev = ''DELETED''" and "ev \<in> set es"
  shows "worker_run (b, add_mset (Watches p es) ws, h) (build_mark b p, add_mset (Logs p) ws, h)"
  using assms(2)
proof (induction es)
  case (Cons e es)
  show ?case
  proof (cases "ce_Type e = ''DELETED''")
    case True
    then have "watch_take (seen_with e (Inr [])) = Some WatchEnded" by (simp add: watch_take_def seen_with_def)
    then show ?thesis by (intro r_into_rtranclp w_ends)
  next
    case False
    then have "watch_take (seen_with e (Inr [])) = None" by (simp add: watch_take_def seen_with_def)
    then have "worker_step (b, add_mset (Watches p (e # es)) ws, h) (b, add_mset (Watches p es) ws, h)"
      by (rule w_goes_on)
    moreover have "ev \<in> set es" using Cons.prems False assms(1) by auto
    ultimately show ?thesis using Cons.IH by (blast intro: converse_rtranclp_into_rtranclp)
  qed
qed simp

definition watched :: "worker multiset \<Rightarrow> string set" where
  "watched ws = {n. \<exists>p es. Watches p es \<in># ws \<and> n = bp_BuildID p}"

lemma watches_read_on:
  assumes "ce_Type ev = ''DELETED''"
  shows "\<exists>b' ws'. worker_run (b, image_mset (receive ev) ws + vs, h) (b', ws' + vs, h) \<and>
    watched ws \<union> {n. buildDone b n = Some True} \<subseteq> {n. buildDone b' n = Some True}"
proof (induction ws arbitrary: b vs)
  case empty
  have "watched {#} = {}" by (simp add: watched_def)
  moreover have "worker_run (b, {#} + vs, h) (b, {#} + vs, h)" by simp
  ultimately show ?case by (metis Un_empty_left image_mset_empty order_refl)
next
  case (add w ws)
  show ?case
  proof (cases w)
    case (Watches p es)
    let ?b = "build_mark b p"
    have "worker_run (b, add_mset (Watches p (es @ [ev])) (image_mset (receive ev) ws + vs), h)
        (?b, add_mset (Logs p) (image_mset (receive ev) ws + vs), h)"
      using assms by (rule watch_reads_on) simp
    moreover from add.IH [of ?b "add_mset (Logs p) vs"] obtain b' ws' where
        "worker_run (?b, image_mset (receive ev) ws + add_mset (Logs p) vs, h) (b', ws' + add_mset (Logs p) vs, h)"
        "watched ws \<union> {n. buildDone ?b n = Some True} \<subseteq> {n. buildDone b' n = Some True}" by blast
    moreover have "watched (add_mset w ws) \<union> {n. buildDone b n = Some True} \<subseteq>
        watched ws \<union> {n. buildDone ?b n = Some True}"
      by (auto simp: watched_def Watches build_mark_def)
    ultimately show ?thesis
      using Watches by (intro exI [of _ b'] exI [of _ "add_mset (Logs p) ws'"]) (auto dest: rtranclp_trans)
  next
    case (Logs p)
    from add.IH [of b "add_mset (Logs p) vs"] obtain b' ws' where
        "worker_run (b, image_mset (receive ev) ws + add_mset (Logs p) vs, h) (b', ws' + add_mset (Logs p) vs, h)"
        "watched ws \<union> {n. buildDone b n = Some True} \<subseteq> {n. buildDone b' n = Some True}" by blast
    moreover have "watched (add_mset w ws) = watched ws" by (auto simp: watched_def Logs)
    ultimately show ?thesis
      using Logs by (intro exI [of _ b'] exI [of _ "add_mset (Logs p) ws'"]) auto
  qed
qed

text \<open>
  C27. One deletion finishes every build that is being watched. In any state of the builder, let the
  cluster delete one object, of whichever build: all workers can go on to mark their builds done with
  nothing else happening, no watch closed, no other object deleted. A job is deleted ten seconds after
  it has ended, so the build beside it is reported done, with an image that may not exist yet.
\<close>

theorem one_deletion_finishes_all_builds:
  "\<exists>b' ws'. worker_run (b, ws, h) (b', ws', h @ [Gone m]) \<and>
     watched ws \<subseteq> {n. buildDone b' n = Some True}"
proof -
  let ?ev = "\<lparr>ce_Type = ''DELETED'', ce_is_job = True, ce_build = m\<rparr>"
  from watches_read_on [of ?ev b ws "{#}" "h @ [Gone m]"] obtain b' ws' where
      run: "worker_run (b, image_mset (receive ?ev) ws, h @ [Gone m]) (b', ws', h @ [Gone m])"
        "watched ws \<union> {n. buildDone b n = Some True} \<subseteq> {n. buildDone b' n = Some True}" by auto
  have "worker_step (b, ws, h) (b, image_mset (receive ?ev) ws, h @ event_happening ?ev)" by (rule w_event)
  then have "worker_step (b, ws, h) (b, image_mset (receive ?ev) ws, h @ [Gone m])"
    by (simp add: event_happening_def)
  with run show ?thesis by (blast intro: converse_rtranclp_into_rtranclp)
qed

text \<open>A build beside another one: the other's job goes, and this one is done.\<close>

definition beside_ans :: build_answers where
  "beside_ans = \<lparr>ans_imageTag = (''t2'', None), ans_buildID = (''b2'', None), ans_enqueue = None\<rparr>"

definition beside_req :: build_request where
  "beside_req = \<lparr>br_commitSHA = ''c'', br_branch = ''main'', br_target = [''//x'']\<rparr>"

definition beside_worker :: worker_answers where
  "beside_worker =
     \<lparr>wa_connect = \<lparr>ca_config = None, ca_client = None\<rparr>, wa_create = None, wa_watch = None, wa_events = [],
      wa_registry = \<lparr>reg_connect = None, reg_digest = (\<lambda>_ _. Inr ''d''), reg_nil_client = Value ()\<rparr>,
      wa_pods = Inr []\<rparr>"

abbreviation beside_info :: BuildInfo where
  "beside_info \<equiv> new_info beside_ans beside_req"

definition beside_payload :: BuildPayload where
  "beside_payload = \<lparr>bp_BuildID = ''b2'', bp_Branch = ''main'', bp_CommitSHA = ''c'', bp_Target = [''//x''],
     bp_ImageTag = ''t2''\<rparr>"

definition beside_end :: workers where
  "beside_end =
     (\<lparr>buildDone = [''b2'' \<mapsto> True], buildInfo = [''b2'' \<mapsto> beside_info],
       builder_trace = [DbCreate beside_info, DbCommit, Enqueue (task_for beside_info [''//x'']),
         CreateK8sJob (job_for beside_info [''//x''])]\<rparr>,
      {#Logs beside_payload#}, [Submitted ''b2'', Gone ''b1''])"

lemma beside_run: "worker_run workers_init beside_end"
proof -
  let ?t = "task_for beside_info [''//x'']" and ?j = "job_for beside_info [''//x'']"
  let ?b1 = "\<lparr>buildDone = Map.empty, buildInfo = [''b2'' \<mapsto> beside_info],
    builder_trace = [DbCreate beside_info, DbCommit, Enqueue ?t]\<rparr>"
  let ?b2 = "?b1\<lparr>builder_trace := [DbCreate beside_info, DbCommit, Enqueue ?t, CreateK8sJob ?j]\<rparr>"
  let ?ev = "\<lparr>ce_Type = ''DELETED'', ce_is_job = True, ce_build = ''b1''\<rparr>"
  have "Build beside_ans builder_init beside_req =
      (Value (Inr \<lparr>op_name = ''b2'', op_done = False, op_metadata = None, op_result = None\<rparr>), ?b1)"
    by (simp add: Build_def Let_def beside_ans_def beside_req_def new_info_def task_for_def builder_init_def
        builder_log_def)
  then have s1: "worker_step workers_init (?b1, {#}, [])"
    unfolding workers_init_def
    by (rule w_build) (simp add: builder_fresh_def builder_init_def)
  have submit: "build_submit beside_worker ?b1 beside_payload = (Value (), ?b2)"
    by (simp add: build_submit_def connectToK8s_def beside_worker_def builder_log_def beside_payload_def
        payload_job_def job_for_def new_info_def beside_ans_def beside_req_def Let_def)
  have "worker_step (?b1, {#}, []) (?b2, add_mset (Watches beside_payload []) {#},
      [] @ [Submitted (bp_BuildID beside_payload)])"
    by (rule w_submit [where t = ?t and es = "[]", OF _ _ _ submit])
      (simp_all add: NewAsynq_def task_for_def NewBuildTask_def beside_payload_def new_info_def beside_ans_def
        beside_req_def)
  then have s2: "worker_step (?b1, {#}, []) (?b2, {#Watches beside_payload []#}, [Submitted ''b2''])"
    by (simp add: beside_payload_def)
  have "worker_step (?b2, {#Watches beside_payload []#}, [Submitted ''b2''])
      (?b2, image_mset (receive ?ev) {#Watches beside_payload []#}, [Submitted ''b2''] @ event_happening ?ev)"
    by (rule w_event)
  then have s3: "worker_step (?b2, {#Watches beside_payload []#}, [Submitted ''b2''])
      (?b2, {#Watches beside_payload [?ev]#}, [Submitted ''b2'', Gone ''b1''])"
    by (simp add: event_happening_def)
  have "worker_step (?b2, {#Watches beside_payload [?ev]#}, [Submitted ''b2'', Gone ''b1''])
      (build_mark ?b2 beside_payload, {#Logs beside_payload#}, [Submitted ''b2'', Gone ''b1''])"
    by (rule w_ends [where pods = "Inr []"]) (simp add: watch_take_def seen_with_def)
  moreover have "build_mark ?b2 beside_payload = ?b2\<lparr>buildDone := [''b2'' \<mapsto> True]\<rparr>"
    by (simp add: build_mark_def beside_payload_def)
  ultimately have s4: "worker_step (?b2, {#Watches beside_payload [?ev]#}, [Submitted ''b2'', Gone ''b1'']) beside_end"
    by (simp add: beside_end_def)
  from s1 s2 s3 s4 show ?thesis
    by (meson converse_rtranclp_into_rtranclp rtranclp.rtrancl_refl)
qed

theorem overlapping_builds_are_as_requested_witness:
  "\<exists>info. bi_BuildID info = ''b2'' \<and> (\<forall>q'. records info q' \<longleftrightarrow> q' = beside_req) \<and>
     CreateK8sJob (buildJobSpec ''b2'' ''main'' ''c'' [''//x''] (bi_ImageTag info))
       \<in> set (builder_trace (fst beside_end))"
proof -
  have serves: "builder_serves (fst beside_end) ''b2'' beside_req"
    unfolding builder_serves_def recorded_def
    by (rule exI [of _ beside_info]) (simp add: beside_end_def beside_ans_def)
  have finished: "buildDone (fst beside_end) ''b2'' = Some True" by (simp add: beside_end_def)
  have run: "worker_run workers_init (fst beside_end, fst (snd beside_end), snd (snd beside_end))"
    using beside_run by simp
  have "br_branch beside_req = ''main''" "br_commitSHA beside_req = ''c''" "br_target beside_req = [''//x'']"
    by (simp_all add: beside_req_def)
  with overlapping_builds_are_as_requested [OF run finished serves] show ?thesis by metis
qed

end
