(* ===== verification/Overlapping_Calls.thy ===== *)
theory Overlapping_Calls
  imports Backend_Spec Build_Workers
begin

text \<open>
  The cache with its calls overlapping. gRPC runs every call in a goroutine of its own, so while one
  call waits for the builder others run. Here a handler is cut at its calls of the builder: what runs
  before, the call in flight (its request, then its reply), and what runs after the reply, on the
  state the other calls have left. Between two such points a handler still runs as one step. The
  handlers of \<open>Cache_Server\<close> are these pieces with nothing in between. The builder's workers do a task
  as a whole or in the pieces of \<open>Build_Workers\<close>.
\<close>

section \<open>The pieces of Get\<close>

text \<open>A miss up to the call of the builder: the digest, the action and the request.\<close>

type_synonym 'any ask = "string \<times> 'any action \<times> build_request"

definition miss_begin ::
    "'any proto_lib \<Rightarrow> cache_answers \<Rightarrow> 'any agraph option \<Rightarrow> 'any action \<Rightarrow>
     ('any, 'b, 'r) cache_world \<Rightarrow>
     ((go_error + 'any operation) + 'any ask) run \<times> ('any, 'b, 'r) cache_world" where
  "miss_begin L ans actions mainAction w =
     (case ActionDigest L mainAction of
        Inl err \<Rightarrow> (Value (Inl (Inl err)), w)
      | Inr digest \<Rightarrow>
          run_then (fst (Execute L (cache_execute_order ans) actions), w) (\<lambda>_ w.
          run_then (deref actions w) (\<lambda>g w.
          run_then (deref (ag_actions g ''build'') w) (\<lambda>buildAction w.
            let config = fst (unpack_build_image_config L (act_config buildAction))
            in run_then (deref (bic_commit_point config) w) (\<lambda>cp w.
                 (Value (Inr (digest, buildAction, requested cp config)), w))))))"

definition get_begin ::
    "'any proto_lib \<Rightarrow> ('any, 'b, 'r) cache_stubs \<Rightarrow> cache_answers \<Rightarrow>
     ('any, 'b, 'r) cache_world \<Rightarrow> 'any get_request \<Rightarrow>
     ((go_error + 'any operation) + 'any ask) run \<times> ('any, 'b, 'r) cache_world" where
  "get_begin L stubs ans w req =
     run_then (deref (gr_context req) w) (\<lambda>ctx w.
       let actions = EssentialActions (ctx_actions ctx) (gr_value req)
       in run_then (GetAction actions (gr_value req), w) (\<lambda>found w.
            case found of
              Inl err \<Rightarrow> (Value (Inl (Inl err)), w)
            | Inr mainAction \<Rightarrow>
                (let w = createJob stubs w
                 in if gr_skip_caching req then miss_begin L ans actions mainAction w
                    else run_then (CacheBackend_Get L (fst w) mainAction, w) (\<lambda>cached w.
                           case cached of
                             Inr cachedOperation \<Rightarrow>
                               run_then (cached_reply L ans (fst w) cachedOperation, w)
                                 (\<lambda>reply w. (Value (Inl reply), w))
                           | Inl err \<Rightarrow> miss_begin L ans actions mainAction w))))"

text \<open>What is left of a call after its first piece, when nothing else runs.\<close>

definition get_rest ::
    "'any proto_lib \<Rightarrow> ('any, 'b, 'r) cache_stubs \<Rightarrow> cache_answers \<Rightarrow>
     (go_error + 'any operation) + 'any ask \<Rightarrow> ('any, 'b, 'r) cache_world \<Rightarrow>
     (go_error + 'any operation) run \<times> ('any, 'b, 'r) cache_world" where
  "get_rest L stubs ans x w =
     (case x of
        Inl reply \<Rightarrow> (Value reply, w)
      | Inr (digest, buildAction, request) \<Rightarrow>
          (case w of (c, b, r) \<Rightarrow>
            (case stub_build stubs b request of
               (reply, b') \<Rightarrow> register_build L ans digest buildAction reply (c, b', r))))"

lemma run_then_assoc: "run_then (run_then r k) k' = run_then r (\<lambda>x s. run_then (k x s) k')"
  by (auto simp: run_then_def split: prod.splits run.splits)

lemma fresh_build_pieces:
  "fresh_build L stubs ans actions main w = run_then (miss_begin L ans actions main w) (get_rest L stubs ans)"
proof (cases "ActionDigest L main")
  case (Inr d)
  show ?thesis
  proof (cases "\<exists>g a. actions = Some g \<and> ag_actions g ''build'' = Some a")
    case True
    then obtain g a where g: "actions = Some g" "ag_actions g ''build'' = Some a" by blast
    obtain out where "fst (Execute L (cache_execute_order ans) (Some g)) = Value out"
      using Execute_Some [of L "cache_execute_order ans" g] by auto
    with Inr g show ?thesis
      by (cases "bic_commit_point (fst (unpack_build_image_config L (act_config a)))"; cases w)
        (auto simp: fresh_build_def miss_begin_def get_rest_def buildImage_def requested_def Let_def
          split: prod.splits)
  next
    case False
    with Inr show ?thesis
      by (cases actions)
        (auto simp: fresh_build_def miss_begin_def deref_def Execute_def split: option.splits)
  qed
qed (simp add: fresh_build_def miss_begin_def get_rest_def)

lemma cache_Get_pieces:
  "cache_Get L stubs ans w req = run_then (get_begin L stubs ans w req) (get_rest L stubs ans)"
  unfolding cache_Get_def get_begin_def Let_def run_then_assoc
  by (rule arg_cong2 [where f = run_then], simp, intro ext, rule arg_cong2 [where f = run_then], simp, intro ext)
    (auto simp: fresh_build_pieces run_then_assoc get_rest_def run_then_def split: sum.splits prod.splits run.splits)

section \<open>The pieces of GetOperation\<close>

definition poll_begin ::
    "'any cache_state \<Rightarrow> string \<Rightarrow> 'any operation + string" where
  "poll_begin c name =
     (let ask =
        (case downstreamOperation c name of
           None \<Rightarrow> Inl \<lparr>op_name = name, op_done = True, op_metadata = None, op_result = None\<rparr>
         | Some operationID \<Rightarrow> Inr operationID)
      in case cb_upstream c name of
           Some lastResult \<Rightarrow> (if op_done lastResult then Inl lastResult else ask)
         | None \<Rightarrow> ask)"

definition poll_end ::
    "'any proto_lib \<Rightarrow> cache_answers \<Rightarrow> string \<Rightarrow> go_error + 'any operation \<Rightarrow> 'any cache_state \<Rightarrow>
     (go_error + 'any operation) run \<times> 'any cache_state" where
  "poll_end L ans name reply c =
     (case reply of
        Inl err \<Rightarrow> (Exited ''Failure to get operation from upstream'', c)
      | Inr operation \<Rightarrow>
          (let c1 = c\<lparr>cb_upstream := (cb_upstream c)(name \<mapsto> operation)\<rparr>
           in case (if op_done operation
                    then unpack_build_response L (GetResponse operation)
                    else (zero_build_response, None)) of
                (buildResponse, Some err) \<Rightarrow> (Exited ''Cannot unmarhshal result from builder'', c1)
              | (buildResponse, None) \<Rightarrow>
                  (respond L name (op_done operation) (image_response ans buildResponse), c1)))"

lemma cache_GetOperation_pieces:
  "cache_GetOperation L builderOp ans (c, b, r) name =
     (case poll_begin c name of
        Inl reply \<Rightarrow> (Value (Inr reply), (c, b, r))
      | Inr operationID \<Rightarrow>
          (case builderOp b operationID of
             (reply, b') \<Rightarrow> (case poll_end L ans name reply c of (res, c') \<Rightarrow> (res, (c', b', r)))))"
  by (auto simp: cache_GetOperation_def poll_begin_def poll_end_def poll_downstream_def image_response_def Let_def
      split: option.splits prod.splits sum.splits if_splits)

section \<open>Calls in flight\<close>

text \<open>
  A call of the cache that waits: for the builder to take its request, or for its own goroutine to
  take the reply. A process that dies takes its calls with it.
\<close>

datatype 'any call =
    AskBuild "'any ask"
  | GotBuild string "'any action" "go_error + 'any operation"
  | AskOp string string
  | GotOp string "go_error + 'any operation"

type_synonym 'any overlap = "'any backend \<times> 'any call multiset"

text \<open>
  One step of the cache, of one of its calls, of the builder or of the network, with the polls it
  answers: the operation and whether the answer said done.
\<close>

inductive overlap_step ::
    "'any proto_lib \<Rightarrow> ('any get_request \<Rightarrow> bool) \<Rightarrow> 'any overlap \<Rightarrow> (string \<times> bool) list \<Rightarrow>
     'any overlap \<Rightarrow> bool"
  for L ok where
  get_now: "ok req \<Longrightarrow>
    get_begin L (stubs_for bld (call_CreateJob ks create)) ans w req = (Value (Inl reply), w') \<Longrightarrow>
    overlap_step L ok (w, cs) [] (w', cs)"
| get_ask: "ok req \<Longrightarrow>
    get_begin L (stubs_for bld (call_CreateJob ks create)) ans w req = (Value (Inr x), w') \<Longrightarrow>
    overlap_step L ok (w, cs) [] (w', add_mset (AskBuild x) cs)"
| get_dies: "ok req \<Longrightarrow>
    get_begin L (stubs_for bld (call_CreateJob ks create)) ans w req = (res, w') \<Longrightarrow> \<not> returns res \<Longrightarrow>
    overlap_step L ok (w, cs) [] (cache_restart w', {#})"
| build: "builder_fresh y b \<Longrightarrow> builder_call_Build y b q = (reply, b') \<Longrightarrow>
    overlap_step L ok ((c, b, r), add_mset (AskBuild (d, a, q)) cs) []
      ((c, b', r), add_mset (GotBuild d a reply) cs)"
| build_lost: "overlap_step L ok (w, add_mset (AskBuild (d, a, q)) cs) []
      (w, add_mset (GotBuild d a (Inl err)) cs)"
| get_end: "(\<And>i. cache_uuid ans = Inr i \<Longrightarrow> downstreamOperation (fst w) i = None) \<Longrightarrow>
    register_build L ans d a reply w = (Value v, w') \<Longrightarrow>
    overlap_step L ok (w, add_mset (GotBuild d a reply) cs) [] (w', cs)"
| get_end_dies: "register_build L ans d a reply w = (res, w') \<Longrightarrow> \<not> returns res \<Longrightarrow>
    overlap_step L ok (w, add_mset (GotBuild d a reply) cs) [] (cache_restart w', {#})"
| poll_now: "poll_begin (fst w) n = Inl v \<Longrightarrow> overlap_step L ok (w, cs) [(n, op_done v)] (w, cs)"
| poll_ask: "poll_begin (fst w) n = Inr m \<Longrightarrow> overlap_step L ok (w, cs) [] (w, add_mset (AskOp n m) cs)"
| poll_builder: "builder_call_GetOperation L reg b m = (reply, b') \<Longrightarrow>
    overlap_step L ok ((c, b, r), add_mset (AskOp n m) cs) [] ((c, b', r), add_mset (GotOp n reply) cs)"
| poll_lost: "overlap_step L ok (w, add_mset (AskOp n m) cs) [] (w, add_mset (GotOp n (Inl err)) cs)"
| poll_answered: "poll_end L ans n reply c = (Value (Inr v), c') \<Longrightarrow>
    overlap_step L ok ((c, b, r), add_mset (GotOp n reply) cs) [(n, op_done v)] ((c', b, r), cs)"
| poll_dies: "poll_end L ans n reply c = (res, c') \<Longrightarrow> \<not> returns res \<Longrightarrow>
    overlap_step L ok ((c, b, r), add_mset (GotOp n reply) cs) [] (cache_restart (c', b, r), {#})"
| client_Build: "builder_fresh y b \<Longrightarrow>
    builder_call_Build y b q = ((reply :: go_error + 'any operation), b') \<Longrightarrow>
    overlap_step L ok ((c, b, r), cs) [] ((c, b', r), cs)"
| worker: "Enqueue t \<in> set (builder_trace b) \<Longrightarrow>
    overlap_step L ok ((c, b, r), cs) [] ((c, builder_process wa b t, r), cs)"
| worker_piece: "builder_piece b b' \<Longrightarrow> overlap_step L ok ((c, b, r), cs) [] ((c, b', r), cs)"
| builder_restarts: "overlap_step L ok ((c, b, r), cs) [] ((c, builder_restart b, r), cs)"
| cache_restarts: "overlap_step L ok (w, cs) [] (cache_restart w, {#})"

text \<open>A run collects what its steps answered.\<close>

inductive overlap_run ::
    "'any proto_lib \<Rightarrow> ('any get_request \<Rightarrow> bool) \<Rightarrow> 'any overlap \<Rightarrow> (string \<times> bool) list \<Rightarrow>
     'any overlap \<Rightarrow> bool"
  for L ok s where
  run_start: "overlap_run L ok s [] s"
| run_step: "overlap_run L ok s obs s1 \<Longrightarrow> overlap_step L ok s1 obs' s2 \<Longrightarrow>
    overlap_run L ok s (obs @ obs') s2"

definition overlap_reachable :: "'any proto_lib \<Rightarrow> ('any get_request \<Rightarrow> bool) \<Rightarrow> 'any overlap \<Rightarrow> bool" where
  "overlap_reachable L ok s \<longleftrightarrow> (\<exists>obs. overlap_run L ok (backend_init, {#}) obs s)"

lemma overlap_induct [consumes 1, case_names init step]:
  assumes "overlap_reachable L ok s" and "P (backend_init, {#})"
    and "\<And>s obs s'. P s \<Longrightarrow> overlap_step L ok s obs s' \<Longrightarrow> P s'"
  shows "P s"
proof -
  from assms(1) obtain obs where "overlap_run L ok (backend_init, {#}) obs s"
    by (auto simp: overlap_reachable_def)
  then show ?thesis by (induction rule: overlap_run.induct) (use assms(2,3) in blast)+
qed

section \<open>The invariant\<close>

abbreviation config_of :: "'any proto_lib \<Rightarrow> 'any action \<Rightarrow> build_image_config" where
  "config_of L a \<equiv> fst (unpack_build_image_config L (act_config a))"

text \<open>What is known of a call in flight does not depend on what other calls have done since.\<close>

fun call_ok :: "'any proto_lib \<Rightarrow> 'any backend \<Rightarrow> 'any call \<Rightarrow> bool" where
  "call_ok L (c, b, r) (AskBuild (d, a, q)) \<longleftrightarrow>
     (\<exists>cp. bic_commit_point (config_of L a) = Some cp \<and> q = requested cp (config_of L a))"
| "call_ok L (c, b, r) (GotBuild d a reply) \<longleftrightarrow>
     (\<forall>v. reply = Inr v \<longrightarrow> (\<exists>cp. bic_commit_point (config_of L a) = Some cp \<and>
        builder_serves b (op_name v) (requested cp (config_of L a))))"
| "call_ok L (c, b, r) (AskOp n m) \<longleftrightarrow> downstreamOperation c n = Some m"
| "call_ok L (c, b, r) (GotOp n reply) \<longleftrightarrow>
     (\<forall>v. reply = Inr v \<longrightarrow> result_backed L builder_built c b n v)"

definition overlap_inv :: "'any proto_lib \<Rightarrow> 'any overlap \<Rightarrow> bool" where
  "overlap_inv L s \<longleftrightarrow> backend_inv L (fst s) \<and> (\<forall>x \<in># snd s. call_ok L (fst s) x)"

lemma call_ok_mono:
  assumes "call_ok L (c, b, r) x" and "downstreamOperation c \<subseteq>\<^sub>m downstreamOperation c'"
    and "set (builder_trace b) \<subseteq> set (builder_trace b')"
  shows "call_ok L (c', b', r') x"
proof -
  have down: "downstreamOperation c n = Some m \<Longrightarrow> downstreamOperation c' n = Some m" for n m
    using assms(2) by (auto simp: map_le_def dom_def)
  show ?thesis
    using assms(1) down serves_mono [OF assms(3)] built_mono [OF assms(3)]
    by (cases x rule: call.exhaust) (fastforce simp: result_backed_def)+
qed

lemma overlap_inv_simp:
  "overlap_inv L ((c, b, r), cs) \<longleftrightarrow> backend_inv L (c, b, r) \<and> (\<forall>x \<in># cs. call_ok L (c, b, r) x)"
  by (simp add: overlap_inv_def)

lemma overlap_inv_crash: "overlap_inv L (w, cs) \<Longrightarrow> overlap_inv L (cache_restart w, {#})"
  by (auto simp: overlap_inv_def intro: builder.inv_restart)

text \<open>A step that keeps the operations and the trace keeps what is known of the calls in flight.\<close>

lemma overlap_inv_transfer:
  assumes "overlap_inv L ((c, b, r), cs)" and "backend_inv L (c', b', r')"
    and "downstreamOperation c \<subseteq>\<^sub>m downstreamOperation c'"
    and "set (builder_trace b) \<subseteq> set (builder_trace b')"
  shows "overlap_inv L ((c', b', r'), cs)"
proof -
  have "call_ok L (c', b', r') x" if "call_ok L (c, b, r) x" for x
    using that assms(3,4) by (rule call_ok_mono)
  with assms(1,2) show ?thesis by (simp add: overlap_inv_def)
qed

text \<open>The builder goes on while calls wait.\<close>

lemma overlap_inv_builder:
  assumes "overlap_inv L ((c, b, r), cs)" and "builder_inv b'"
    and "set (builder_trace b) \<subseteq> set (builder_trace b')"
  shows "overlap_inv L ((c, b', r), cs)"
proof (rule overlap_inv_transfer [OF assms(1) _ map_le_refl assms(3)])
  have "backend_inv L (c, b, r)" using assms(1) by (simp add: overlap_inv_def)
  then show "backend_inv L (c, b', r)" using assms(2,3) by (rule backend_inv_builder)
qed

lemma overlap_inv_drop: "overlap_inv L (w, add_mset x cs) \<Longrightarrow> overlap_inv L (w, cs)"
  by (simp add: overlap_inv_def)

lemma overlap_inv_add: "overlap_inv L (w, cs) \<Longrightarrow> call_ok L w x \<Longrightarrow> overlap_inv L (w, add_mset x cs)"
  by (simp add: overlap_inv_def)

text \<open>What the first piece of \<open>Get\<close> leaves: the cache and the builder as they were.\<close>

lemma miss_begin_state: "snd (miss_begin L ans actions main w) = w"
  by (cases "ActionDigest L main")
    (auto simp: miss_begin_def run_then_def deref_def Let_def split: run.splits option.splits)

lemma createJob_same: "\<exists>r'. createJob st (c, b, r) = (c, b, r')"
  by (simp add: createJob_def)

lemma get_begin_cases:
  assumes "get_begin L st ans w req = (res, w')"
  obtains (early) "w' = w" and "\<And>x. res \<noteq> Value (Inr x)"
  | (found) ctx main where "gr_context req = Some ctx"
      and "GetAction (EssentialActions (ctx_actions ctx) (gr_value req)) (gr_value req) = Value (Inr main)"
      and "w' = createJob st w"
      and "\<And>x. res = Value (Inr x) \<Longrightarrow>
        miss_begin L ans (EssentialActions (ctx_actions ctx) (gr_value req)) main (createJob st w) =
          (Value (Inr x), w')"
proof (cases "\<exists>ctx main. gr_context req = Some ctx \<and>
    GetAction (EssentialActions (ctx_actions ctx) (gr_value req)) (gr_value req) = Value (Inr main)")
  case False
  with assms early show ?thesis
    by (auto simp: get_begin_def run_then_def deref_def Let_def split: option.splits run.splits sum.splits)
next
  case True
  then obtain ctx main where m: "gr_context req = Some ctx"
    "GetAction (EssentialActions (ctx_actions ctx) (gr_value req)) (gr_value req) = Value (Inr main)"
    by blast
  let ?w = "createJob st w"
  let ?miss = "miss_begin L ans (EssentialActions (ctx_actions ctx) (gr_value req)) main ?w"
  have miss: "?miss = (res', w1) \<Longrightarrow> w1 = ?w" for res' w1
    using miss_begin_state [of L ans "EssentialActions (ctx_actions ctx) (gr_value req)" main ?w] by simp
  consider "?miss = (res, w')"
    | "w' = ?w" "\<And>x. res \<noteq> Value (Inr x)"
    using assms m
    by (cases "gr_skip_caching req"; cases "CacheBackend_Get L (fst ?w) main")
      (auto simp: get_begin_def run_then_def Let_def split: sum.splits run.splits)
  then show ?thesis
  proof cases
    case 1
    with miss m found show ?thesis by blast
  next
    case 2
    with m found show ?thesis by blast
  qed
qed

lemma get_begin_state:
  assumes "get_begin L st ans (c, b, r) req = (res, w')"
  obtains r' where "w' = (c, b, r')"
  using assms
  by (rule get_begin_cases) (use that createJob_same [of st c b r] in auto)

lemma miss_begin_ask:
  assumes "miss_begin L ans actions main w = (Value (Inr (d, a, q)), w')"
  shows "ActionDigest L main = Inr d \<and>
    (\<exists>g cp. actions = Some g \<and> ag_actions g ''build'' = Some a \<and>
       bic_commit_point (config_of L a) = Some cp \<and> q = requested cp (config_of L a))"
  using assms
  by (auto simp: miss_begin_def run_then_Value deref_def Let_def split: sum.splits option.splits)

lemma get_begin_ask:
  assumes "get_begin L st ans w req = (Value (Inr (d, a, q)), w')"
  shows "\<exists>ctx main g cp. gr_context req = Some ctx \<and>
    EssentialActions (ctx_actions ctx) (gr_value req) = Some g \<and>
    GetAction (Some g) (gr_value req) = Value (Inr main) \<and> ActionDigest L main = Inr d \<and>
    ag_actions g ''build'' = Some a \<and>
    bic_commit_point (config_of L a) = Some cp \<and> q = requested cp (config_of L a)"
proof -
  from assms obtain ctx main where
      m: "gr_context req = Some ctx"
        "GetAction (EssentialActions (ctx_actions ctx) (gr_value req)) (gr_value req) = Value (Inr main)"
        "miss_begin L ans (EssentialActions (ctx_actions ctx) (gr_value req)) main (createJob st w) =
          (Value (Inr (d, a, q)), w')"
    by (rule get_begin_cases) blast+
  from miss_begin_ask [OF m(3)] m(1,2) show ?thesis by auto
qed

text \<open>The last piece of \<open>Get\<close>, on whatever state it finds, registers a new operation or nothing.\<close>

lemma register_build_effect:
  assumes "register_build L ans d a reply (c, b, r) = (res, w')"
  shows "w' = (c, b, r) \<or>
    (\<exists>i v. cache_uuid ans = Inr i \<and> reply = Inr v \<and>
       w' = (CacheBackend_Put d i (Some a)
         (c\<lparr>downstreamOperation := (downstreamOperation c)(i \<mapsto> op_name v)\<rparr>), b, r))"
  using assms by (auto simp: register_build_def Let_def split: sum.splits)

lemma overlap_inv_register:
  assumes inv: "overlap_inv L ((c, b, r), add_mset (GotBuild d a reply) cs)"
    and fresh: "\<And>i. cache_uuid ans = Inr i \<Longrightarrow> downstreamOperation c i = None"
    and reg: "register_build L ans d a reply (c, b, r) = (res, w')"
  shows "overlap_inv L (w', cs)"
  using register_build_effect [OF reg]
proof (elim disjE exE conjE)
  assume "w' = (c, b, r)"
  with overlap_inv_drop [OF inv] show ?thesis by simp
next
  fix i v
  assume i: "cache_uuid ans = Inr i" and v: "reply = Inr v"
    and w': "w' = (CacheBackend_Put d i (Some a)
      (c\<lparr>downstreamOperation := (downstreamOperation c)(i \<mapsto> op_name v)\<rparr>), b, r)" (is "_ = (?c, _, _)")
  from inv v obtain cp where cp: "bic_commit_point (config_of L a) = Some cp"
      "builder_serves b (op_name v) (requested cp (config_of L a))"
    by (auto simp: overlap_inv_simp)
  show ?thesis
    unfolding w'
  proof (rule overlap_inv_transfer [OF overlap_inv_drop [OF inv]])
    have "backend_inv L (c, b, r)" using inv by (simp add: overlap_inv_def)
    then show "backend_inv L (?c, b, r)" using fresh [OF i] refl cp by (rule cache_inv_put)
    show "downstreamOperation c \<subseteq>\<^sub>m downstreamOperation ?c"
      using fresh [OF i] by (auto simp: CacheBackend_Put_def map_le_def dom_def)
  qed simp
qed

text \<open>The last piece of a poll keeps the reply.\<close>

lemma poll_end_effect:
  assumes "poll_end L ans n reply c = (res, c')"
  shows "c' = c \<or> (\<exists>v. reply = Inr v \<and> c' = c\<lparr>cb_upstream := (cb_upstream c)(n \<mapsto> v)\<rparr>)"
  using assms by (auto simp: poll_end_def Let_def split: sum.splits prod.splits option.splits)

lemma overlap_inv_poll_end:
  assumes inv: "overlap_inv L ((c, b, r), add_mset (GotOp n reply) cs)"
    and reply: "poll_end L ans n reply c = (res, c')"
  shows "overlap_inv L ((c', b, r), cs)"
  using poll_end_effect [OF reply]
proof (elim disjE exE conjE)
  assume "c' = c"
  with overlap_inv_drop [OF inv] show ?thesis by simp
next
  fix v
  assume v: "reply = Inr v" and c': "c' = c\<lparr>cb_upstream := (cb_upstream c)(n \<mapsto> v)\<rparr>"
  show ?thesis
  proof (rule overlap_inv_transfer [OF overlap_inv_drop [OF inv]])
    show "backend_inv L (c', b, r)"
      unfolding c' using inv v by (intro cache_inv_upstream) (simp_all add: overlap_inv_def)
  qed (simp_all add: c')
qed

section \<open>Every step keeps it\<close>

lemma overlap_inv_begin:
  assumes "overlap_inv L (w, cs)" and "get_begin L st ans w req = (res, w')"
  shows "overlap_inv L (w', cs)"
proof -
  obtain c b r where w: "w = (c, b, r)" by (rule prod_cases3)
  from assms(2) obtain r' where w': "w' = (c, b, r')" unfolding w by (rule get_begin_state)
  show ?thesis
    unfolding w'
  proof (rule overlap_inv_transfer [OF assms(1) [unfolded w]])
    show "backend_inv L (c, b, r')"
      using assms(1) unfolding w overlap_inv_simp by (subst cache_inv_runner) blast
  qed simp_all
qed

lemma overlap_inv_Get_ask:
  assumes "overlap_inv L (w, cs)" and "get_begin L st ans w req = (Value (Inr x), w')"
  shows "overlap_inv L (w', add_mset (AskBuild x) cs)"
proof -
  obtain d a q where x: "x = (d, a, q)" by (rule prod_cases3)
  obtain c b r where w': "w' = (c, b, r)" by (rule prod_cases3)
  have "call_ok L w' (AskBuild x)"
    using get_begin_ask [OF assms(2) [unfolded x]] by (auto simp: x w')
  with overlap_inv_begin [OF assms] show ?thesis by (rule overlap_inv_add)
qed

lemma overlap_inv_build:
  assumes inv: "overlap_inv L ((c, b, r), add_mset (AskBuild (d, a, q)) cs)"
    and fresh: "builder_fresh y b" and call: "builder_call_Build y b q = (reply, b')"
  shows "overlap_inv L ((c, b', r), add_mset (GotBuild d a reply) cs)"
proof -
  have invb: "builder_inv b" using inv by (simp add: overlap_inv_simp cache_inv_simp)
  have "overlap_inv L ((c, b', r), cs)"
    using overlap_inv_drop [OF inv] builder_inv_call_Build [OF call invb fresh] trace_call_Build [OF call]
    by (rule overlap_inv_builder)
  moreover have "call_ok L (c, b', r) (GotBuild d a reply)"
    using inv builder.build_serves [OF invb, of y q _ b'] call by (auto simp: overlap_inv_simp)
  ultimately show ?thesis by (rule overlap_inv_add)
qed

lemma overlap_inv_poll_builder:
  assumes laws: "proto_laws L" and inv: "overlap_inv L ((c, b, r), add_mset (AskOp n m) cs)"
    and call: "builder_call_GetOperation L reg b m = (reply, b')"
  shows "overlap_inv L ((c, b', r), add_mset (GotOp n reply) cs)"
proof -
  have invb: "builder_inv b" using inv by (simp add: overlap_inv_simp cache_inv_simp)
  have trace: "builder_trace b' = builder_trace b"
    using trace_call_GetOperation [of L reg b m] call by simp
  have "builder_inv b'" using builder.invar_get [OF invb, of L reg m] call by simp
  then have "overlap_inv L ((c, b', r), cs)"
    using overlap_inv_builder [OF overlap_inv_drop [OF inv]] trace by simp
  moreover have "call_ok L (c, b', r) (GotOp n reply)"
    using inv builder.done_built [OF laws invb] call by (auto simp: overlap_inv_simp result_backed_def)
  ultimately show ?thesis by (rule overlap_inv_add)
qed

lemma overlap_inv_step:
  assumes "proto_laws L" and "overlap_step L ok s obs s'" and "overlap_inv L s"
  shows "overlap_inv L s'"
  using assms(2,3)
proof cases
  case (get_now req bld ks create ans w reply w' cs)
  with assms(3) show ?thesis using overlap_inv_begin by blast
next
  case (get_ask req bld ks create ans w x w' cs)
  with assms(3) show ?thesis using overlap_inv_Get_ask by blast
next
  case (get_dies req bld ks create ans w res w' cs)
  with assms(3) have "overlap_inv L (w', cs)" using overlap_inv_begin by blast
  with get_dies show ?thesis using overlap_inv_crash by blast
next
  case (build y b q reply b' c r d a cs)
  with assms(3) show ?thesis using overlap_inv_build by blast
next
  case (build_lost w d a q cs err)
  with assms(3) show ?thesis by (cases w) (auto simp: overlap_inv_def)
next
  case (get_end ans w d a reply v w' cs)
  with assms(3) show ?thesis by (cases w) (use overlap_inv_register in fastforce)
next
  case (get_end_dies ans d a reply w res w' cs)
  obtain c b r where w: "w = (c, b, r)" by (rule prod_cases3)
  with get_end_dies have "w' = w"
    by (auto simp: register_build_def Let_def split: sum.splits)
  with get_end_dies assms(3) show ?thesis using overlap_inv_crash by blast
next
  case (poll_now w n v cs)
  with assms(3) show ?thesis by simp
next
  case (poll_ask w n m cs)
  then have "downstreamOperation (fst w) n = Some m"
    by (auto simp: poll_begin_def Let_def split: option.splits if_splits)
  with poll_ask assms(3) show ?thesis by (cases w) (auto simp: overlap_inv_def)
next
  case (poll_builder reg b m reply b' c r n cs)
  with assms(1,3) show ?thesis using overlap_inv_poll_builder by blast
next
  case (poll_lost w n m cs err)
  with assms(3) show ?thesis by (cases w) (auto simp: overlap_inv_def)
next
  case (poll_answered ans n reply c v c' b r cs)
  with assms(3) show ?thesis using overlap_inv_poll_end by blast
next
  case (poll_dies ans n reply c res c' b r cs)
  with assms(3) have "overlap_inv L ((c', b, r), cs)" using overlap_inv_poll_end by blast
  with poll_dies show ?thesis using overlap_inv_crash by blast
next
  case (client_Build y b q reply b' c r cs)
  with assms(3) have "builder_inv b" by (simp add: overlap_inv_simp cache_inv_simp)
  with client_Build assms(3) show ?thesis
    using overlap_inv_builder builder_inv_call_Build trace_call_Build by blast
next
  case (worker t b c r cs wa)
  with assms(3) have "builder_inv b" by (simp add: overlap_inv_simp cache_inv_simp)
  with worker assms(3) show ?thesis using overlap_inv_builder builder_process_state by blast
next
  case (worker_piece b b' c r cs)
  with assms(3) have "builder_inv b" by (simp add: overlap_inv_simp cache_inv_simp)
  with worker_piece assms(3) show ?thesis using overlap_inv_builder builder_piece_state by blast
next
  case (builder_restarts c b r cs)
  with assms(3) have "builder_inv (builder_restart b)" by (simp add: overlap_inv_simp cache_inv_simp)
  with builder_restarts assms(3) show ?thesis
    using overlap_inv_builder [of L c b r cs "builder_restart b"] by simp
next
  case (cache_restarts w cs)
  with assms(3) show ?thesis using overlap_inv_crash by blast
qed

lemma overlap_reachable_inv:
  assumes "proto_laws L" and "overlap_reachable L ok s"
  shows "overlap_inv L s"
  using assms(2)
proof (induction rule: overlap_induct)
  case init
  then show ?case by (simp add: overlap_inv_def backend_init_def cache_inv_init)
next
  case (step s obs s')
  then show ?case using overlap_inv_step [OF assms(1)] by blast
qed

section \<open>Runs without overlap\<close>

lemma run_trans:
  assumes "overlap_run L ok s1 obs' s2" and "overlap_run L ok s obs s1"
  shows "overlap_run L ok s (obs @ obs') s2"
  using assms
  by (induction rule: overlap_run.induct) (auto simp: append_assoc [symmetric] intro: run_step simp del: append_assoc)

lemma run_one: "overlap_step L ok s obs s' \<Longrightarrow> overlap_run L ok s obs s'"
  using run_step [OF run_start] by fastforce

lemma run_then_one: "overlap_step L ok s obs s1 \<Longrightarrow> overlap_run L ok s1 obs' s2 \<Longrightarrow> overlap_run L ok s (obs @ obs') s2"
  by (rule run_trans [OF _ run_one])

lemma Get_overlaps:
  fixes L :: "'any proto_lib"
  assumes "ok req" and "fresh_answers y ans w" and "backend_Get L y job ans w req = (reply, w')"
  shows "\<exists>obs cs'. overlap_run L ok (w, cs) obs (w', cs')"
proof -
  let ?st = "stubs_for (builder_call_Build y) (call_CreateJob (fst job) (snd job))"
  obtain c b r where w: "w = (c, b, r)" by (rule prod_cases3)
  obtain res w1 where bg: "get_begin L ?st ans w req = (res, w1)" by (rule prod.exhaust)
  obtain r1 where w1: "w1 = (c, b, r1)" using bg unfolding w by (rule get_begin_state)
  consider reply1 where "res = Value (Inl reply1)" | d a q where "res = Value (Inr (d, a, q))" | "\<not> returns res"
    by (cases res) (auto, metis sum.exhaust prod_cases3)
  then show ?thesis
  proof cases
    case (1 reply1)
    then have "w' = w1"
      using assms(3) bg
      by (auto simp: backend_Get_def cache_call_Get_def cache_Get_pieces get_rest_def rpc_def split: sum.splits)
    with get_now [where ok = ok and req = req, OF assms(1) bg [unfolded 1]] run_one show ?thesis by blast
  next
    case (2 d a q)
    obtain reply1 :: "go_error + 'any operation" and b1
      where call: "builder_call_Build y b q = (reply1, b1)" by (rule prod.exhaust)
    have fresh: "builder_fresh y b" "\<And>i. cache_uuid ans = Inr i \<Longrightarrow> downstreamOperation c i = None"
      using assms(2) by (auto simp: w fresh_answers_def)
    obtain res2 w2 where reg: "register_build L ans d a reply1 (c, b1, r1) = (res2, w2)" by (rule prod.exhaust)
    have end_w': "w' = (if returns res2 then w2 else cache_restart w2)"
      using assms(3) bg 2 call reg
      by (cases res2) (auto simp: backend_Get_def cache_call_Get_def cache_Get_pieces get_rest_def w1 rpc_def
          split: sum.splits)
    have last: "\<exists>cs'. overlap_step L ok ((c, b1, r1), add_mset (GotBuild d a reply1) cs) [] (w', cs')"
    proof (cases "returns res2")
      case True
      then obtain v where "res2 = Value v" by (cases res2) auto
      with reg end_w' fresh(2) get_end [of ans "(c, b1, r1)" L d a reply1 v w2 ok cs] show ?thesis by auto
    next
      case False
      with reg end_w' get_end_dies [of L ans d a reply1 "(c, b1, r1)" res2 w2 ok cs] show ?thesis by auto
    qed
    have ask: "overlap_step L ok (w, cs) [] ((c, b, r1), add_mset (AskBuild (d, a, q)) cs)"
      using get_ask [where ok = ok and req = req, OF assms(1) bg [unfolded 2 w1]] .
    have answer: "overlap_step L ok ((c, b, r1), add_mset (AskBuild (d, a, q)) cs) []
        ((c, b1, r1), add_mset (GotBuild d a reply1) cs)"
      using fresh(1) call by (rule build)
    from last obtain cs' where l: "overlap_step L ok ((c, b1, r1), add_mset (GotBuild d a reply1) cs) [] (w', cs')"
      by blast
    from run_then_one [OF ask run_then_one [OF answer run_one [OF l]]] show ?thesis by blast
  next
    case 3
    then have "w' = cache_restart w1"
      using assms(3) bg
      by (cases res) (auto simp: backend_Get_def cache_call_Get_def cache_Get_pieces rpc_def)
    with get_dies [where ok = ok and req = req, OF assms(1) bg 3] run_one show ?thesis by blast
  qed
qed

lemma poll_end_no_error: "fst (poll_end L ans n reply c) \<noteq> Value (Inl err)"
  by (auto simp: poll_end_def respond_def Let_def split: sum.splits prod.splits option.splits if_splits)

lemma GetOperation_overlaps:
  assumes "backend_GetOperation L x w n = (reply, w')"
  shows "\<exists>obs cs'. overlap_run L ok (w, cs) obs (w', cs')"
proof -
  obtain c b r where w: "w = (c, b, r)" by (rule prod_cases3)
  obtain reg ans where x: "x = (reg, ans)" by (rule prod.exhaust)
  have call: "rpc cache_restart (cache_GetOperation L (builder_call_GetOperation L reg) ans (c, b, r) n) = (reply, w')"
    using assms by (simp add: backend_GetOperation_def cache_call_GetOperation_def w x)
  show ?thesis
  proof (cases "poll_begin c n")
    case (Inl v)
    with call have "w' = w" by (simp add: cache_GetOperation_pieces w)
    with Inl w poll_now [of w n v] run_one show ?thesis by fastforce
  next
    case (Inr m)
    obtain reply1 b1 where op: "builder_call_GetOperation L reg b m = (reply1, b1)" by (rule prod.exhaust)
    obtain res c1 where fin: "poll_end L ans n reply1 c = (res, c1)" by (rule prod.exhaust)
    have w': "w' = (if returns res then (c1, b1, r) else cache_restart (c1, b1, r))"
      using call Inr op fin by (cases res) (auto simp: cache_GetOperation_pieces rpc_def split: sum.splits)
    have last: "\<exists>obs cs'. overlap_step L ok ((c, b1, r), add_mset (GotOp n reply1) cs) obs (w', cs')"
    proof (cases "returns res")
      case True
      then obtain v where "res = Value (Inr v)"
        using fin poll_end_no_error [of L ans n reply1 c] by (cases res) (auto, metis sum.exhaust)
      with fin w' poll_answered [of L ans n reply1 c v c1 ok b1 r cs] show ?thesis by auto
    next
      case False
      with w' poll_dies [OF fin] show ?thesis by auto blast
    qed
    have ask: "overlap_step L ok (w, cs) [] ((c, b, r), add_mset (AskOp n m) cs)"
      using Inr w poll_ask [of w n m] by simp
    have answer: "overlap_step L ok ((c, b, r), add_mset (AskOp n m) cs) []
        ((c, b1, r), add_mset (GotOp n reply1) cs)"
      using op by (rule poll_builder)
    from last obtain obs cs' where
        l: "overlap_step L ok ((c, b1, r), add_mset (GotOp n reply1) cs) obs (w', cs')" by blast
    from run_then_one [OF ask run_then_one [OF answer run_one [OF l]]] show ?thesis by blast
  qed
qed

lemma backend_step_overlaps:
  assumes "backend_step L ok w w'"
  shows "\<exists>obs cs'. overlap_run L ok (w, cs) obs (w', cs')"
  using assms
proof cases
  case (step_Get req y ans job reply)
  then show ?thesis by (rule Get_overlaps)
next
  case (step_GetOperation x n reply)
  then show ?thesis by (rule GetOperation_overlaps)
next
  case (step_Build y b q reply b' c r)
  with run_one client_Build show ?thesis by blast
next
  case (step_Worker t b c r wa)
  with run_one worker show ?thesis by blast
next
  case (step_Builder_restart c b r)
  with run_one builder_restarts show ?thesis by blast
next
  case step_Cache_restart
  with run_one cache_restarts show ?thesis by blast
qed

lemma reachable_overlaps:
  assumes "reachable L ok w"
  shows "\<exists>cs. overlap_reachable L ok (w, cs)"
  using assms
proof (induction rule: reachable_induct)
  case init
  have "overlap_reachable L ok (backend_init, {#})"
    unfolding overlap_reachable_def using run_start by blast
  then show ?case by blast
next
  case (step w w')
  then obtain obs cs where "overlap_run L ok (backend_init, {#}) obs (w, cs)"
    by (auto simp: overlap_reachable_def)
  with backend_step_overlaps [OF step.hyps(2)] run_trans show ?case
    unfolding overlap_reachable_def by metis
qed

section \<open>Entries under the digest of their action\<close>

fun call_keyed :: "'any proto_lib \<Rightarrow> 'any call \<Rightarrow> bool" where
  "call_keyed L (AskBuild (d, a, q)) \<longleftrightarrow> act_kind a = ''build-image'' \<and> ActionDigest L a = Inr d"
| "call_keyed L (GotBuild d a reply) \<longleftrightarrow> act_kind a = ''build-image'' \<and> ActionDigest L a = Inr d"
| "call_keyed L (AskOp n m) \<longleftrightarrow> True"
| "call_keyed L (GotOp n reply) \<longleftrightarrow> True"

definition overlap_keyed :: "'any proto_lib \<Rightarrow> 'any overlap \<Rightarrow> bool" where
  "overlap_keyed L s \<longleftrightarrow> cache_keyed L (fst (fst s)) \<and> (\<forall>x \<in># snd s. call_keyed L x)"

lemma get_begin_keyed:
  assumes "asks_build req" and "get_begin L st ans w req = (Value (Inr x), w')"
  shows "call_keyed L (AskBuild x)"
proof -
  obtain d a q where x: "x = (d, a, q)" by (rule prod_cases3)
  from get_begin_ask [OF assms(2) [unfolded x]] assms(1) show ?thesis
    by (auto simp: x asks_build_def EssentialActions_def split: option.splits)
qed

lemma get_begin_cache: "get_begin L st ans w req = (res, w') \<Longrightarrow> fst w' = fst w"
  by (cases w) (auto elim: get_begin_state)

lemma register_build_keyed:
  assumes "cache_keyed L (fst w)" and "call_keyed L (GotBuild d a reply)"
    and "register_build L ans d a reply w = (res, w')"
  shows "cache_keyed L (fst w')"
proof -
  obtain c b r where w: "w = (c, b, r)" by (rule prod_cases3)
  from register_build_effect [OF assms(3) [unfolded w]] show ?thesis
  proof (elim disjE exE conjE)
    assume "w' = (c, b, r)"
    with assms(1) w show ?thesis by simp
  next
    fix i v
    assume "w' = (CacheBackend_Put d i (Some a)
      (c\<lparr>downstreamOperation := (downstreamOperation c)(i \<mapsto> op_name v)\<rparr>), b, r)"
    moreover have "entry_keyed L d \<lparr>cv_Action = Some a, cv_Operation = i\<rparr>"
      using assms(2) by (simp add: entry_keyed_def)
    ultimately show ?thesis
      using cache_keyed_put [of L c d _ "fst w'"] assms(1) w by (simp add: CacheBackend_Put_def)
  qed
qed

lemma poll_end_keyed: "poll_end L ans n reply c = (res, c') \<Longrightarrow> cache_keyed L c \<Longrightarrow> cache_keyed L c'"
  using poll_end_effect [of L ans n reply c res c'] cache_keyed_same [of L c c'] by auto

lemma overlap_keyed_step:
  assumes "overlap_step L asks_build s obs s'" and "overlap_keyed L s"
  shows "overlap_keyed L s'"
  using assms
proof cases
  case (get_now req bld ks create ans w reply w' cs)
  with assms(2) show ?thesis using get_begin_cache by (fastforce simp: overlap_keyed_def)
next
  case (get_ask req bld ks create ans w x w' cs)
  with assms(2) get_begin_keyed [OF get_ask(4,5)] get_begin_cache [OF get_ask(5)] show ?thesis
    by (simp add: overlap_keyed_def)
next
  case (get_dies req bld ks create ans w res w' cs)
  with assms(2) get_begin_cache [OF get_dies(5)] cache_keyed_restart [of L w'] show ?thesis
    by (simp add: overlap_keyed_def)
next
  case (get_end ans w d a reply v w' cs)
  with assms(2) register_build_keyed [OF _ _ get_end(5)] show ?thesis by (simp add: overlap_keyed_def)
next
  case (get_end_dies ans d a reply w res w' cs)
  with assms(2) register_build_keyed [OF _ _ get_end_dies(4)] cache_keyed_restart [of L w'] show ?thesis
    by (simp add: overlap_keyed_def)
next
  case (poll_answered ans n reply c v c' b r cs)
  with assms(2) poll_end_keyed [OF poll_answered(4)] show ?thesis by (simp add: overlap_keyed_def)
next
  case (poll_dies ans n reply c res c' b r cs)
  with assms(2) poll_end_keyed [OF poll_dies(4)] cache_keyed_restart [of L "(c', b, r)"] show ?thesis
    by (simp add: overlap_keyed_def)
next
  case (cache_restarts w cs)
  with assms(2) cache_keyed_restart [of L w] show ?thesis by (simp add: overlap_keyed_def)
qed (use assms(2) in \<open>auto simp: overlap_keyed_def\<close>)

lemma overlap_reachable_keyed:
  assumes "overlap_reachable L asks_build s"
  shows "overlap_keyed L s"
  using assms
proof (induction rule: overlap_induct)
  case init
  then show ?case by (simp add: overlap_keyed_def backend_init_def cache_keyed_def NewCacheBackend_def)
next
  case (step s obs s')
  then show ?case using overlap_keyed_step by blast
qed

section \<open>A late reply\<close>

text \<open>The reply of a poll that asked while the build ran, taken by its goroutine afterwards.\<close>

lemma poll_end_pending:
  assumes "runtime_ok L" and "\<not> op_done opn"
  obtains v where "poll_end L ans n (Inr opn) c = (Value (Inr v), c\<lparr>cb_upstream := (cb_upstream c)(n \<mapsto> opn)\<rparr>)"
    and "\<not> op_done v"
proof -
  have "proto_laws L" "packs_all (pack_get_response L)" using assms(1) by (simp_all add: runtime_ok_def)
  then obtain v where "respond L n False (image_response ans zero_build_response) = Value (Inr v)" "\<not> op_done v"
    by (rule respond_total [where n = n and d = False and resp = "image_response ans zero_build_response"]) simp
  with assms(2) show ?thesis by (intro that [of v]) (simp_all add: poll_end_def)
qed

lemma poll_end_done:
  assumes "runtime_ok L" and "pack_build_response L resp = Inr a"
  obtains v where "poll_end L ans n (Inr (reply_operation m True a)) c =
      (Value (Inr v), c\<lparr>cb_upstream := (cb_upstream c)(n \<mapsto> reply_operation m True a)\<rparr>)"
    and "op_done v"
proof -
  have laws: "proto_laws L" "packs_all (pack_get_response L)" using assms(1) by (simp_all add: runtime_ok_def)
  then obtain v where "respond L n True (image_response ans resp) = Value (Inr v)" "op_done v"
    by (rule respond_total [where n = n and d = True and resp = "image_response ans resp"]) simp
  with proto_laws_unpack(3) [OF laws(1) assms(2)] show ?thesis
    by (intro that [of v]) (simp_all add: poll_end_def)
qed

text \<open>One poll from its start to its answer, while the calls \<open>cs\<close> wait.\<close>

lemma run_poll_pending:
  assumes "runtime_ok L" and "waits_for c n m" and "buildDone b m \<noteq> Some True"
  shows "\<exists>c'. overlap_run L ok ((c, b, r), cs) [(n, False)] ((c', b, r), cs) \<and> waits_for c' n m"
proof -
  let ?op = "\<lparr>op_name = m, op_done = False, op_metadata = None, op_result = None\<rparr>"
  have "poll_begin (fst (c, b, r)) n = Inr m"
    using assms(2) by (auto simp: poll_begin_def waits_for_def split: option.splits)
  note ask = poll_ask [OF this, of L ok cs]
  note answer = poll_builder [OF builder_GetOperation_pending [OF assms(3)], of L ok c r n cs]
  have "\<not> op_done ?op" by simp
  then obtain v where v: "poll_end L undefined n (Inr ?op) c =
      (Value (Inr v), c\<lparr>cb_upstream := (cb_upstream c)(n \<mapsto> ?op)\<rparr>)" "\<not> op_done v"
    by (rule poll_end_pending [OF assms(1)])
  note fin = poll_answered [OF v(1), of ok b r cs]
  from run_then_one [OF ask run_then_one [OF answer run_one [OF fin]]] v(2)
  have "overlap_run L ok ((c, b, r), cs) [(n, False)] ((c\<lparr>cb_upstream := (cb_upstream c)(n \<mapsto> ?op)\<rparr>, b, r), cs)"
    by simp
  moreover have "waits_for (c\<lparr>cb_upstream := (cb_upstream c)(n \<mapsto> ?op)\<rparr>) n m"
    using assms(2) by (simp add: waits_for_def)
  ultimately show ?thesis by blast
qed

lemma late_reply_run:
  assumes ok: "runtime_ok L" and wait: "waits_for c n m" and "buildDone b m \<noteq> Some True"
    and "Enqueue t \<in> set (builder_trace b)" and "buildDone (builder_process wa b t) m = Some True"
  shows "\<exists>c'. overlap_run L okr ((c, b, r), cs) [(n, True), (n, False), (n, False)]
    ((c', builder_restart (builder_process wa b t), r), cs)"
proof -
  let ?b1 = "builder_process wa b t"
  let ?old = "\<lparr>op_name = m, op_done = False, op_metadata = None, op_result = None\<rparr>"
  let ?late = "GotOp n (Inr ?old)"
  have starts: "poll_begin (fst (c, b', r)) n = Inr m" for b' :: builder_state
    using wait by (auto simp: poll_begin_def waits_for_def split: option.splits)
  fix reg
  obtain a where a: "pack_build_response L (built_response reg ?b1 m) = Inr a"
    using ok unfolding runtime_ok_def packs_all_def by blast
  let ?done = "GotOp n (Inr (reply_operation m True a))"
  let ?c1 = "c\<lparr>cb_upstream := (cb_upstream c)(n \<mapsto> reply_operation m True a)\<rparr>"
  let ?c2 = "?c1\<lparr>cb_upstream := (cb_upstream ?c1)(n \<mapsto> ?old)\<rparr>"
  note ask1 = poll_ask [OF starts [of b], of L okr cs]
  note got1 = poll_builder [OF builder_GetOperation_pending [OF assms(3)], of L okr c r n cs]
  note work = worker [OF assms(4), of L okr c r "add_mset ?late cs" wa]
  note ask2 = poll_ask [OF starts [of ?b1], of L okr "add_mset ?late cs"]
  note got2 = poll_builder [OF builder_GetOperation_done [OF assms(5) a], of okr c r n "add_mset ?late cs"]
  obtain v where "poll_end L undefined n (Inr (reply_operation m True a)) c = (Value (Inr v), ?c1)" "op_done v"
    by (rule poll_end_done [OF ok a])
  with poll_answered [of L undefined n "Inr (reply_operation m True a)" c v ?c1 okr ?b1 r "add_mset ?late cs"]
  have told: "overlap_step L okr ((c, ?b1, r), add_mset ?done (add_mset ?late cs)) [(n, True)]
      ((?c1, ?b1, r), add_mset ?late cs)" by simp
  have "\<not> op_done ?old" by simp
  then obtain v' where "poll_end L undefined n (Inr ?old) ?c1 = (Value (Inr v'), ?c2)" "\<not> op_done v'"
    by (rule poll_end_pending [OF ok])
  with poll_answered [of L undefined n "Inr ?old" ?c1 v' ?c2 okr ?b1 r cs]
  have late: "overlap_step L okr ((?c1, ?b1, r), add_mset ?late cs) [(n, False)] ((?c2, ?b1, r), cs)" by simp
  have "waits_for ?c2 n m" using wait by (simp add: waits_for_def)
  then obtain c' where again: "overlap_run L okr ((?c2, builder_restart ?b1, r), cs) [(n, False)]
      ((c', builder_restart ?b1, r), cs)"
    using run_poll_pending [OF ok, of ?c2 n m "builder_restart ?b1" okr r cs] by auto
  note rest = run_then_one [OF told run_then_one [OF late run_then_one [OF builder_restarts again]]]
  from run_then_one [OF ask1 run_then_one [OF got1 run_then_one [OF work run_then_one [OF ask2
        run_then_one [OF got2 rest]]]]]
  show ?thesis by auto
qed

end
