(* ===== verification/Deployment.thy ===== *)
theory Deployment
  imports Overlapping_Calls
begin

text \<open>
  The whole deployment: the engine in front of the backend of \<open>Overlapping_Calls\<close>. gRPC runs every
  call of the engine in a goroutine of its own too, so evaluations and polls overlap, each waiting
  for its own call of the cache while others go on. Here the handlers of \<open>Engine\<close> are cut at their
  calls of the cache, and a call of the cache is in the pieces of \<open>Overlapping_Calls\<close>. A ghost
  history keeps which identifiers were drawn and what every evaluation asked for; the invariant says
  that whatever a client is told to be done is an image of what it asked for.
\<close>

section \<open>The pieces of Eval\<close>

type_synonym 'any found = "bool \<times> (string \<rightharpoonup> 'any operation)"

definition value_request :: "string \<Rightarrow> 'any eval_request \<Rightarrow> string \<Rightarrow> 'any get_request" where
  "value_request ident req value =
     \<lparr>gr_evaluation = ident, gr_context = er_context req, gr_value = value,
      gr_skip_caching = er_skip_caching req\<rparr>"

text \<open>What one round of the loop does with the reply of the cache.\<close>

definition eval_take ::
    "'any proto_lib \<Rightarrow> string \<Rightarrow> go_error + 'any operation \<Rightarrow> 'any found \<Rightarrow>
     (go_error + 'any found) run" where
  "eval_take L value reply found =
     (case reply of
        Inl err \<Rightarrow> Value (Inl err)
      | Inr operation \<Rightarrow>
          (if op_done operation \<and> GetResponse operation \<noteq> None \<and>
              snd (unpack_get_response L (GetResponse operation)) \<noteq> None
           then Exited (''1 Cannot unmarhshal result for '' @ value)
           else if snd (unpack_get_response L (GetResponse operation)) \<noteq> None
           then Exited (''2 Cannot unmarhshal result for '' @ value)
           else Value (Inr (fst found \<and> op_done operation, (snd found)(value \<mapsto> operation)))))"

lemma eval_values_pieces:
  "eval_values L get ident req i (value # values) d ops c =
     (case get i c (value_request ident req value) of
        (reply, c1) \<Rightarrow>
          (case eval_take L value reply (d, ops) of
             Panicked p \<Rightarrow> (Panicked p, c1)
           | Exited m \<Rightarrow> (Exited m, c1)
           | Value (Inl err) \<Rightarrow> (Value (Inl err), c1)
           | Value (Inr (d', ops')) \<Rightarrow> eval_values L get ident req (Suc i) values d' ops' c1))"
  by (auto simp: eval_take_def value_request_def split: prod.splits sum.splits)

text \<open>What is left after the loop.\<close>

definition eval_finish ::
    "'any proto_lib \<Rightarrow> (string \<Rightarrow> go_error + string) \<Rightarrow> engine_answers \<Rightarrow> string \<Rightarrow> 'any eval_request \<Rightarrow>
     'any found \<Rightarrow> engine_state \<Rightarrow> (go_error + 'any operation) run \<times> engine_state" where
  "eval_finish L parse ans ident req found e =
     run_then (newEvaluation parse ans ident (snd found) e) (\<lambda>failed e.
       case failed of
         Some err \<Rightarrow> (Value (Inl err), e)
       | None \<Rightarrow>
           run_then
             (if fst found then collect_values L (snd found) (er_values req) Map.empty
              else Value Map.empty, e)
             (\<lambda>results e. (eval_reply L ident (fst found) results, e)))"

lemma Eval_pieces:
  "Eval L parse get ans (e, c) req =
     (case eng_uuid ans of
        Inl err \<Rightarrow> (Value (Inl err), (e, c))
      | Inr ident \<Rightarrow>
          (case eval_values L get ident req 0 (er_values req) True Map.empty c of
             (Panicked p, c1) \<Rightarrow> (Panicked p, (e, c1))
           | (Exited m, c1) \<Rightarrow> (Exited m, (e, c1))
           | (Value (Inl err), c1) \<Rightarrow> (Value (Inl err), (e, c1))
           | (Value (Inr found), c1) \<Rightarrow>
               (case eval_finish L parse ans ident req found e of (r, e1) \<Rightarrow> (r, (e1, c1)))))"
  by (auto simp: Eval_def eval_finish_def run_then_def split: sum.splits prod.splits run.splits option.splits)

section \<open>The pieces of GetOperation\<close>

type_synonym seen = "bool \<times> (string \<rightharpoonup> typed_value option)"

definition poll_take ::
    "'any proto_lib \<Rightarrow> OperationRow \<Rightarrow> go_error + 'any operation \<Rightarrow> seen \<Rightarrow> seen run" where
  "poll_take L row reply seen =
     (case reply of
        Inl err \<Rightarrow> Panicked nil_dereference
      | Inr operation \<Rightarrow>
          (if op_done operation then
             (case unpack_get_response L (GetResponse operation) of
                (response, Some err) \<Rightarrow> Exited ''Cannot unmarhshal result''
              | (response, None) \<Rightarrow>
                  Value (fst seen \<and> op_done operation, (snd seen)(or_Value row \<mapsto> gresp_value response)))
           else Value (fst seen \<and> op_done operation, snd seen)))"

lemma poll_rows_pieces:
  "poll_rows L cacheOp i (row # rows) d res c =
     (case cacheOp i c (or_DependentID row) of
        (reply, c1) \<Rightarrow>
          (case poll_take L row reply (d, res) of
             Panicked p \<Rightarrow> (Panicked p, c1)
           | Exited m \<Rightarrow> (Exited m, c1)
           | Value (d', res') \<Rightarrow> poll_rows L cacheOp (Suc i) rows d' res' c1))"
  by (auto simp: poll_take_def split: prod.splits sum.splits option.splits)

section \<open>The state\<close>

text \<open>
  A goroutine of the engine: an \<open>Eval\<close> with the values it still has to ask for, or a \<open>GetOperation\<close>
  with the rows it still has to ask for. It is ready for its next call, waits in the cache, or has
  its reply on the way. A call of the cache whose caller is gone goes on without one.
\<close>

datatype 'any goroutine =
    Evaluating string "'any eval_request" "string list" "'any found"
  | Polling string "OperationRow list" seen

datatype 'any stage =
    Ready "'any goroutine"
  | InCache "'any goroutine option" "'any call"
  | Answered "'any goroutine" "go_error + 'any operation"

text \<open>The history: the identifiers the cache has drawn, and what each evaluation asked for.\<close>

record 'any history =
  used :: "string set"
  asked :: "string \<rightharpoonup> 'any eval_request"

type_synonym 'any deployment =
  "engine_state \<times> 'any backend \<times> 'any stage multiset \<times> 'any history"

definition deploy_init :: "'any deployment" where
  "deploy_init = (engine_init, backend_init, {#}, \<lparr>used = {}, asked = Map.empty\<rparr>)"

fun stage_calls :: "'any stage \<Rightarrow> 'any call multiset" where
  "stage_calls (InCache g x) = {#x#}"
| "stage_calls s = {#}"

definition calls_of :: "'any stage multiset \<Rightarrow> 'any call multiset" where
  "calls_of gs = sum_mset (image_mset stage_calls gs)"

text \<open>A reply of the cache goes to the goroutine that asked, if it is still there.\<close>

definition answer :: "'any goroutine option \<Rightarrow> go_error + 'any operation \<Rightarrow> 'any stage multiset" where
  "answer g reply = (case g of None \<Rightarrow> {#} | Some g \<Rightarrow> {#Answered g reply#})"

text \<open>When the cache dies, its callers get an error; when the engine dies, its calls lose their callers.\<close>

fun stage_cut :: "'any stage \<Rightarrow> 'any stage multiset" where
  "stage_cut (InCache g x) = answer g (Inl ErrUnavailable)"
| "stage_cut s = {#s#}"

definition cut_off :: "'any stage multiset \<Rightarrow> 'any stage multiset" where
  "cut_off gs = sum_mset (image_mset stage_cut gs)"

fun stage_orphan :: "'any stage \<Rightarrow> 'any stage multiset" where
  "stage_orphan (InCache g x) = {#InCache None x#}"
| "stage_orphan s = {#}"

definition orphaned :: "'any stage multiset \<Rightarrow> 'any stage multiset" where
  "orphaned gs = sum_mset (image_mset stage_orphan gs)"

lemma calls_of_simps [simp]:
  "calls_of {#} = {#}"
  "calls_of (add_mset s gs) = stage_calls s + calls_of gs"
  "calls_of (gs + gs') = calls_of gs + calls_of gs'"
  by (simp_all add: calls_of_def)

lemma calls_of_answer [simp]: "calls_of (answer g reply) = {#}"
  by (simp add: answer_def split: option.splits)

lemma calls_of_cut_off [simp]: "calls_of (cut_off gs) = {#}"
proof -
  have "calls_of (stage_cut s) = {#}" for s :: "'a stage" by (cases s) simp_all
  then show ?thesis by (induction gs) (simp_all add: cut_off_def)
qed

lemma calls_of_orphaned [simp]: "calls_of (orphaned gs) = calls_of gs"
proof -
  have "calls_of (stage_orphan s) = stage_calls s" for s :: "'a stage" by (cases s) simp_all
  then show ?thesis by (induction gs) (simp_all add: orphaned_def)
qed

lemma in_cut_off: "s \<in># cut_off gs \<Longrightarrow> s \<in># gs \<or> (\<exists>g x. s = Answered g (Inl ErrUnavailable) \<and> InCache (Some g) x \<in># gs)"
proof (induction gs)
  case (add t gs)
  then show ?case
    by (cases t) (auto simp: cut_off_def answer_def split: option.splits)
qed (simp add: cut_off_def)

lemma in_orphaned: "s \<in># orphaned gs \<Longrightarrow> \<exists>x. s = InCache None x"
proof (induction gs)
  case (add t gs)
  then show ?case by (cases t) (auto simp: orphaned_def)
qed (simp add: orphaned_def)

section \<open>Steps\<close>

text \<open>
  What an evaluation asks for. It is for image builds when every value names the action \<open>build\<close> of
  its graph, an image build with a configuration that unpacks, as in \<open>evalctl eval image.build\<close>. An
  evaluation may ask for anything; that all of them are for image builds is a hypothesis where it is
  needed, because \<open>Get\<close> builds \<open>build\<close> whatever it is asked for.
\<close>

definition asks_for ::
    "'any proto_lib \<Rightarrow> 'any eval_request \<Rightarrow> string \<Rightarrow> build_image_config \<Rightarrow> bool" where
  "asks_for L req v cfg \<longleftrightarrow>
     asks_build (value_request [] req v) \<and>
     (\<exists>ctx main. er_context req = Some ctx \<and>
        GetAction (EssentialActions (ctx_actions ctx) v) v = Value (Inr main) \<and>
        unpack_build_image_config L (act_config main) = (cfg, None))"

definition asks_images :: "'any proto_lib \<Rightarrow> 'any eval_request \<Rightarrow> bool" where
  "asks_images L req \<longleftrightarrow> (\<forall>v \<in> set (er_values req). \<exists>cfg. asks_for L req v cfg)"

text \<open>The orders in which the cache's loops run over the dictionary of an image.\<close>

definition image_orders :: "cache_answers \<Rightarrow> bool" where
  "image_orders ans \<longleftrightarrow>
     (let names = {''image_name'', ''image_tag'', ''image_digest''}
      in distinct (cache_type_order ans) \<and> set (cache_type_order ans) = names \<and>
         distinct (cache_value_order ans) \<and> set (cache_value_order ans) = names)"

lemma image_orders_range:
  assumes "image_orders ans"
  shows "range_order (image_info resp) (cache_type_order ans)" and "range_order (image_info resp) (cache_value_order ans)"
  using assms by (auto simp: image_orders_def range_order_def image_info_def Let_def)

text \<open>The call as the builder's side of the network leaves it when the connection breaks.\<close>

fun broken_off :: "go_error \<Rightarrow> 'any call \<Rightarrow> 'any call" where
  "broken_off err (AskBuild (d, a, q)) = GotBuild d a (Inl err)"
| "broken_off err (AskOp n m) = GotOp n (Inl err)"
| "broken_off err x = x"

text \<open>What clients are told: the reply of an \<open>Eval\<close> or of a \<open>GetOperation\<close> of the engine.\<close>

datatype 'any told =
    EvalTold string "'any operation"
  | PollTold string "'any operation"

text \<open>
  One step of the engine, of the cache, of one of their calls, of the builder, its workers or the
  network. The rules \<open>e_\<close> are the engine's, \<open>c_\<close> the cache's, \<open>b_\<close> the builder's. An identifier is
  never drawn twice, and the text of one is what the engine's parser makes of it.
\<close>

inductive deploy_step ::
    "'any proto_lib \<Rightarrow> (string \<Rightarrow> go_error + string) \<Rightarrow>
     (engine_effect list \<Rightarrow> string \<Rightarrow> OperationRow list) \<Rightarrow>
     'any deployment \<Rightarrow> 'any told list \<Rightarrow> 'any deployment \<Rightarrow> bool"
  for L parse load where
  e_eval: "asked H ident = None \<Longrightarrow>
    deploy_step L parse load (e, w, gs, H) []
      (e, w, add_mset (Ready (Evaluating ident req (er_values req) (True, Map.empty))) gs,
       H\<lparr>asked := (asked H)(ident \<mapsto> req)\<rparr>)"
| e_poll: "deploy_step L parse load (e, w, gs, H) []
      (e, w, add_mset (Ready (Polling n (load (engine_trace e) n) (True, Map.empty))) gs, H)"
| c_get_now: "g = Evaluating ident req (v # vs) found \<Longrightarrow>
    get_begin L (stubs_for bld (call_CreateJob ks create)) ans w (value_request ident req v) =
      (Value (Inl reply), w') \<Longrightarrow> image_orders ans \<Longrightarrow>
    deploy_step L parse load (e, w, add_mset (Ready g) gs, H) []
      (e, w', add_mset (Answered g reply) gs, H)"
| c_get_ask: "g = Evaluating ident req (v # vs) found \<Longrightarrow>
    get_begin L (stubs_for bld (call_CreateJob ks create)) ans w (value_request ident req v) =
      (Value (Inr x), w') \<Longrightarrow>
    deploy_step L parse load (e, w, add_mset (Ready g) gs, H) []
      (e, w', add_mset (InCache (Some g) (AskBuild x)) gs, H)"
| c_get_dies: "g = Evaluating ident req (v # vs) found \<Longrightarrow>
    get_begin L (stubs_for bld (call_CreateJob ks create)) ans w (value_request ident req v) =
      (res, w') \<Longrightarrow> \<not> returns res \<Longrightarrow>
    deploy_step L parse load (e, w, add_mset (Ready g) gs, H) []
      (e, cache_restart w', add_mset (Answered g (Inl ErrUnavailable)) (cut_off gs), H)"
| c_get_end: "(\<And>i. cache_uuid ans = Inr i \<Longrightarrow> i \<notin> used H \<and> parse i = Inr i) \<Longrightarrow>
    register_build L ans d a reply w = (Value v, w') \<Longrightarrow>
    deploy_step L parse load (e, w, add_mset (InCache g (GotBuild d a reply)) gs, H) []
      (e, w', answer g v + gs,
       H\<lparr>used := used H \<union> {i. cache_uuid ans = Inr i}\<rparr>)"
| c_get_end_dies: "register_build L ans d a reply w = (res, w') \<Longrightarrow> \<not> returns res \<Longrightarrow>
    deploy_step L parse load (e, w, add_mset (InCache g (GotBuild d a reply)) gs, H) []
      (e, cache_restart w', answer g (Inl ErrUnavailable) + cut_off gs, H)"
| c_poll_now: "g = Polling n (row # rows) seen \<Longrightarrow>
    poll_begin (fst w) (or_DependentID row) = Inl v \<Longrightarrow>
    deploy_step L parse load (e, w, add_mset (Ready g) gs, H) []
      (e, w, add_mset (Answered g (Inr v)) gs, H)"
| c_poll_ask: "g = Polling n (row # rows) seen \<Longrightarrow>
    poll_begin (fst w) (or_DependentID row) = Inr m \<Longrightarrow>
    deploy_step L parse load (e, w, add_mset (Ready g) gs, H) []
      (e, w, add_mset (InCache (Some g) (AskOp (or_DependentID row) m)) gs, H)"
| c_poll_end: "poll_end L ans n reply c = (Value (Inr v), c') \<Longrightarrow> image_orders ans \<Longrightarrow>
    deploy_step L parse load (e, (c, b, r), add_mset (InCache g (GotOp n reply)) gs, H) []
      (e, (c', b, r), answer g (Inr v) + gs, H)"
| c_poll_dies: "poll_end L ans n reply c = (res, c') \<Longrightarrow> \<not> returns res \<Longrightarrow>
    deploy_step L parse load (e, (c, b, r), add_mset (InCache g (GotOp n reply)) gs, H) []
      (e, cache_restart (c', b, r), answer g (Inl ErrUnavailable) + cut_off gs, H)"
| c_restarts: "deploy_step L parse load (e, w, gs, H) [] (e, cache_restart w, cut_off gs, H)"
| b_build: "builder_fresh y b \<Longrightarrow> builder_call_Build y b q = (reply, b') \<Longrightarrow>
    deploy_step L parse load (e, (c, b, r), add_mset (InCache g (AskBuild (d, a, q))) gs, H) []
      (e, (c, b', r), add_mset (InCache g (GotBuild d a reply)) gs, H)"
| b_poll: "builder_call_GetOperation L reg b m = (reply, b') \<Longrightarrow>
    deploy_step L parse load (e, (c, b, r), add_mset (InCache g (AskOp n m)) gs, H) []
      (e, (c, b', r), add_mset (InCache g (GotOp n reply)) gs, H)"
| b_works: "Enqueue t \<in> set (builder_trace b) \<Longrightarrow>
    deploy_step L parse load (e, (c, b, r), gs, H) [] (e, (c, builder_process wa b t, r), gs, H)"
| b_works_on: "builder_piece b b' \<Longrightarrow>
    deploy_step L parse load (e, (c, b, r), gs, H) [] (e, (c, b', r), gs, H)"
| b_restarts: "deploy_step L parse load (e, (c, b, r), gs, H) [] (e, (c, builder_restart b, r), gs, H)"
| n_builder: "deploy_step L parse load (e, w, add_mset (InCache g x) gs, H) []
      (e, w, add_mset (InCache g (broken_off err x)) gs, H)"
| n_cache: "deploy_step L parse load (e, w, add_mset (InCache (Some g) x) gs, H) []
      (e, w, add_mset (Answered g (Inl err)) (add_mset (InCache None x) gs), H)"
| e_eval_takes: "eval_take L v reply found = Value (Inr found') \<Longrightarrow>
    deploy_step L parse load (e, w, add_mset (Answered (Evaluating ident req (v # vs) found) reply) gs, H) []
      (e, w, add_mset (Ready (Evaluating ident req vs found')) gs, H)"
| e_eval_fails: "eval_take L v reply found = Value (Inl err) \<Longrightarrow>
    deploy_step L parse load (e, w, add_mset (Answered (Evaluating ident req (v # vs) found) reply) gs, H) []
      (e, w, gs, H)"
| e_eval_take_dies: "\<not> returns (eval_take L v reply found) \<Longrightarrow>
    deploy_step L parse load (e, w, add_mset (Answered (Evaluating ident req (v # vs) found) reply) gs, H) []
      (e, w, orphaned gs, H)"
| e_eval_ends: "range_order (snd found) (eng_order ea) \<Longrightarrow>
    eval_finish L parse ea ident req found e = (Value (Inr reply), e') \<Longrightarrow>
    deploy_step L parse load (e, w, add_mset (Ready (Evaluating ident req [] found)) gs, H)
      [EvalTold ident reply] (e', w, gs, H)"
| e_eval_end_fails: "range_order (snd found) (eng_order ea) \<Longrightarrow>
    eval_finish L parse ea ident req found e = (Value (Inl err), e') \<Longrightarrow>
    deploy_step L parse load (e, w, add_mset (Ready (Evaluating ident req [] found)) gs, H) []
      (e', w, gs, H)"
| e_eval_end_dies: "range_order (snd found) (eng_order ea) \<Longrightarrow>
    eval_finish L parse ea ident req found e = (res, e') \<Longrightarrow> \<not> returns res \<Longrightarrow>
    deploy_step L parse load (e, w, add_mset (Ready (Evaluating ident req [] found)) gs, H) []
      (e', w, orphaned gs, H)"
| e_poll_takes: "poll_take L row reply seen = Value seen' \<Longrightarrow>
    deploy_step L parse load (e, w, add_mset (Answered (Polling n (row # rows) seen) reply) gs, H) []
      (e, w, add_mset (Ready (Polling n rows seen')) gs, H)"
| e_poll_take_dies: "\<not> returns (poll_take L row reply seen) \<Longrightarrow>
    deploy_step L parse load (e, w, add_mset (Answered (Polling n (row # rows) seen) reply) gs, H) []
      (e, w, orphaned gs, H)"
| e_poll_ends: "eval_reply L n (fst seen) (snd seen) = Value (Inr reply) \<Longrightarrow>
    deploy_step L parse load (e, w, add_mset (Ready (Polling n [] seen)) gs, H)
      [PollTold n reply] (e, w, gs, H)"
| e_poll_end_dies: "\<not> returns (eval_reply L n (fst seen) (snd seen)) \<Longrightarrow>
    deploy_step L parse load (e, w, add_mset (Ready (Polling n [] seen)) gs, H) []
      (e, w, orphaned gs, H)"
| e_restarts: "deploy_step L parse load (e, w, gs, H) [] (e, w, orphaned gs, H)"

text \<open>A run, with what its steps told.\<close>

inductive deploy_run ::
    "'any proto_lib \<Rightarrow> (string \<Rightarrow> go_error + string) \<Rightarrow>
     (engine_effect list \<Rightarrow> string \<Rightarrow> OperationRow list) \<Rightarrow>
     'any deployment \<Rightarrow> 'any told list \<Rightarrow> 'any deployment \<Rightarrow> bool"
  for L parse load D where
  deploy_start: "deploy_run L parse load D [] D"
| deploy_next: "deploy_run L parse load D ts D1 \<Longrightarrow> deploy_step L parse load D1 ts' D2 \<Longrightarrow>
    deploy_run L parse load D (ts @ ts') D2"

text \<open>
  A step of the deployment is a run of the calls of the cache, so what holds of those holds here.
\<close>

lemma get_begin_asks: "asks_for L req v cfg \<Longrightarrow> asks_build (value_request ident req v)"
  by (auto simp: asks_for_def asks_build_def value_request_def split: option.splits)

lemma overlap_stays [simp]: "\<exists>obs. overlap_run L ok s obs s"
  using run_start by blast

lemma one_run: "overlap_step L ok s obs s' \<Longrightarrow> \<exists>obs. overlap_run L ok s obs s'"
  using run_one by blast

lemma deploy_step_overlaps:
  assumes "deploy_step L parse load (e, w, gs, H) ts (e', w', gs', H')"
    and "dom (downstreamOperation (fst w)) \<subseteq> used H"
    and asks: "\<And>ident req v vs found. Ready (Evaluating ident req (v # vs) found) \<in># gs \<Longrightarrow>
      ok (value_request ident req v)"
  shows "\<exists>obs. overlap_run L ok (w, calls_of gs) obs (w', calls_of gs')"
  using assms(1)
proof cases
  case (c_get_now g ident req v vs found bld ks create ans reply gs1)
  with asks [of ident req v vs found] have "ok (value_request ident req v)" by simp
  from get_now [where ok = ok, OF this c_get_now(7), THEN one_run] c_get_now(1-5)
  show ?thesis by auto
next
  case (c_get_ask g ident req v vs found bld ks create ans x gs1)
  with asks [of ident req v vs found] have "ok (value_request ident req v)" by simp
  from get_ask [where ok = ok, OF this c_get_ask(7), THEN one_run] c_get_ask(1-5)
  show ?thesis by auto
next
  case (c_get_dies g ident req v vs found bld ks create ans res w1 gs1)
  with asks [of ident req v vs found] have "ok (value_request ident req v)" by simp
  from get_dies [where ok = ok, OF this c_get_dies(8,9), THEN one_run] c_get_dies(1-6)
  show ?thesis by auto
next
  case (c_get_end ans d a reply v g gs1)
  then have "\<And>i. cache_uuid ans = Inr i \<Longrightarrow> downstreamOperation (fst w) i = None"
    using assms(2) by blast
  from get_end [OF this c_get_end(7), THEN one_run] c_get_end(1-5) show ?thesis by auto
next
  case (c_get_end_dies ans d a reply res w1 g gs1)
  from get_end_dies [OF c_get_end_dies(7,8), THEN one_run] c_get_end_dies(1-6) show ?thesis by auto
next
  case (c_poll_now g n row rows seen v gs1)
  then show ?thesis by simp
next
  case (c_poll_ask g n row rows seen m gs1)
  from poll_ask [OF c_poll_ask(8), THEN one_run] c_poll_ask(1-6) show ?thesis by auto
next
  case (c_poll_end ans n reply c v c' b r g gs1)
  from poll_answered [OF c_poll_end(8), THEN one_run] c_poll_end show ?thesis by auto
next
  case (c_poll_dies ans n reply c res c' b r g gs1)
  from poll_dies [OF c_poll_dies(8,9), THEN one_run] c_poll_dies show ?thesis by auto
next
  case c_restarts
  from one_run [OF cache_restarts [of L ok w "calls_of gs"]] c_restarts show ?thesis by auto
next
  case (b_build y b q reply b' c r g d a gs1)
  from build [OF b_build(8,9), THEN one_run] b_build show ?thesis by auto
next
  case (b_poll reg b m reply b' c r g n gs1)
  from poll_builder [OF b_poll(8), THEN one_run] b_poll show ?thesis by auto
next
  case (b_works t b c r wa)
  from worker [OF b_works(7), THEN one_run] b_works show ?thesis by auto
next
  case (b_works_on b b' c r)
  from worker_piece [OF b_works_on(7), THEN one_run] b_works_on show ?thesis by auto
next
  case (b_restarts c b r)
  from one_run [OF builder_restarts [of L ok c b r "calls_of gs"]] b_restarts show ?thesis by auto
next
  case (n_builder g x gs1 err)
  have "\<exists>obs. overlap_run L ok (w, add_mset x (calls_of gs1)) obs (w, add_mset (broken_off err x) (calls_of gs1))"
    by (cases "(err, x)" rule: broken_off.cases)
      (auto intro: one_run [OF build_lost] one_run [OF poll_lost])
  with n_builder show ?thesis by simp
qed simp_all

end
