(* ===== verification/Told_Images.thy ===== *)
theory Told_Images
  imports Deployment
begin

text \<open>
  The invariant of the deployment and what it gives: every reply of the engine that says done, at
  any point of any run, names for each value an image of a build that was asked for and submitted,
  with the digest and at least the targets of the value's own configuration.
\<close>

section \<open>Final results are packed build responses\<close>

definition sealed :: "'any proto_lib \<Rightarrow> 'any operation \<Rightarrow> bool" where
  "sealed L res \<longleftrightarrow> (op_done res \<longrightarrow> (\<exists>x a. pack_build_response L x = Inr a \<and> GetResponse res = Some a))"

fun call_sealed :: "'any proto_lib \<Rightarrow> 'any call \<Rightarrow> bool" where
  "call_sealed L (GotOp n (Inr v)) \<longleftrightarrow> sealed L v"
| "call_sealed L x \<longleftrightarrow> True"

definition overlap_sealed :: "'any proto_lib \<Rightarrow> 'any overlap \<Rightarrow> bool" where
  "overlap_sealed L s \<longleftrightarrow>
     (\<forall>n res. cb_upstream (fst (fst s)) n = Some res \<longrightarrow> sealed L res) \<and> (\<forall>x \<in># snd s. call_sealed L x)"

lemma builder_reply_sealed: "builder_call_GetOperation L reg b m = (Inr v, b') \<Longrightarrow> sealed L v"
  by (auto simp: builder_call_GetOperation_def builder_GetOperation_def rpc_def sealed_def GetResponse_def Let_def
      split: if_splits sum.splits)

lemma sealed_not_get:
  assumes "proto_laws L" and "sealed L res" and "op_done res"
  shows "snd (unpack_get_response L (GetResponse res)) \<noteq> None"
  using assms proto_laws_reject(3) [OF assms(1)] by (fastforce simp: sealed_def)

lemma upstream_restart [simp]: "cb_upstream (fst (cache_restart w)) = Map.empty"
  by (cases w) (simp add: cache_restart_def NewCacheBackend_def)

lemma overlap_sealed_step:
  assumes "overlap_step L ok s obs s'" and "overlap_sealed L s"
  shows "overlap_sealed L s'"
  using assms
proof cases
  case (get_now req bld ks create ans w reply w' cs)
  with assms(2) get_begin_cache [OF get_now(5)] show ?thesis by (simp add: overlap_sealed_def)
next
  case (get_ask req bld ks create ans w x w' cs)
  with assms(2) get_begin_cache [OF get_ask(5)] show ?thesis
    by (simp add: overlap_sealed_def)
next
  case (build y b q reply b' c r d a cs)
  with assms(2) show ?thesis by (auto simp: overlap_sealed_def)
next
  case (get_end ans w d a reply v w' cs)
  obtain c b r where w: "w = (c, b, r)" by (rule prod_cases3)
  from register_build_effect [OF get_end(5) [unfolded w]]
  have "cb_upstream (fst w') = cb_upstream (fst w)" by (auto simp: w CacheBackend_Put_def)
  with get_end assms(2) show ?thesis by (simp add: overlap_sealed_def)
next
  case (poll_builder reg b m reply b' c r n cs)
  have "call_sealed L (GotOp n reply)"
    using builder_reply_sealed [of L reg b m] poll_builder(4) by (cases reply) auto
  with poll_builder assms(2) show ?thesis by (simp add: overlap_sealed_def)
next
  case (poll_answered ans n reply c v c' b r cs)
  with assms(2) poll_end_effect [OF poll_answered(4)] show ?thesis
    by (auto simp: overlap_sealed_def split: if_splits)
qed (use assms(2) in \<open>auto simp: overlap_sealed_def\<close>)

lemma overlap_run_keeps:
  assumes "overlap_run L ok s obs s'" and "P s"
    and "\<And>s obs s'. overlap_step L ok s obs s' \<Longrightarrow> P s \<Longrightarrow> P s'"
  shows "P s'"
  using assms(1) by (induction rule: overlap_run.induct) (use assms(2,3) in blast)+

section \<open>What is known of an operation\<close>

text \<open>
  A build of the configuration \<open>old\<close> answers a request for \<open>cfg\<close> when it has the requested targets and
  a base image and commit point with the same digest. An operation of the cache stands for a request when
  the builder's operation behind it, as long as the cache knows it, serves such a build.
\<close>

type_synonym 'any view = "'any cache_state \<times> builder_state \<times> 'any history"

definition covers :: "'any proto_lib \<Rightarrow> build_image_config \<Rightarrow> build_image_config \<Rightarrow> bool" where
  "covers L old cfg \<longleftrightarrow>
     set (bic_bazel_targets cfg) \<subseteq> set (bic_bazel_targets old) \<and>
     sha256 (digest_input L old) = sha256 (digest_input L cfg)"

lemma covers_refl [simp]: "covers L cfg cfg"
  by (simp add: covers_def)

definition stands_for :: "'any proto_lib \<Rightarrow> 'any view \<Rightarrow> string \<Rightarrow> build_image_config \<Rightarrow> bool" where
  "stands_for L V n cfg \<longleftrightarrow>
     (case V of (c, b, H) \<Rightarrow> n \<in> used H \<and>
        (\<forall>m. downstreamOperation c n = Some m \<longrightarrow>
           (\<exists>old cp. bic_commit_point old = Some cp \<and> builder_serves b m (requested cp old) \<and> covers L old cfg)))"

text \<open>
  A value that is the dictionary of an image answering a request: the image of a recorded build
  that was submitted to the cluster and that has the digest and the targets of the request.
\<close>

definition image_of :: "'any proto_lib \<Rightarrow> builder_state \<Rightarrow> build_image_config \<Rightarrow> typed_value option \<Rightarrow> bool" where
  "image_of L b cfg tv \<longleftrightarrow>
     (\<exists>v resp info old cp. tv = Some v \<and> well_typed v \<and> dictionary_map v = image_info resp \<and>
        image_or_lost resp info \<and>
        recorded b info \<and> submitted b info \<and>
        bic_commit_point old = Some cp \<and> records info (requested cp old) \<and> covers L old cfg)"

lemma image_of_mono:
  "image_of L b cfg tv \<Longrightarrow> set (builder_trace b) \<subseteq> set (builder_trace b') \<Longrightarrow> image_of L b' cfg tv"
  unfolding image_of_def using recorded_mono submitted_mono by blast

text \<open>What one step leaves of what was known: nothing is forgotten but by the cache.\<close>

definition grows :: "'any view \<Rightarrow> 'any view \<Rightarrow> bool" where
  "grows V V' \<longleftrightarrow>
     (case (V, V') of ((c, b, H), (c', b', H')) \<Rightarrow>
        set (builder_trace b) \<subseteq> set (builder_trace b') \<and> used H \<subseteq> used H' \<and> asked H \<subseteq>\<^sub>m asked H' \<and>
        (\<forall>n \<in> used H. \<forall>m. downstreamOperation c' n = Some m \<longrightarrow> downstreamOperation c n = Some m))"

lemma stands_for_grows:
  assumes "stands_for L V n cfg" and "grows V V'"
  shows "stands_for L V' n cfg"
proof -
  obtain c b H c' b' H' where V: "V = (c, b, H)" "V' = (c', b', H')" by (metis prod_cases3)
  from assms(2) have g: "set (builder_trace b) \<subseteq> set (builder_trace b')" "used H \<subseteq> used H'"
    "\<And>n m. n \<in> used H \<Longrightarrow> downstreamOperation c' n = Some m \<Longrightarrow> downstreamOperation c n = Some m"
    by (auto simp: V grows_def)
  with assms(1) show ?thesis unfolding V stands_for_def prod.case using serves_mono [OF g(1)] by blast
qed

lemma asked_grows: "asked H n = Some req \<Longrightarrow> grows (c, b, H) (c', b', H') \<Longrightarrow> asked H' n = Some req"
  by (simp add: grows_def map_le_def dom_def)

text \<open>A build behind an operation that stands for a request, once finished, is such an image.\<close>

lemma image_response_typed:
  assumes "image_orders ans"
  shows "\<exists>v. gresp_value (image_response ans resp) = Some v \<and> well_typed v \<and> dictionary_map v = image_info resp"
  using image_orders_range [OF assms]
  by (simp add: image_response_def well_typed_StringDictionary dictionary_map_StringDictionary)

lemma built_image_of:
  assumes "image_orders ans" and "builder_inv b" and "stands_for L (c, b, H) n cfg" and "downstreamOperation c n = Some m"
    and "builder_built b m resp"
  shows "image_of L b cfg (gresp_value (image_response ans resp))"
proof -
  from assms(3,4) obtain old cp where old: "bic_commit_point old = Some cp"
      "builder_serves b m (requested cp old)" "covers L old cfg"
    by (auto simp: stands_for_def)
  from old(2) obtain i where i: "recorded b i" "bi_BuildID i = m" "records i (requested cp old)"
    by (auto simp: builder_serves_def)
  from assms(5) obtain info where info: "recorded b info" "bi_BuildID info = m" "submitted b info"
      "image_or_lost resp info"
    by (auto simp: builder_built_def)
  have "info = i" using assms(2) i(1,2) info(1,2) unfolding builder_inv_def by blast
  with i info old image_response_typed [OF assms(1), of resp] show ?thesis unfolding image_of_def by blast
qed

section \<open>The invariant\<close>

text \<open>
  A reply of the cache's \<open>Get\<close> for a configuration, once unpacked: it names an operation that
  stands for it, and when it is done it holds an image that answers it, or nothing.
\<close>

definition found_ok :: "'any proto_lib \<Rightarrow> 'any view \<Rightarrow> build_image_config \<Rightarrow> 'any operation \<Rightarrow> bool" where
  "found_ok L V cfg opn \<longleftrightarrow>
     stands_for L V (op_name opn) cfg \<and>
     (\<forall>resp. op_done opn \<longrightarrow> unpack_get_response L (GetResponse opn) = (resp, None) \<longrightarrow>
        gresp_value resp = None \<or> image_of L (fst (snd V)) cfg (gresp_value resp))"

text \<open>A reply of the cache's \<open>GetOperation\<close>: when it is done and unpacks, it holds such an image.\<close>

definition seen_ok :: "'any proto_lib \<Rightarrow> 'any view \<Rightarrow> build_image_config \<Rightarrow> 'any operation \<Rightarrow> bool" where
  "seen_ok L V cfg opn \<longleftrightarrow>
     (\<forall>resp. op_done opn \<longrightarrow> unpack_get_response L (GetResponse opn) = (resp, None) \<longrightarrow>
        image_of L (fst (snd V)) cfg (gresp_value resp))"

definition row_ok :: "'any proto_lib \<Rightarrow> 'any view \<Rightarrow> OperationRow \<Rightarrow> bool" where
  "row_ok L V row \<longleftrightarrow>
     (\<exists>req cfg. asked (snd (snd V)) (or_EvaluationID row) = Some req \<and> or_Value row \<in> set (er_values req) \<and>
        asks_for L req (or_Value row) cfg \<and> stands_for L V (or_DependentID row) cfg)"

text \<open>All values of an evaluation, or none when it was not recorded yet.\<close>

definition all_or_none :: "'any history \<Rightarrow> string \<Rightarrow> string set \<Rightarrow> bool" where
  "all_or_none H n vs \<longleftrightarrow> vs = {} \<or> (\<exists>req. asked H n = Some req \<and> vs = set (er_values req))"

fun goroutine_ok :: "'any proto_lib \<Rightarrow> 'any view \<Rightarrow> 'any goroutine \<Rightarrow> bool" where
  "goroutine_ok L V (Evaluating ident req vs (d, ops)) \<longleftrightarrow>
     asked (snd (snd V)) ident = Some req \<and> asks_images L req \<and>
     set vs \<subseteq> set (er_values req) \<and> dom ops \<union> set vs = set (er_values req) \<and>
     (\<forall>v opn. ops v = Some opn \<longrightarrow> (\<exists>cfg. asks_for L req v cfg \<and> found_ok L V cfg opn)) \<and>
     (d \<longrightarrow> (\<forall>v opn. ops v = Some opn \<longrightarrow> op_done opn))"
| "goroutine_ok L V (Polling n rows (d, res)) \<longleftrightarrow>
     (\<forall>row \<in> set rows. row_ok L V row \<and> or_EvaluationID row = n) \<and>
     (\<forall>v tv. res v = Some tv \<longrightarrow> (\<exists>req cfg. asked (snd (snd V)) n = Some req \<and> asks_for L req v cfg \<and>
        image_of L (fst (snd V)) cfg tv)) \<and>
     (d \<longrightarrow> all_or_none (snd (snd V)) n (dom res \<union> or_Value ` set rows))"

fun call_for :: "'any proto_lib \<Rightarrow> 'any goroutine \<Rightarrow> 'any call \<Rightarrow> bool" where
  "call_for L (Evaluating ident req (v # vs) f) (AskBuild (d, a, q)) \<longleftrightarrow> asks_for L req v (config_of L a)"
| "call_for L (Evaluating ident req (v # vs) f) (GotBuild d a reply) \<longleftrightarrow> asks_for L req v (config_of L a)"
| "call_for L (Polling n (row # rows) f) (AskOp n' m) \<longleftrightarrow> n' = or_DependentID row"
| "call_for L (Polling n (row # rows) f) (GotOp n' reply) \<longleftrightarrow> n' = or_DependentID row"
| "call_for L g x \<longleftrightarrow> False"

fun reply_for :: "'any proto_lib \<Rightarrow> 'any view \<Rightarrow> 'any goroutine \<Rightarrow> 'any operation \<Rightarrow> bool" where
  "reply_for L V (Evaluating ident req (v # vs) f) opn \<longleftrightarrow>
     (\<exists>cfg. asks_for L req v cfg \<and> found_ok L V cfg opn)"
| "reply_for L V (Polling n (row # rows) f) opn \<longleftrightarrow>
     (\<exists>req cfg. asked (snd (snd V)) n = Some req \<and> asks_for L req (or_Value row) cfg \<and> seen_ok L V cfg opn)"
| "reply_for L V g opn \<longleftrightarrow> False"

fun stage_ok :: "'any proto_lib \<Rightarrow> 'any view \<Rightarrow> 'any stage \<Rightarrow> bool" where
  "stage_ok L V (Ready g) \<longleftrightarrow> goroutine_ok L V g"
| "stage_ok L V (InCache None x) \<longleftrightarrow> True"
| "stage_ok L V (InCache (Some g) x) \<longleftrightarrow> goroutine_ok L V g \<and> call_for L g x"
| "stage_ok L V (Answered g reply) \<longleftrightarrow>
     goroutine_ok L V g \<and> (\<forall>opn. reply = Inr opn \<longrightarrow> reply_for L V g opn)"

text \<open>Every recorded row is right, and a recorded evaluation has all of its rows.\<close>

definition rows_ok :: "'any proto_lib \<Rightarrow> 'any view \<Rightarrow> engine_state \<Rightarrow> bool" where
  "rows_ok L V e \<longleftrightarrow>
     (\<forall>n. \<forall>row \<in> set (rows_of (engine_trace e) n). row_ok L V row) \<and>
     (\<forall>n \<in> set (evaluations_of (engine_trace e)). \<exists>req. asked (snd (snd V)) n = Some req \<and>
        or_Value ` set (rows_of (engine_trace e) n) = set (er_values req))"

definition backend_ok :: "'any proto_lib \<Rightarrow> 'any overlap \<Rightarrow> bool" where
  "backend_ok L s \<longleftrightarrow> overlap_inv L s \<and> overlap_keyed L s \<and> overlap_sealed L s"

definition ids_ok :: "(string \<Rightarrow> go_error + string) \<Rightarrow> 'any cache_state \<Rightarrow> 'any history \<Rightarrow> bool" where
  "ids_ok parse c H \<longleftrightarrow>
     dom (downstreamOperation c) \<subseteq> used H \<and> (\<forall>i \<in> used H. parse i = Inr i)"

fun deploy_inv :: "'any proto_lib \<Rightarrow> (string \<Rightarrow> go_error + string) \<Rightarrow> 'any deployment \<Rightarrow> bool" where
  "deploy_inv L parse (e, (c, b, r), gs, H) \<longleftrightarrow>
     backend_ok L ((c, b, r), calls_of gs) \<and> ids_ok parse c H \<and> rows_ok L (c, b, H) e \<and>
     (\<forall>s \<in># gs. stage_ok L (c, b, H) s)"

lemma deploy_inv_init: "deploy_inv L parse deploy_init"
proof -
  have "backend_ok L ((NewCacheBackend, builder_init, r), {#})" for r
    by (simp add: backend_ok_def overlap_inv_def overlap_keyed_def overlap_sealed_def cache_inv_init)
      (simp add: cache_keyed_def NewCacheBackend_def)
  then show ?thesis
    by (simp add: deploy_init_def backend_init_def engine_init_def ids_ok_def rows_ok_def
        rows_of_def evaluations_of_def) (simp add: NewCacheBackend_def)
qed

subsection \<open>What is known stays known\<close>

lemma found_ok_grows: "found_ok L V cfg opn \<Longrightarrow> grows V V' \<Longrightarrow> found_ok L V' cfg opn"
  unfolding found_ok_def using stands_for_grows image_of_mono
  by (cases V; cases V') (fastforce simp: grows_def)

lemma seen_ok_grows: "seen_ok L V cfg opn \<Longrightarrow> grows V V' \<Longrightarrow> seen_ok L V' cfg opn"
  unfolding seen_ok_def using image_of_mono by (cases V; cases V') (fastforce simp: grows_def)

lemma row_ok_grows: "row_ok L V row \<Longrightarrow> grows V V' \<Longrightarrow> row_ok L V' row"
  unfolding row_ok_def using stands_for_grows asked_grows by (cases V; cases V') fastforce

lemma all_or_none_grows: "all_or_none H n vs \<Longrightarrow> grows (c, b, H) (c', b', H') \<Longrightarrow> all_or_none H' n vs"
  unfolding all_or_none_def using asked_grows by fastforce

lemma goroutine_ok_grows:
  assumes "goroutine_ok L V g" and "grows V V'"
  shows "goroutine_ok L V' g"
proof -
  obtain c b H c' b' H' where V: "V = (c, b, H)" "V' = (c', b', H')" by (metis prod_cases3)
  have asked: "asked H n = Some req \<Longrightarrow> asked H' n = Some req" for n req
    using assms(2) unfolding V by (rule asked_grows [rotated])
  have trace: "set (builder_trace b) \<subseteq> set (builder_trace b')" using assms(2) by (simp add: V grows_def)
  show ?thesis
  proof (cases g)
    case (Evaluating ident req vs found)
    obtain d ops where "found = (d, ops)" by (rule prod.exhaust)
    with assms(1) Evaluating asked found_ok_grows [OF _ assms(2)] show ?thesis
      unfolding V by simp blast
  next
    case (Polling n rows seen)
    obtain d res where "seen = (d, res)" by (rule prod.exhaust)
    with assms(1) Polling asked row_ok_grows [OF _ assms(2)] image_of_mono [OF _ trace]
      all_or_none_grows [OF _ assms(2) [unfolded V]] show ?thesis
      unfolding V by simp blast
  qed
qed

lemma reply_for_grows:
  assumes "reply_for L V g opn" and "grows V V'"
  shows "reply_for L V' g opn"
proof -
  obtain c b H c' b' H' where V: "V = (c, b, H)" "V' = (c', b', H')" by (metis prod_cases3)
  show ?thesis
    using assms asked_grows [OF _ assms(2) [unfolded V]] found_ok_grows [OF _ assms(2)] seen_ok_grows [OF _ assms(2)]
    by (cases "(L, V, g, opn)" rule: reply_for.cases) (simp_all add: V, blast+)
qed

lemma stage_ok_grows: "stage_ok L V s \<Longrightarrow> grows V V' \<Longrightarrow> stage_ok L V' s"
  using goroutine_ok_grows reply_for_grows by (cases "(L, V, s)" rule: stage_ok.cases) (simp_all, blast+)

lemma rows_ok_grows:
  assumes "rows_ok L V e" and "grows V V'"
  shows "rows_ok L V' e"
proof -
  obtain c b H c' b' H' where V: "V = (c, b, H)" "V' = (c', b', H')" by (metis prod_cases3)
  show ?thesis
    using assms(1) row_ok_grows [OF _ assms(2)] asked_grows [OF _ assms(2) [unfolded V]]
    unfolding rows_ok_def V by simp blast
qed

section \<open>The replies of the cache\<close>

lemma get_begin_now:
  assumes "get_begin L st ans (c, b, r) req = (Value (Inl (Inr opn)), w')"
  obtains ctx main n where "gr_context req = Some ctx"
    and "GetAction (EssentialActions (ctx_actions ctx) (gr_value req)) (gr_value req) = Value (Inr main)"
    and "CacheBackend_Get L c main = Value (Inr n)" and "cached_reply L ans c n = Value (Inr opn)"
proof -
  have miss: "miss_begin L ans actions main w \<noteq> (Value (Inl (Inr opn)), w1)" for actions main w w1
    by (auto simp: miss_begin_def run_then_Value Let_def split: sum.splits)
  let ?w = "createJob st (c, b, r)"
  obtain ctx where ctx: "gr_context req = Some ctx"
    using assms by (cases "gr_context req") (auto simp: get_begin_def deref_def run_then_def)
  let ?actions = "EssentialActions (ctx_actions ctx) (gr_value req)"
  from assms [unfolded get_begin_def Let_def] ctx obtain x where x: "GetAction ?actions (gr_value req) = Value x"
    and more: "(case x of Inl err \<Rightarrow> (Value (Inl (Inl err)), (c, b, r))
      | Inr main \<Rightarrow> if gr_skip_caching req then miss_begin L ans ?actions main ?w
          else run_then (CacheBackend_Get L (fst ?w) main, ?w) (\<lambda>cached w.
            case cached of
              Inr n \<Rightarrow> run_then (cached_reply L ans (fst w) n, w) (\<lambda>reply w. (Value (Inl reply), w))
            | Inl err \<Rightarrow> miss_begin L ans ?actions main w)) = (Value (Inl (Inr opn)), w')"
    by (auto simp: run_then_Value)
  from more obtain main where main: "x = Inr main" by (cases x) auto
  with more have "\<not> gr_skip_caching req" using miss [of ?actions main ?w w'] by (auto simp del: split_paired_All)
  with more main obtain cached where cached: "CacheBackend_Get L c main = Value cached"
    and last: "(case cached of
        Inr n \<Rightarrow> run_then (cached_reply L ans (fst ?w) n, ?w) (\<lambda>reply w. (Value (Inl reply), w))
      | Inl err \<Rightarrow> miss_begin L ans ?actions main ?w) = (Value (Inl (Inr opn)), w')"
    by (auto simp: run_then_Value)
  from last obtain n where n: "cached = Inr n"
    using miss [of ?actions main ?w w'] by (cases cached) simp_all
  with last have "cached_reply L ans c n = Value (Inr opn)" by (auto simp: run_then_Value)
  with ctx x main cached n that show ?thesis by simp
qed

lemma cached_reply_Inr:
  assumes "proto_laws L" and "cached_reply L ans c n = Value (Inr opn)"
    and "unpack_get_response L (GetResponse opn) = (resp, None)"
  shows "op_name opn = n \<and> (gresp_value resp = None \<or>
    (\<exists>res br. cb_upstream c n = Some res \<and> op_done res \<and>
       unpack_build_response L (GetResponse res) = (br, None) \<and> resp = image_response ans br))"
proof -
  from assms(2) consider "respond L n True zero_get_response = Value (Inr opn)"
    | res br where "cb_upstream c n = Some res" "op_done res"
        "unpack_build_response L (GetResponse res) = (br, None)"
        "respond L n True (image_response ans br) = Value (Inr opn)"
    by (auto simp: cached_reply_def image_response_def split: option.splits if_splits prod.splits)
  then show ?thesis
  proof cases
    case 1
    with respond_Inr [OF assms(1) 1] assms(3) show ?thesis by (auto simp: zero_get_response_def)
  next
    case (2 res br)
    with respond_Inr [OF assms(1) 2(4)] assms(3) show ?thesis by auto
  qed
qed

lemma hit_found_ok:
  assumes laws: "proto_laws L" and ok: "backend_ok L ((c, b, r), cs)" and ids: "ids_ok parse c H"
    and asks: "asks_for L req v cfg"
    and now: "get_begin L st ans (c, b, r) (value_request ident req v) = (Value (Inl (Inr opn)), w')"
    and orders: "image_orders ans"
  shows "found_ok L (c, b, H) cfg opn"
proof -
  have inv: "backend_inv L (c, b, r)" and keyed: "cache_keyed L c"
    using ok by (simp_all add: backend_ok_def overlap_inv_def overlap_keyed_def)
  from now obtain ctx main n where m: "er_context req = Some ctx"
      "GetAction (EssentialActions (ctx_actions ctx) v) v = Value (Inr main)"
      "CacheBackend_Get L c main = Value (Inr n)" "cached_reply L ans c n = Value (Inr opn)"
    by (rule get_begin_now) (auto simp: value_request_def)
  with asks have main: "act_kind main = ''build-image''" "unpack_build_image_config L (act_config main) = (cfg, None)"
    by (auto simp: asks_for_def asks_build_def value_request_def EssentialActions_def
        split: option.splits run.splits sum.splits)
  from hit_is_backed [OF inv keyed m(3) main] obtain old cp m1 where
      hit: "downstreamOperation c n = Some m1" "bic_commit_point old = Some cp"
        "builder_serves b m1 (requested cp old)" "covers L old cfg"
    by (auto simp: covers_def)
  have "n \<in> used H" using ids hit(1) by (auto simp: ids_ok_def)
  with hit have stands: "stands_for L (c, b, H) n cfg" by (auto simp: stands_for_def)
  have reply: "op_name opn = n" "gresp_value resp = None \<or>
      (\<exists>res br. cb_upstream c n = Some res \<and> op_done res \<and>
         unpack_build_response L (GetResponse res) = (br, None) \<and> resp = image_response ans br)"
    if "unpack_get_response L (GetResponse opn) = (resp, None)" for resp
    using cached_reply_Inr [OF laws m(4) that] by simp_all
  have "op_name opn = n"
    using m(4) laws by (auto simp: cached_reply_def dest: respond_Inr split: option.splits if_splits prod.splits)
  moreover have "image_of L b cfg (gresp_value (image_response ans br))"
    if "cb_upstream c n = Some res" "op_done res" "unpack_build_response L (GetResponse res) = (br, None)" for res br
  proof (rule built_image_of [OF orders _ stands hit(1)])
    show "builder_inv b" using inv by (simp add: cache_inv_simp)
    from inv that(1) have "result_backed L builder_built c b n res" by (simp add: cache_inv_simp)
    with hit(1) that(2,3) show "builder_built b m1 br" by (simp add: result_backed_def)
  qed
  ultimately show ?thesis using stands reply(2) by (auto simp: found_ok_def)
qed

lemma register_build_reply:
  assumes "proto_laws L" and "register_build L ans d a reply (c, b, r) = (Value (Inr v), w')"
  obtains i opn where "cache_uuid ans = Inr i" and "reply = Inr opn"
    and "w' = (CacheBackend_Put d i (Some a)
      (c\<lparr>downstreamOperation := (downstreamOperation c)(i \<mapsto> op_name opn)\<rparr>), b, r)"
    and "op_name v = i" and "unpack_get_response L (GetResponse v) = (zero_get_response, None)"
  using assms
  by (auto simp: register_build_def Let_def proto_facts split: sum.splits)

lemma register_found_ok:
  assumes laws: "proto_laws L" and ok: "backend_ok L ((c, b, r), add_mset (GotBuild d a reply) cs)"
    and reg: "register_build L ans d a reply (c, b, r) = (Value (Inr v), (c', b', r'))"
  shows "found_ok L (c', b', H\<lparr>used := used H \<union> {i. cache_uuid ans = Inr i}\<rparr>) (config_of L a) v"
proof -
  from laws reg obtain i opn where i: "cache_uuid ans = Inr i" "reply = Inr opn"
      "(c', b', r') = (CacheBackend_Put d i (Some a)
        (c\<lparr>downstreamOperation := (downstreamOperation c)(i \<mapsto> op_name opn)\<rparr>), b, r)"
      "op_name v = i" "unpack_get_response L (GetResponse v) = (zero_get_response, None)"
    by (rule register_build_reply)
  from ok i(2) obtain cp where "bic_commit_point (config_of L a) = Some cp"
      "builder_serves b (op_name opn) (requested cp (config_of L a))"
    by (auto simp: backend_ok_def overlap_inv_simp)
  with covers_refl have "\<exists>old cp. bic_commit_point old = Some cp \<and>
      builder_serves b (op_name opn) (requested cp old) \<and> covers L old (config_of L a)" by blast
  with i show ?thesis
    by (simp add: found_ok_def stands_for_def CacheBackend_Put_def zero_get_response_def)
qed

lemma poll_now_seen_ok:
  assumes "proto_laws L" and "backend_ok L ((c, b, r), cs)" and "poll_begin c n = Inl v"
  shows "seen_ok L V cfg v"
proof -
  consider "op_result v = None" | "cb_upstream c n = Some v"
    using assms(3) by (auto simp: poll_begin_def Let_def split: option.splits if_splits)
  then have "op_done v \<longrightarrow> snd (unpack_get_response L (GetResponse v)) \<noteq> None"
  proof cases
    case 1
    then have "GetResponse v = None" by (simp add: GetResponse_def)
    with proto_laws_nil(4) [OF assms(1)] show ?thesis by auto
  next
    case 2
    with assms(2) have "sealed L v" by (auto simp: backend_ok_def overlap_sealed_def)
    with sealed_not_get [OF assms(1)] show ?thesis by blast
  qed
  then show ?thesis by (auto simp: seen_ok_def)
qed

lemma poll_end_seen_ok:
  assumes laws: "proto_laws L" and ok: "backend_ok L ((c, b, r), add_mset (GotOp n reply) cs)"
    and stands: "stands_for L (c, b, H) n cfg" and answered: "poll_end L ans n reply c = (Value (Inr v), c')"
    and orders: "image_orders ans"
  shows "seen_ok L (c', b, H') cfg v"
proof -
  have inv: "builder_inv b" using ok by (simp add: backend_ok_def overlap_inv_simp cache_inv_simp)
  from answered obtain opn where opn: "reply = Inr opn" by (cases reply) (auto simp: poll_end_def)
  with ok obtain m where m: "downstreamOperation c n = Some m"
      "op_done opn \<Longrightarrow> \<exists>resp. unpack_build_response L (GetResponse opn) = (resp, None) \<and> builder_built b m resp"
    by (auto simp: backend_ok_def overlap_inv_simp result_backed_def)
  from answered opn obtain resp where
      un: "(if op_done opn then unpack_build_response L (GetResponse opn) else (zero_build_response, None)) = (resp, None)"
    and resp: "respond L n (op_done opn) (image_response ans resp) = Value (Inr v)"
    by (auto simp: poll_end_def Let_def split: prod.splits option.splits)
  have "image_of L b cfg (gresp_value (image_response ans resp))" if "op_done opn"
    using built_image_of [OF orders inv stands m(1)] m(2) that un by auto
  with respond_Inr [OF laws resp] show ?thesis by (auto simp: seen_ok_def)
qed

section \<open>Every step keeps the invariant\<close>

lemma grows_refl [simp]: "grows V V"
  by (cases V) (simp add: grows_def)

lemma grows_builder: "set (builder_trace b) \<subseteq> set (builder_trace b') \<Longrightarrow> grows (c, b, H) (c, b', H)"
  by (simp add: grows_def)

lemma grows_cache: "downstreamOperation c' = downstreamOperation c \<Longrightarrow> grows (c, b, H) (c', b, H)"
  by (simp add: grows_def)

lemma grows_restart: "grows (c, b, H) (NewCacheBackend, b, H)"
  by (simp add: grows_def NewCacheBackend_def)

lemma grows_asked: "asked H i = None \<Longrightarrow> grows (c, b, H) (c, b, H\<lparr>asked := (asked H)(i \<mapsto> req)\<rparr>)"
  by (auto simp: grows_def map_le_def dom_def)

lemma backend_ok_run:
  assumes "proto_laws L" and "overlap_run L asks_build s obs s'" and "backend_ok L s"
  shows "backend_ok L s'"
proof -
  have "overlap_inv L s'"
    using assms(2) by (rule overlap_run_keeps) (use assms in \<open>auto simp: backend_ok_def intro: overlap_inv_step\<close>)
  moreover have "overlap_keyed L s'"
    using assms(2) by (rule overlap_run_keeps) (use assms in \<open>auto simp: backend_ok_def intro: overlap_keyed_step\<close>)
  moreover have "overlap_sealed L s'"
    using assms(2) by (rule overlap_run_keeps) (use assms in \<open>auto simp: backend_ok_def intro: overlap_sealed_step\<close>)
  ultimately show ?thesis by (simp add: backend_ok_def)
qed

lemma deploy_step_backend_ok:
  assumes "proto_laws L" and "deploy_inv L parse (e, w, gs, H)"
    and "deploy_step L parse load (e, w, gs, H) ts (e', w', gs', H')"
  shows "backend_ok L (w', calls_of gs')"
proof -
  obtain c b r where w: "w = (c, b, r)" by (rule prod_cases3)
  from assms(2) have ok: "backend_ok L (w, calls_of gs)" and ids: "dom (downstreamOperation (fst w)) \<subseteq> used H"
    and stages: "\<forall>s \<in># gs. stage_ok L (c, b, H) s"
    by (auto simp: w ids_ok_def)
  have asks: "asks_build (value_request ident req v)"
    if "Ready (Evaluating ident req (v # vs) found) \<in># gs" for ident req v vs found
    using stages that get_begin_asks by (cases found) (fastforce simp: asks_images_def)
  have "\<exists>obs. overlap_run L asks_build (w, calls_of gs) obs (w', calls_of gs')"
    by (rule deploy_step_overlaps [OF assms(3) ids]) (rule asks)
  then obtain obs where "overlap_run L asks_build (w, calls_of gs) obs (w', calls_of gs')" by blast
  from backend_ok_run [OF assms(1) this ok] show ?thesis .
qed

text \<open>A step that changes neither database nor history, and one that only the engine takes.\<close>

lemma deploy_inv_update:
  assumes "deploy_inv L parse (e, (c, b, r), gs, H)" and "backend_ok L ((c', b', r'), calls_of gs')"
    and "grows (c, b, H) (c', b', H')" and "ids_ok parse c' H'"
    and "\<And>s. s \<in># gs' \<Longrightarrow> s \<in># gs \<or> stage_ok L (c', b', H') s"
  shows "deploy_inv L parse (e, (c', b', r'), gs', H')"
proof -
  have "stage_ok L (c', b', H') s" if "s \<in># gs'" for s
    using assms(1) assms(5) [OF that] stage_ok_grows [OF _ assms(3)] by auto
  with assms(1,2,4) rows_ok_grows [OF _ assms(3)] show ?thesis by simp
qed

lemma ids_ok_same: "ids_ok parse c H \<Longrightarrow> downstreamOperation c' = downstreamOperation c \<Longrightarrow> ids_ok parse c' H"
  by (simp add: ids_ok_def)

lemma ids_ok_restart: "ids_ok parse c H \<Longrightarrow> ids_ok parse NewCacheBackend H"
  by (simp add: ids_ok_def NewCacheBackend_def)

lemma stage_ok_answer: "stage_ok L V (InCache g x) \<Longrightarrow> s \<in># answer g (Inl err) \<Longrightarrow> stage_ok L V s"
  by (cases g) (auto simp: answer_def)

lemma stage_ok_cut_off:
  assumes "\<forall>s \<in># gs. stage_ok L V s" and "s \<in># cut_off gs"
  shows "stage_ok L V s"
  using in_cut_off [OF assms(2)] assms(1) by fastforce

lemma stage_ok_orphaned: "s \<in># orphaned gs \<Longrightarrow> stage_ok L V s"
  using in_orphaned by fastforce

text \<open>When the cache dies, the goroutines that waited have an error on the way.\<close>

lemma deploy_inv_crash:
  assumes inv: "deploy_inv L parse (e, (c, b, r), gs, H)"
    and w: "(c', b', r') = cache_restart w1" "fst (snd w1) = b"
    and ok: "backend_ok L ((c', b', r'), calls_of (rest + cut_off gs1))"
    and stages: "\<And>s. s \<in># gs1 \<Longrightarrow> s \<in># gs" "\<And>s. s \<in># rest \<Longrightarrow> stage_ok L (c, b, H) s"
  shows "deploy_inv L parse (e, (c', b', r'), rest + cut_off gs1, H)"
proof (rule deploy_inv_update [OF inv ok])
  from w have eq: "c' = NewCacheBackend" "b' = b" by (cases w1; simp add: cache_restart_def)+
  show "grows (c, b, H) (c', b', H)" unfolding eq by (rule grows_restart)
  show "ids_ok parse c' H" unfolding eq using inv ids_ok_restart by auto
  have "\<forall>s \<in># gs1. stage_ok L (c, b, H) s" using inv stages(1) by simp
  then show "s \<in># gs \<or> stage_ok L (c', b', H) s" if "s \<in># rest + cut_off gs1" for s
    using that stages(2) stage_ok_cut_off stage_ok_grows grows_restart unfolding eq by (meson union_iff)
qed

text \<open>What the engine writes.\<close>

lemma newEvaluation_trace:
  assumes "newEvaluation parse ea ident ops e = (res, e')"
    and "\<forall>(v, opn) \<in> set (range_entries ops (eng_order ea)). \<not> isl (parse (op_name opn))"
  shows "e' = e \<or> (\<exists>ev. ev_ID ev = ident \<and> engine_trace e' = engine_trace e @
    map CreateOperation (rows_for parse ident (range_entries ops (eng_order ea))) @ [CreateEvaluation ev])"
proof -
  let ?es = "range_entries ops (eng_order ea)"
  consider "e' = e" | user hostname where
      "run_then (create_operations parse ident ?es e) (\<lambda>_ e.
        let e = engine_log (CreateEvaluation \<lparr>ev_ID = ident, ev_User = user, ev_Hostname = hostname\<rparr>) e
        in if eng_create_error ea \<noteq> None \<and> eng_create_rows ea \<noteq> 1 then (Value (eng_create_error ea), e)
           else (Value None, e)) = (res, e')"
    using assms(1) by (auto simp: newEvaluation_def md_first_def split: option.splits list.splits)
  then show ?thesis
  proof cases
    case (2 user hostname)
    then have "engine_trace e' = engine_trace e @ map CreateOperation (rows_for parse ident ?es) @
        [CreateEvaluation \<lparr>ev_ID = ident, ev_User = user, ev_Hostname = hostname\<rparr>]"
      unfolding create_operations_ok [OF assms(2)] by (auto simp: Let_def split: if_splits)
    then show ?thesis by auto
  qed simp
qed

lemma eval_finish_trace:
  "eval_finish L parse ea ident req found e = (res, e') \<Longrightarrow>
     \<exists>res1. newEvaluation parse ea ident (snd found) e = (res1, e')"
  by (auto simp: eval_finish_def run_then_def split: prod.splits run.splits option.splits)

lemma rows_of_evaluation: "row \<in> set (rows_of t n) \<Longrightarrow> or_EvaluationID row = n"
  by (auto simp: rows_of_def split: engine_effect.splits if_splits)

text \<open>An evaluation is recorded with rows that are right and hold its values.\<close>

lemma rows_ok_recorded:
  assumes rows: "rows_ok L (c, b, H) e" and asked: "asked H ident = Some req" and ev: "ev_ID ev = ident"
    and trace: "engine_trace e' = engine_trace e @ map CreateOperation (rows_for parse ident es) @ [CreateEvaluation ev]"
    and new: "\<And>row. row \<in> set (rows_for parse ident es) \<Longrightarrow> row_ok L (c, b, H) row"
    and vals: "or_Value ` set (rows_for parse ident es) = set (er_values req)"
  shows "rows_ok L (c, b, H) e'"
proof -
  have old: "or_Value ` set (rows_of (engine_trace e) ident) \<subseteq> set (er_values req)"
    using rows asked by (fastforce simp: rows_ok_def row_ok_def dest: rows_of_evaluation)
  have rows': "rows_of (engine_trace e') n =
      rows_of (engine_trace e) n @ (if n = ident then rows_for parse ident es else [])" for n
    by (simp add: trace rows_of_created)
  have evs': "set (evaluations_of (engine_trace e')) = insert ident (set (evaluations_of (engine_trace e)))"
    using trace ev by auto
  have "\<exists>req. asked H n = Some req \<and> or_Value ` set (rows_of (engine_trace e') n) = set (er_values req)"
    if "n \<in> set (evaluations_of (engine_trace e'))" for n
  proof (cases "n = ident")
    case True
    with asked vals old show ?thesis by (auto simp: rows' image_Un)
  next
    case False
    with that rows show ?thesis by (auto simp: rows' evs' rows_ok_def)
  qed
  with rows new show ?thesis by (auto simp: rows_ok_def rows')
qed

lemma rows_ok_finish:
  assumes rows: "rows_ok L (c, b, H) e" and ids: "ids_ok parse c H"
    and g: "goroutine_ok L (c, b, H) (Evaluating ident req [] found)"
    and order: "range_order (snd found) (eng_order ea)"
    and fin: "eval_finish L parse ea ident req found e = (res, e')"
  shows "rows_ok L (c, b, H) e'"
proof -
  obtain d ops where found: "found = (d, ops)" by (rule prod.exhaust)
  let ?es = "range_entries ops (eng_order ea)"
  from g have asked: "asked H ident = Some req" and dom: "dom ops = set (er_values req)"
    and each: "\<And>v opn. ops v = Some opn \<Longrightarrow> \<exists>cfg. asks_for L req v cfg \<and> found_ok L (c, b, H) cfg opn"
    by (auto simp: found)
  have name: "parse (op_name opn) = Inr (op_name opn)" if "ops v = Some opn" for v opn
    using each [OF that] ids by (auto simp: found_ok_def stands_for_def ids_ok_def)
  have entries: "(v, opn) \<in> set ?es \<Longrightarrow> ops v = Some opn" for v opn
    by (simp add: set_range_entries)
  from eval_finish_trace [OF fin] obtain res1 where "newEvaluation parse ea ident ops e = (res1, e')"
    by (auto simp: found)
  from newEvaluation_trace [OF this] name entries consider "e' = e"
    | ev where "ev_ID ev = ident" "engine_trace e' = engine_trace e @
        map CreateOperation (rows_for parse ident ?es) @ [CreateEvaluation ev]"
    by fastforce
  then show ?thesis
  proof cases
    case 1
    with rows show ?thesis by simp
  next
    case (2 ev)
    have new: "row_ok L (c, b, H) row" if "row \<in> set (rows_for parse ident ?es)" for row
    proof -
      from that obtain v opn where v: "(v, opn) \<in> set ?es" and row: "row =
          \<lparr>or_EvaluationID = ident, or_DependentID = projr (parse (op_name opn)), or_Value = v\<rparr>"
        by (auto simp: rows_for_def)
      from each [OF entries [OF v]] obtain cfg where "asks_for L req v cfg" "found_ok L (c, b, H) cfg opn" by blast
      with asked dom entries [OF v] name [OF entries [OF v]] row show ?thesis
        by (auto simp: row_ok_def found_ok_def intro!: exI [of _ req] exI [of _ cfg])
    qed
    have vals: "or_Value ` set (rows_for parse ident ?es) = set (er_values req)"
    proof -
      have "or_Value ` set (rows_for parse ident ?es) = set (map fst ?es)"
        by (force simp: rows_for_def)
      with order dom show ?thesis by (simp add: found range_order_def fst_range_entries)
    qed
    show ?thesis using rows asked 2 new vals by (rule rows_ok_recorded)
  qed
qed

text \<open>What a goroutine holds after it took a reply.\<close>

lemma eval_take_Inr:
  "eval_take L v reply (d, ops) = Value (Inr found') \<Longrightarrow>
     \<exists>opn. reply = Inr opn \<and> found' = (d \<and> op_done opn, ops(v \<mapsto> opn))"
  by (auto simp: eval_take_def split: sum.splits if_splits)

lemma goroutine_ok_takes:
  assumes "goroutine_ok L V (Evaluating ident req (v # vs) found)"
    and "\<And>opn. reply = Inr opn \<Longrightarrow> reply_for L V (Evaluating ident req (v # vs) found) opn"
    and "eval_take L v reply found = Value (Inr found')"
  shows "goroutine_ok L V (Evaluating ident req vs found')"
proof -
  obtain d ops where found: "found = (d, ops)" by (rule prod.exhaust)
  from eval_take_Inr [OF assms(3) [unfolded found]] obtain opn where
      "reply = Inr opn" "found' = (d \<and> op_done opn, ops(v \<mapsto> opn))" by blast
  with assms(1) assms(2) [of opn] show ?thesis by (auto simp: found)
qed

lemma poll_take_Value:
  "poll_take L row reply (d, res) = Value seen' \<Longrightarrow>
     \<exists>opn. reply = Inr opn \<and>
       (\<not> op_done opn \<and> seen' = (False, res) \<or>
        op_done opn \<and> (\<exists>resp. unpack_get_response L (GetResponse opn) = (resp, None) \<and>
          seen' = (d, res(or_Value row \<mapsto> gresp_value resp))))"
  by (auto simp: poll_take_def split: sum.splits if_splits prod.splits option.splits)

lemma goroutine_ok_poll_takes:
  assumes "goroutine_ok L V (Polling n (row # rows) seen)"
    and "\<And>opn. reply = Inr opn \<Longrightarrow> reply_for L V (Polling n (row # rows) seen) opn"
    and "poll_take L row reply seen = Value seen'"
  shows "goroutine_ok L V (Polling n rows seen')"
proof -
  obtain d res where seen: "seen = (d, res)" by (rule prod.exhaust)
  from poll_take_Value [OF assms(3) [unfolded seen]] obtain opn where opn: "reply = Inr opn"
    and "\<not> op_done opn \<and> seen' = (False, res) \<or>
        op_done opn \<and> (\<exists>resp. unpack_get_response L (GetResponse opn) = (resp, None) \<and>
          seen' = (d, res(or_Value row \<mapsto> gresp_value resp)))" by blast
  then consider "seen' = (False, res)"
    | resp where "op_done opn" "unpack_get_response L (GetResponse opn) = (resp, None)"
        "seen' = (d, res(or_Value row \<mapsto> gresp_value resp))" by blast
  then show ?thesis
  proof cases
    case 1
    with assms(1) show ?thesis by (simp add: seen)
  next
    case (2 resp)
    from assms(2) [OF opn] obtain req cfg where "asked (snd (snd V)) n = Some req"
        "asks_for L req (or_Value row) cfg" "seen_ok L V cfg opn" by auto
    with 2(1,2) have "\<exists>req cfg. asked (snd (snd V)) n = Some req \<and> asks_for L req (or_Value row) cfg \<and>
        image_of L (fst (snd V)) cfg (gresp_value resp)"
      by (auto simp: seen_ok_def)
    with assms(1) 2(3) show ?thesis by (auto simp: seen insert_commute)
  qed
qed

text \<open>A new goroutine.\<close>

lemma goroutine_ok_starts:
  assumes "asks_images L req" and "asked H ident = Some req"
  shows "goroutine_ok L (c, b, H) (Evaluating ident req (er_values req) (True, Map.empty))"
  using assms by simp

lemma goroutine_ok_poll_starts:
  assumes "db_law load" and "rows_ok L (c, b, H) e"
  shows "goroutine_ok L (c, b, H) (Polling n (load (engine_trace e) n) (True, Map.empty))"
proof -
  have "set (load (engine_trace e) n) = set (db_rows (engine_trace e) n)" using assms(1) by (rule db_law_set)
  then show ?thesis
    using assms(2) by (auto simp: rows_ok_def db_rows_def all_or_none_def dest: rows_of_evaluation)
qed

text \<open>The steps of the cache, then all of them.\<close>

lemma deploy_inv_begin:
  assumes inv: "deploy_inv L parse (e, (c, b, r), add_mset (Ready g) gs, H)"
    and begins: "get_begin L st ans (c, b, r) req = (res, (c', b', r'))"
    and ok: "backend_ok L ((c', b', r'), calls_of (add_mset s gs))" and s: "stage_ok L (c, b, H) s"
  shows "deploy_inv L parse (e, (c', b', r'), add_mset s gs, H)"
proof -
  from begins obtain r1 where "(c', b', r') = (c, b, r1)" by (rule get_begin_state)
  then have w: "c' = c" "b' = b" by simp_all
  show ?thesis
    unfolding w
  proof (rule deploy_inv_update [OF inv ok [unfolded w] grows_refl])
    show "ids_ok parse c H" using inv by simp
    show "t \<in># add_mset (Ready g) gs \<or> stage_ok L (c, b, H) t" if "t \<in># add_mset s gs" for t
      using that s by auto
  qed
qed

lemma deploy_inv_end:
  assumes laws: "proto_laws L"
    and inv: "deploy_inv L parse (e, (c, b, r), add_mset (InCache g (GotBuild d a reply)) gs, H)"
    and fresh: "\<And>i. cache_uuid ans = Inr i \<Longrightarrow> i \<notin> used H \<and> parse i = Inr i"
    and reg: "register_build L ans d a reply (c, b, r) = (Value v, (c', b', r'))"
    and ok: "backend_ok L ((c', b', r'), calls_of (answer g v + gs))"
  shows "deploy_inv L parse (e, (c', b', r'), answer g v + gs,
    H\<lparr>used := used H \<union> {i. cache_uuid ans = Inr i}\<rparr>)" (is "deploy_inv _ _ (_, _, _, ?H)")
proof (rule deploy_inv_update [OF inv ok])
  from register_build_effect [OF reg] have "c' = c \<and> b' = b \<or> (\<exists>i opn :: 'a operation.
      cache_uuid ans = Inr i \<and> b' = b \<and> c' = CacheBackend_Put d i (Some a)
        (c\<lparr>downstreamOperation := (downstreamOperation c)(i \<mapsto> op_name opn)\<rparr>))" by auto
  then consider "c' = c" "b' = b"
    | i and opn :: "'a operation" where "cache_uuid ans = Inr i" "b' = b" "c' = CacheBackend_Put d i (Some a)
        (c\<lparr>downstreamOperation := (downstreamOperation c)(i \<mapsto> op_name opn)\<rparr>)" by blast
  then have eff: "b' = b" "\<And>n m. downstreamOperation c' n = Some m \<Longrightarrow>
      cache_uuid ans = Inr n \<or> downstreamOperation c n = Some m"
    by (cases; auto simp: CacheBackend_Put_def split: if_splits)+
  with fresh show grow: "grows (c, b, H) (c', b', ?H)" by (auto simp: grows_def)
  show "ids_ok parse c' ?H" using inv fresh eff(2) by (fastforce simp: ids_ok_def)
  show "s \<in># add_mset (InCache g (GotBuild d a reply)) gs \<or> stage_ok L (c', b', ?H) s"
    if "s \<in># answer g v + gs" for s
  proof (cases "s \<in># gs")
    case False
    with that obtain g' where g': "g = Some g'" "s = Answered g' v" by (cases g) (auto simp: answer_def)
    from inv g'(1) have g: "goroutine_ok L (c, b, H) g'" "call_for L g' (GotBuild d a reply)" by simp_all
    then obtain ident req x vs f where g_eq: "g' = Evaluating ident req (x # vs) f" "asks_for L req x (config_of L a)"
      by (cases "(L, g', GotBuild d a reply)" rule: call_for.cases) auto
    have "found_ok L (c', b', ?H) (config_of L a) opn" if "v = Inr opn" for opn
      using inv reg that by (intro register_found_ok [OF laws]) auto
    with goroutine_ok_grows [OF g(1) grow] g_eq show ?thesis by (auto simp: g'(2))
  qed simp
qed

lemma deploy_inv_poll_end:
  assumes laws: "proto_laws L"
    and inv: "deploy_inv L parse (e, (c, b, r), add_mset (InCache g (GotOp n reply)) gs, H)"
    and answered: "poll_end L ans n reply c = (Value (Inr v), c')" and orders: "image_orders ans"
    and ok: "backend_ok L ((c', b, r), calls_of (answer g (Inr v) + gs))"
  shows "deploy_inv L parse (e, (c', b, r), answer g (Inr v) + gs, H)"
proof (rule deploy_inv_update [OF inv ok])
  have down: "downstreamOperation c' = downstreamOperation c" using poll_end_effect [OF answered] by auto
  then show grow: "grows (c, b, H) (c', b, H)" by (rule grows_cache)
  show "ids_ok parse c' H" using inv down ids_ok_same by auto
  show "s \<in># add_mset (InCache g (GotOp n reply)) gs \<or> stage_ok L (c', b, H) s"
    if "s \<in># answer g (Inr v) + gs" for s
  proof (cases "s \<in># gs")
    case False
    with that obtain g' where g': "g = Some g'" "s = Answered g' (Inr v)" by (cases g) (auto simp: answer_def)
    from inv g'(1) have g: "goroutine_ok L (c, b, H) g'" "call_for L g' (GotOp n reply)" by simp_all
    then obtain k row rows f where g_eq: "g' = Polling k (row # rows) f" "n = or_DependentID row"
      by (cases "(L, g', GotOp n reply)" rule: call_for.cases) auto
    with g(1) have "row_ok L (c, b, H) row" "or_EvaluationID row = k" by (cases f; simp)+
    with g_eq(2) obtain req cfg where req: "asked H k = Some req" "asks_for L req (or_Value row) cfg"
        "stands_for L (c, b, H) n cfg"
      by (auto simp: row_ok_def)
    have "seen_ok L (c', b, H) cfg v"
      using inv by (intro poll_end_seen_ok [OF laws _ req(3) answered orders]) auto
    with goroutine_ok_grows [OF g(1) grow] g_eq req show ?thesis by (auto simp: g'(2))
  qed simp
qed

lemma call_for_moves:
  "call_for L g (AskBuild (d, a, q)) \<Longrightarrow> call_for L g (GotBuild d a reply)"
  "call_for L g (AskOp n m) \<Longrightarrow> call_for L g (GotOp n reply)"
  "call_for L g x \<Longrightarrow> call_for L g (broken_off err x)"
  by (erule call_for.elims(2); simp)+

lemma stage_ok_moves:
  assumes "stage_ok L V (InCache g x)" and "\<And>g'. call_for L g' x \<Longrightarrow> call_for L g' x'"
  shows "stage_ok L V (InCache g x')"
  using assms by (cases g) auto

text \<open>The engine's own steps on its database.\<close>

lemma recorded_rows_ok:
  assumes "deploy_inv L parse (e, (c, b, r), add_mset (Ready (Evaluating ident req [] found)) gs, H)"
    and "range_order (snd found) (eng_order ea)"
    and "eval_finish L parse ea ident req found e = (res, e')"
  shows "rows_ok L (c, b, H) e'"
  using assms(1) by (intro rows_ok_finish [OF _ _ _ assms(2,3)]) auto

text \<open>
  The hypothesis on what was asked for. Nothing is forgotten of it, so where it holds at the end of a run
  it held all along.
\<close>

definition all_ask_images :: "'any proto_lib \<Rightarrow> 'any history \<Rightarrow> bool" where
  "all_ask_images L H \<longleftrightarrow> (\<forall>n req. asked H n = Some req \<longrightarrow> asks_images L req)"

lemma asked_stays:
  "deploy_step L parse load (e, w, gs, H) ts (e', w', gs', H') \<Longrightarrow> asked H \<subseteq>\<^sub>m asked H'"
  by (erule deploy_step.cases) (auto simp: map_le_def dom_def)

lemma all_ask_images_before:
  "deploy_step L parse load (e, w, gs, H) ts (e', w', gs', H') \<Longrightarrow> all_ask_images M H' \<Longrightarrow> all_ask_images M H"
  using asked_stays [of L parse load e w gs H ts e' w' gs' H']
  by (fastforce simp: all_ask_images_def map_le_def dom_def)

lemma deploy_inv_asked:
  assumes inv: "deploy_inv L parse (e, (c, b, r), gs, H)"
    and req: "asks_images L req" and fresh: "asked H ident = None"
    and ok: "backend_ok L ((c, b, r),
      calls_of (add_mset (Ready (Evaluating ident req (er_values req) (True, Map.empty))) gs))"
  shows "deploy_inv L parse (e, (c, b, r),
    add_mset (Ready (Evaluating ident req (er_values req) (True, Map.empty))) gs,
    H\<lparr>asked := (asked H)(ident \<mapsto> req)\<rparr>)"
proof (rule deploy_inv_update [OF inv ok grows_asked [OF fresh]])
  show "ids_ok parse c (H\<lparr>asked := (asked H)(ident \<mapsto> req)\<rparr>)" using inv by (simp add: ids_ok_def)
qed (use req in auto)

text \<open>A call of the cache begins: it is answered at once, or asks the builder.\<close>

lemma value_asked:
  assumes "goroutine_ok L V (Evaluating ident req (v # vs) found)"
  obtains cfg where "asks_for L req v cfg"
  using assms by (cases found) (fastforce simp: asks_images_def)

lemma deploy_inv_now:
  assumes laws: "proto_laws L" and inv: "deploy_inv L parse (e, (c, b, r), add_mset (Ready g) gs, H)"
    and g: "g = Evaluating ident req (v # vs) found"
    and begins: "get_begin L (stubs_for bld (call_CreateJob ks create)) ans (c, b, r) (value_request ident req v) =
      (Value (Inl reply), (c', b', r'))" and orders: "image_orders ans"
    and ok: "backend_ok L ((c', b', r'), calls_of (add_mset (Answered g reply) gs))"
  shows "deploy_inv L parse (e, (c', b', r'), add_mset (Answered g reply) gs, H)"
proof (rule deploy_inv_begin [OF inv begins ok])
  have now: "backend_ok L ((c, b, r), calls_of (add_mset (Ready g) gs))" and ids: "ids_ok parse c H"
    and gok: "goroutine_ok L (c, b, H) g" using inv by simp_all
  from gok obtain cfg where cfg: "asks_for L req v cfg" unfolding g by (rule value_asked)
  have "reply_for L (c, b, H) g opn" if "reply = Inr opn" for opn
    using hit_found_ok [OF laws now ids cfg begins [unfolded that] orders] cfg g by auto
  with gok show "stage_ok L (c, b, H) (Answered g reply)" by simp
qed

lemma deploy_inv_ask:
  assumes inv: "deploy_inv L parse (e, (c, b, r), add_mset (Ready g) gs, H)"
    and g: "g = Evaluating ident req (v # vs) found"
    and begins: "get_begin L st ans (c, b, r) (value_request ident req v) = (Value (Inr x), (c', b', r'))"
    and ok: "backend_ok L ((c', b', r'), calls_of (add_mset (InCache (Some g) (AskBuild x)) gs))"
  shows "deploy_inv L parse (e, (c', b', r'), add_mset (InCache (Some g) (AskBuild x)) gs, H)"
proof (rule deploy_inv_begin [OF inv begins ok])
  obtain d a q where x: "x = (d, a, q)" by (rule prod_cases3)
  have gok: "goroutine_ok L (c, b, H) g" using inv by simp
  then obtain cfg where "asks_for L req v cfg" unfolding g by (rule value_asked)
  with get_begin_ask [OF begins [unfolded x]] have "asks_for L req v (config_of L a)"
    by (auto simp: asks_for_def asks_build_def value_request_def EssentialActions_def split: option.splits)
  with gok show "stage_ok L (c, b, H) (InCache (Some g) (AskBuild x))" by (simp add: x g)
qed

lemma polled_row_ok:
  assumes "goroutine_ok L V (Polling n (row # rows) seen)"
  shows "row_ok L V row" and "or_EvaluationID row = n"
  using assms by (cases seen; simp)+

lemma poll_now_stage_ok:
  assumes laws: "proto_laws L" and now: "backend_ok L ((c, b, r), cs)"
    and g: "g = Polling n (row # rows) seen" "goroutine_ok L (c, b, H) g"
    and v: "poll_begin c (or_DependentID row) = Inl v"
  shows "stage_ok L (c, b, H) (Answered g (Inr v))"
proof -
  have "seen_ok L (c, b, H) cfg v" for cfg using v by (rule poll_now_seen_ok [OF laws now])
  with polled_row_ok [OF g(2) [unfolded g(1)]] g show ?thesis by (auto simp: row_ok_def)
qed

text \<open>The cache dies in a call that had its reply from the builder.\<close>

lemma deploy_inv_crash_answered:
  assumes inv: "deploy_inv L parse (e, (c, b, r), add_mset (InCache g x) gs, H)"
    and w: "(c', b', r') = cache_restart w1" "fst (snd w1) = b"
    and ok: "backend_ok L ((c', b', r'), calls_of (answer g (Inl ErrUnavailable) + cut_off gs))"
  shows "deploy_inv L parse (e, (c', b', r'), answer g (Inl ErrUnavailable) + cut_off gs, H)"
proof (rule deploy_inv_crash [OF inv w ok])
  have "stage_ok L (c, b, H) (InCache g x)" using inv by simp
  then show "stage_ok L (c, b, H) s" if "s \<in># answer g (Inl ErrUnavailable)" for s
    using that by (rule stage_ok_answer)
qed simp

text \<open>The builder goes on.\<close>

lemma deploy_inv_builder:
  assumes inv: "deploy_inv L parse (e, (c, b, r), gs, H)" and grow: "grows (c, b, H) (c, b', H)"
    and ok: "backend_ok L ((c, b', r), calls_of gs')"
    and stages: "\<And>s. s \<in># gs' \<Longrightarrow> s \<in># gs \<or> stage_ok L (c, b, H) s"
  shows "deploy_inv L parse (e, (c, b', r), gs', H)"
proof (rule deploy_inv_update [OF inv ok grow])
  show "ids_ok parse c H" using inv by simp
qed (use stages stage_ok_grows [OF _ grow] in blast)

text \<open>All steps.\<close>

lemma deploy_inv_step:
  assumes laws: "proto_laws L" and db: "db_law load" and images: "all_ask_images L H'"
    and inv: "deploy_inv L parse (e, (c, b, r), gs, H)"
    and step: "deploy_step L parse load (e, (c, b, r), gs, H) ts (e', (c', b', r'), gs', H')"
  shows "deploy_inv L parse (e', (c', b', r'), gs', H')"
proof -
  note ok = deploy_step_backend_ok [OF laws inv step]
  have rows: "rows_ok L (c, b, H) e" and stages: "\<forall>s \<in># gs. stage_ok L (c, b, H) s"
    and invb: "builder_inv b" and now: "backend_ok L ((c, b, r), calls_of gs)"
    using inv by (simp_all add: backend_ok_def overlap_inv_simp cache_inv_simp)
  from step show ?thesis
  proof cases
    case (e_eval ident req)
    then have "asked H' ident = Some req" by simp
    then have "asks_images L req" using images unfolding all_ask_images_def by blast
    with e_eval inv ok deploy_inv_asked show ?thesis by blast
  next
    case e_poll
    with inv ok goroutine_ok_poll_starts [OF db rows] show ?thesis by auto
  next
    case (c_get_now g ident req v vs found bld ks create ans reply gs1)
    from deploy_inv_now [OF laws inv [unfolded c_get_now(1)] c_get_now(6-8) ok [unfolded c_get_now(4)]]
    show ?thesis unfolding c_get_now(3-5) .
  next
    case (c_get_ask g ident req v vs found bld ks create ans x gs1)
    from deploy_inv_ask [OF inv [unfolded c_get_ask(1)] c_get_ask(6,7) ok [unfolded c_get_ask(4)]]
    show ?thesis unfolding c_get_ask(3-5) .
  next
    case (c_get_dies g ident req v vs found bld ks create ans res w1 gs1)
    from c_get_dies(8) obtain r1 where "w1 = (c, b, r1)" by (rule get_begin_state)
    then have "fst (snd w1) = b" by simp
    from deploy_inv_crash [OF inv c_get_dies(4) this, of "{#Answered g (Inl ErrUnavailable)#}" gs1]
    show ?thesis using ok c_get_dies stages by auto
  next
    case (c_get_end ans d a reply v g gs1)
    from deploy_inv_end [OF laws inv [unfolded c_get_end(1)] c_get_end(6,7) ok [unfolded c_get_end(4)]]
    show ?thesis unfolding c_get_end(3-5) .
  next
    case (c_get_end_dies ans d a reply res w1 g gs1)
    from register_build_effect [OF c_get_end_dies(7)] have "fst (snd w1) = b" by auto
    from deploy_inv_crash_answered [OF inv [unfolded c_get_end_dies(1)] c_get_end_dies(4) this]
    show ?thesis using ok c_get_end_dies by auto
  next
    case (c_poll_now g n row rows1 seen v gs1)
    with stages poll_now_stage_ok [OF laws now c_poll_now(9), of H v]
    have "stage_ok L (c, b, H) (Answered g (Inr v))" by auto
    with inv ok c_poll_now show ?thesis by auto
  next
    case (c_poll_ask g n row rows1 seen m gs1)
    with stages have "stage_ok L (c, b, H) (InCache (Some g) (AskOp (or_DependentID row) m))" by auto
    with inv ok c_poll_ask show ?thesis by auto
  next
    case (c_poll_end ans n reply v g gs1)
    from deploy_inv_poll_end [OF laws inv [unfolded c_poll_end(1)] c_poll_end(8,9)] ok show ?thesis
      unfolding c_poll_end(3-7) by blast
  next
    case (c_poll_dies ans n reply res c1 g gs1)
    have "fst (snd (c1, b, r)) = b" by simp
    from deploy_inv_crash_answered [OF inv [unfolded c_poll_dies(1)] c_poll_dies(4) this]
    show ?thesis using ok c_poll_dies by auto
  next
    case c_restarts
    have "fst (snd (c, b, r)) = b" by simp
    from deploy_inv_crash [OF inv c_restarts(3) this, of "{#}" gs] show ?thesis
      using ok c_restarts by auto
  next
    case (b_build y q reply g d a gs1)
    have "stage_ok L (c, b, H) (InCache g (GotBuild d a reply))"
      using stages b_build(1) by (intro stage_ok_moves [OF _ call_for_moves(1)]) auto
    with deploy_inv_builder [OF inv grows_builder [OF trace_call_Build [OF b_build(9)]], of gs'] ok b_build
    show ?thesis by auto
  next
    case (b_poll reg m reply g n gs1)
    have "stage_ok L (c, b, H) (InCache g (GotOp n reply))"
      using stages b_poll(1) by (intro stage_ok_moves [OF _ call_for_moves(2)]) auto
    moreover have "grows (c, b, H) (c, b', H)"
      using trace_call_GetOperation [of L reg b m] b_poll(8) by (simp add: grows_def)
    from deploy_inv_builder [OF inv this, of gs'] ok b_poll calculation show ?thesis by auto
  next
    case (b_works t wa)
    then have "grows (c, b, H) (c, b', H)" using builder_process_state [OF invb b_works(8)] by (simp add: grows_def)
    from deploy_inv_builder [OF inv this] ok b_works show ?thesis by simp
  next
    case b_works_on
    then have "grows (c, b, H) (c, b', H)" using builder_piece_state [OF _ invb] by (simp add: grows_def)
    from deploy_inv_builder [OF inv this] ok b_works_on show ?thesis by simp
  next
    case b_restarts
    then have "grows (c, b, H) (c, b', H)" by (simp add: grows_def)
    from deploy_inv_builder [OF inv this] ok b_restarts show ?thesis by simp
  next
    case (n_builder g x gs1 err)
    have "stage_ok L (c, b, H) (InCache g (broken_off err x))"
      using stages n_builder(1) by (intro stage_ok_moves [OF _ call_for_moves(3)]) auto
    with inv ok n_builder show ?thesis by auto
  next
    case (e_eval_takes v reply found found' ident req vs gs1)
    with stages have "goroutine_ok L (c, b, H) (Evaluating ident req vs found')"
      by (intro goroutine_ok_takes [OF _ _ e_eval_takes(9)]) auto
    with inv ok e_eval_takes show ?thesis by auto
  next
    case (e_poll_takes row reply seen seen' n rows1 gs1)
    with stages have "goroutine_ok L (c, b, H) (Polling n rows1 seen')"
      by (intro goroutine_ok_poll_takes [OF _ _ e_poll_takes(9)]) auto
    with inv ok e_poll_takes show ?thesis by auto
  next
    case (e_eval_ends found ea ident req reply)
    with recorded_rows_ok [OF inv [unfolded e_eval_ends(1)] e_eval_ends(7,8)] inv ok show ?thesis by auto
  next
    case (e_eval_end_fails found ea ident req err)
    with recorded_rows_ok [OF inv [unfolded e_eval_end_fails(1)] e_eval_end_fails(7,8)] inv ok show ?thesis by auto
  next
    case (e_eval_end_dies found ea ident req res gs1)
    with recorded_rows_ok [OF inv [unfolded e_eval_end_dies(1)] e_eval_end_dies(8,9)] inv ok
      stage_ok_orphaned show ?thesis by auto
  qed (use inv ok stage_ok_orphaned in auto)
qed

lemma deploy_run_inv:
  assumes "proto_laws L" and "db_law load" and "deploy_run L parse load deploy_init ts D"
    and "case D of (e, w, gs, H) \<Rightarrow> all_ask_images L H"
  shows "deploy_inv L parse D"
  using assms(3,4)
proof (induction rule: deploy_run.induct)
  case deploy_start
  show ?case by (rule deploy_inv_init)
next
  case (deploy_next ts D1 ts' D2)
  obtain e c b r gs H where D1: "D1 = (e, (c, b, r), gs, H)" by (metis prod_cases4 prod_cases3)
  obtain e' c' b' r' gs' H' where D2: "D2 = (e', (c', b', r'), gs', H')" by (metis prod_cases4 prod_cases3)
  have images: "all_ask_images L H'" using deploy_next.prems D2 by simp
  with all_ask_images_before deploy_next.hyps(2) have "all_ask_images L H" unfolding D1 D2 by blast
  then have "deploy_inv L parse (e, (c, b, r), gs, H)" using deploy_next.IH D1 by simp
  from deploy_inv_step [OF assms(1,2) images this] show ?case using deploy_next.hyps(2) unfolding D1 D2 by blast
qed

lemma deploy_run_snoc:
  "deploy_run L parse load D ts D1 \<Longrightarrow> deploy_step L parse load D1 [] D2 \<Longrightarrow> deploy_run L parse load D ts D2"
  using deploy_next by fastforce

section \<open>What the replies of the engine hold\<close>

text \<open>On the wire only an absent value changes; an image stays as it is.\<close>

lemma wire_values:
  assumes "proto_laws L" and "eval_reply L n d res = Value (Inr reply)"
  obtains "op_name reply = n" and "op_done reply = d"
    and "unpack_eval_response L (GetResponse reply) = (wire_eval_response \<lparr>eresp_values = res\<rparr>, None)"
  using assms by (auto simp: eval_reply_Inr proto_facts)

lemma wire_dom: "dom (eresp_values (wire_eval_response \<lparr>eresp_values = res\<rparr>)) = dom res"
  by (auto simp: wire_eval_response_def split: option.splits)

lemma wire_Some:
  "eresp_values (wire_eval_response \<lparr>eresp_values = res\<rparr>) v = Some tv \<Longrightarrow>
     res v = Some tv \<and> tv \<noteq> None \<or> res v = Some None \<and> tv = Some zero_typed_value"
  by (auto simp: wire_eval_response_def split: option.splits)

lemma image_of_Some: "image_of L b cfg tv \<Longrightarrow> tv \<noteq> None"
  by (auto simp: image_of_def)

lemma poll_told_ok:
  assumes laws: "proto_laws L" and g: "goroutine_ok L (c, b, H) (Polling n [] (d, res))"
    and reply: "eval_reply L n d res = Value (Inr reply)" and fin: "op_done reply"
  shows "\<exists>resp. unpack_eval_response L (GetResponse reply) = (resp, None) \<and> op_name reply = n \<and>
    all_or_none H n (dom (eresp_values resp)) \<and>
    (\<forall>v tv. eresp_values resp v = Some tv \<longrightarrow>
       (\<exists>req cfg. asked H n = Some req \<and> asks_for L req v cfg \<and> image_of L b cfg tv))"
proof -
  let ?resp = "wire_eval_response \<lparr>eresp_values = res\<rparr>"
  from laws reply have r: "op_name reply = n" "op_done reply = d"
    "unpack_eval_response L (GetResponse reply) = (?resp, None)" by (rule wire_values; blast)+
  with fin g have "all_or_none H n (dom (eresp_values ?resp))" unfolding wire_dom by simp
  moreover have "\<exists>req cfg. asked H n = Some req \<and> asks_for L req v cfg \<and> image_of L b cfg tv"
    if "eresp_values ?resp v = Some tv" for v tv
    using wire_Some [OF that] g image_of_Some by fastforce
  ultimately show ?thesis using r by blast
qed

lemma collect_values_Value:
  assumes "collect_values L ops vs r0 = Value res"
  shows "res v = (if v \<in> set vs \<and> ops v \<noteq> None
      then Some (gresp_value (fst (unpack_get_response L (GetResponse (the (ops v)))))) else r0 v) \<and>
    (v \<in> set vs \<longrightarrow> ops v \<noteq> None \<longrightarrow> snd (unpack_get_response L (GetResponse (the (ops v)))) = None)"
  using assms by (induction vs arbitrary: r0) (fastforce split: option.splits prod.splits)+

lemma eval_finish_Inr:
  assumes "eval_finish L parse ea ident req (d, ops) e = (Value (Inr reply), e')"
  obtains res where "(if d then collect_values L ops (er_values req) Map.empty else Value Map.empty) = Value res"
    and "eval_reply L ident d res = Value (Inr reply)"
  using assms by (auto simp: eval_finish_def run_then_Value split: option.splits cong: if_cong)

lemma eval_told_ok:
  assumes laws: "proto_laws L" and g: "goroutine_ok L (c, b, H) (Evaluating ident req [] found)"
    and reply: "eval_finish L parse ea ident req found e = (Value (Inr reply), e')" and fin: "op_done reply"
  shows "\<exists>resp. unpack_eval_response L (GetResponse reply) = (resp, None) \<and> op_name reply = ident \<and>
    asked H ident = Some req \<and> dom (eresp_values resp) = set (er_values req) \<and>
    (\<forall>v tv. eresp_values resp v = Some tv \<longrightarrow>
       tv = Some zero_typed_value \<or> (\<exists>cfg. asks_for L req v cfg \<and> image_of L b cfg tv))"
proof -
  obtain d ops where found: "found = (d, ops)" by (rule prod.exhaust)
  from reply [unfolded found] obtain res where
      res: "(if d then collect_values L ops (er_values req) Map.empty else Value Map.empty) = Value res"
    and er: "eval_reply L ident d res = Value (Inr reply)" by (rule eval_finish_Inr)
  let ?resp = "wire_eval_response \<lparr>eresp_values = res\<rparr>"
  from laws er have r: "op_name reply = ident" "op_done reply = d"
    "unpack_eval_response L (GetResponse reply) = (?resp, None)" by (rule wire_values; blast)+
  with fin res have col: "collect_values L ops (er_values req) Map.empty = Value res" by simp
  from g have asked: "asked H ident = Some req" and dom: "dom ops = set (er_values req)"
    and each: "\<And>v opn. ops v = Some opn \<Longrightarrow> op_done opn \<and> (\<exists>cfg. asks_for L req v cfg \<and> found_ok L (c, b, H) cfg opn)"
    using r(2) fin by (auto simp: found)
  have "dom res = set (er_values req)"
    using collect_values_Value [OF col] by (auto simp: dom [symmetric] domIff split: if_splits)
  then have "dom (eresp_values ?resp) = set (er_values req)" by (simp only: wire_dom)
  moreover have "tv = Some zero_typed_value \<or> (\<exists>cfg. asks_for L req v cfg \<and> image_of L b cfg tv)"
    if tv: "eresp_values ?resp v = Some tv" for v tv
  proof -
    from wire_Some [OF tv] consider "tv = Some zero_typed_value" | "res v = Some tv" "tv \<noteq> None"
      by blast
    then show ?thesis
    proof cases
      case 2
      from collect_values_Value [OF col, of v] 2(1) obtain opn where opn: "ops v = Some opn"
          "tv = gresp_value (fst (unpack_get_response L (GetResponse opn)))"
          "snd (unpack_get_response L (GetResponse opn)) = None"
        by (auto split: if_splits)
      from each [OF opn(1)] opn 2(2) show ?thesis by (fastforce simp: found_ok_def prod_eq_iff)
    qed simp
  qed
  ultimately show ?thesis using r asked by blast
qed

end
