(* ===== verification/Told_Types.thy ===== *)
theory Told_Types
  imports Told_Images
begin

text \<open>
  The type of what clients are told, whatever they ask for: an invariant of the deployment beside that of
  \<open>Told_Images\<close>, which does not need to know which builds the values come from.
\<close>

section \<open>Typed replies\<close>

definition image_typed :: "typed_value option \<Rightarrow> bool" where
  "image_typed tv \<longleftrightarrow>
     (\<exists>v. tv = Some v \<and> well_typed v \<and> dom (dictionary_map v) = {''image_name'', ''image_tag'', ''image_digest''})"

text \<open>A done reply of the cache's \<open>Get\<close>, once unpacked, holds such a value or none; of its \<open>GetOperation\<close>, such a value.\<close>

definition typed_found :: "'any proto_lib \<Rightarrow> 'any operation \<Rightarrow> bool" where
  "typed_found L opn \<longleftrightarrow>
     (\<forall>resp. op_done opn \<longrightarrow> unpack_get_response L (GetResponse opn) = (resp, None) \<longrightarrow>
        gresp_value resp = None \<or> image_typed (gresp_value resp))"

definition typed_seen :: "'any proto_lib \<Rightarrow> 'any operation \<Rightarrow> bool" where
  "typed_seen L opn \<longleftrightarrow>
     (\<forall>resp. op_done opn \<longrightarrow> unpack_get_response L (GetResponse opn) = (resp, None) \<longrightarrow>
        image_typed (gresp_value resp))"

lemma typed_seen_found: "typed_seen L opn \<Longrightarrow> typed_found L opn"
  by (simp add: typed_seen_def typed_found_def)

fun goroutine_typed :: "'any proto_lib \<Rightarrow> 'any goroutine \<Rightarrow> bool" where
  "goroutine_typed L (Evaluating ident req vs (d, ops)) \<longleftrightarrow>
     (\<forall>v opn. ops v = Some opn \<longrightarrow> typed_found L opn \<and> (d \<longrightarrow> op_done opn))"
| "goroutine_typed L (Polling n rows (d, res)) \<longleftrightarrow> (\<forall>v tv. res v = Some tv \<longrightarrow> image_typed tv)"

fun reply_typed :: "'any proto_lib \<Rightarrow> 'any goroutine \<Rightarrow> 'any operation \<Rightarrow> bool" where
  "reply_typed L (Evaluating ident req vs found) opn \<longleftrightarrow> typed_found L opn"
| "reply_typed L (Polling n rows seen) opn \<longleftrightarrow> typed_seen L opn"

text \<open>A poll never waits in a call of the cache's \<open>Get\<close>.\<close>

fun waits_in :: "'any goroutine \<Rightarrow> 'any call \<Rightarrow> bool" where
  "waits_in (Polling n rows seen) (AskBuild x) \<longleftrightarrow> False"
| "waits_in (Polling n rows seen) (GotBuild d a reply) \<longleftrightarrow> False"
| "waits_in g x \<longleftrightarrow> True"

fun stage_typed :: "'any proto_lib \<Rightarrow> 'any stage \<Rightarrow> bool" where
  "stage_typed L (Ready g) \<longleftrightarrow> goroutine_typed L g"
| "stage_typed L (InCache g x) \<longleftrightarrow> (\<forall>g'. g = Some g' \<longrightarrow> goroutine_typed L g' \<and> waits_in g' x)"
| "stage_typed L (Answered g reply) \<longleftrightarrow>
     goroutine_typed L g \<and> (\<forall>opn. reply = Inr opn \<longrightarrow> reply_typed L g opn)"

definition deploy_typed :: "'any proto_lib \<Rightarrow> 'any deployment \<Rightarrow> bool" where
  "deploy_typed L D =
     (case D of (e, w, gs, H) \<Rightarrow>
        overlap_sealed L (w, calls_of gs) \<and> dom (downstreamOperation (fst w)) \<subseteq> used H \<and>
        (\<forall>s \<in># gs. stage_typed L s))"

section \<open>Where replies come from\<close>

lemma image_response_image_typed: "image_orders ans \<Longrightarrow> image_typed (gresp_value (image_response ans resp))"
  using image_response_typed [of ans resp] by (auto simp: image_typed_def image_info_def)

lemma hit_typed:
  assumes "proto_laws L" and "image_orders ans"
    and "get_begin L st ans (c, b, r) (value_request ident req v) = (Value (Inl (Inr opn)), w')"
  shows "typed_found L opn"
proof -
  from assms(3) obtain n where "cached_reply L ans c n = Value (Inr opn)"
    by (rule get_begin_now) blast
  from cached_reply_Inr [OF assms(1) this] image_response_image_typed [OF assms(2)] show ?thesis
    unfolding typed_found_def by metis
qed

lemma registered_typed:
  assumes "register_build L ans d a reply (c, b, r) = (Value (Inr v), w')" and "proto_laws L"
  shows "typed_found L v \<and> (\<forall>resp. unpack_get_response L (GetResponse v) = (resp, None) \<longrightarrow> gresp_value resp = None)"
  using register_build_reply [OF assms(2,1)] by (fastforce simp: typed_found_def zero_get_response_def)

lemma kept_typed:
  assumes "proto_laws L" and "overlap_sealed L ((c, b, r), cs)" and "poll_begin c n = Inl v"
  shows "typed_seen L v"
proof -
  consider "op_result v = None" | "cb_upstream c n = Some v"
    using assms(3) by (auto simp: poll_begin_def Let_def split: option.splits if_splits)
  then have "op_done v \<longrightarrow> snd (unpack_get_response L (GetResponse v)) \<noteq> None"
  proof cases
    case 1
    then have "GetResponse v = None" by (simp add: GetResponse_def)
    with proto_laws_nil(4) [OF assms(1)] show ?thesis by auto
  next
    case 2
    with assms(2) have "sealed L v" by (auto simp: overlap_sealed_def)
    with sealed_not_get [OF assms(1)] show ?thesis by blast
  qed
  then show ?thesis by (auto simp: typed_seen_def)
qed

lemma polled_typed:
  assumes "proto_laws L" and "poll_end L ans n reply c = (Value (Inr v), c')" and "image_orders ans"
  shows "typed_seen L v"
proof -
  from assms(2) obtain d resp where "respond L n d (image_response ans resp) = Value (Inr v)"
    by (auto simp: poll_end_def Let_def split: sum.splits prod.splits option.splits)
  from respond_Inr [OF assms(1) this] image_response_image_typed [OF assms(3)] show ?thesis
    by (simp add: typed_seen_def)
qed

section \<open>The invariant\<close>

lemma deploy_typed_init: "deploy_typed L deploy_init"
  by (simp add: deploy_typed_def deploy_init_def backend_init_def overlap_sealed_def)
    (simp add: NewCacheBackend_def)

lemma waits_in_moves:
  "waits_in g (AskBuild x) \<Longrightarrow> waits_in g (GotBuild d a reply)"
  "waits_in g (AskOp n m) \<Longrightarrow> waits_in g (GotOp n reply')"
  "waits_in g y \<Longrightarrow> waits_in g (broken_off err y)"
proof -
  show "waits_in g (AskBuild x) \<Longrightarrow> waits_in g (GotBuild d a reply)" by (cases g) simp_all
  show "waits_in g (AskOp n m) \<Longrightarrow> waits_in g (GotOp n reply')" by (cases g) simp_all
  show "waits_in g y \<Longrightarrow> waits_in g (broken_off err y)"
    by (cases "(err, y)" rule: broken_off.cases; cases g) simp_all
qed

lemma stage_typed_answer_error:
  "stage_typed L (InCache g x) \<Longrightarrow> s \<in># answer g (Inl err) \<Longrightarrow> stage_typed L s"
  by (auto simp: answer_def split: option.splits)

lemma stage_typed_cut_off: "\<forall>s \<in># gs. stage_typed L s \<Longrightarrow> \<forall>s \<in># cut_off gs. stage_typed L s"
  by (fastforce dest: in_cut_off)

lemma stage_typed_orphaned: "\<forall>s \<in># orphaned gs. stage_typed L s"
  by (auto dest: in_orphaned)

lemma goroutine_typed_takes:
  assumes "eval_take L v reply found = Value (Inr found')"
    and "stage_typed L (Answered (Evaluating ident req (v # vs) found) reply)"
  shows "goroutine_typed L (Evaluating ident req vs found')"
proof -
  obtain d ops where found: "found = (d, ops)" by (rule prod.exhaust)
  from eval_take_Inr [OF assms(1) [unfolded found]] show ?thesis using assms(2) by (fastforce simp: found)
qed

lemma goroutine_typed_poll_takes:
  assumes "poll_take L row reply seen = Value seen'"
    and "stage_typed L (Answered (Polling n (row # rows) seen) reply)"
  shows "goroutine_typed L (Polling n rows seen')"
proof -
  obtain d res where seen: "seen = (d, res)" by (rule prod.exhaust)
  from poll_take_Value [OF assms(1) [unfolded seen]] show ?thesis
    using assms(2) by (fastforce simp: seen typed_seen_def)
qed

text \<open>A reply that is on its way to whoever waits for it.\<close>

lemma stage_typed_answer:
  assumes "stage_typed L (InCache g x)" and "\<And>g'. g = Some g' \<Longrightarrow> waits_in g' x \<Longrightarrow> reply = Inr v \<Longrightarrow> reply_typed L g' v"
    and "s \<in># answer g reply" and "reply = Inr v \<or> (\<exists>err. reply = Inl err)"
  shows "stage_typed L s"
  using assms by (auto simp: answer_def split: option.splits)

lemma reply_typed_seen: "typed_seen L v \<Longrightarrow> reply_typed L g v"
  using typed_seen_found by (cases g) auto

text \<open>The part of the cache: final results, and the identifiers of its operations.\<close>

lemma deploy_step_sealed:
  assumes "overlap_sealed L (w, calls_of gs)" and "dom (downstreamOperation (fst w)) \<subseteq> used H"
    and "deploy_step L parse load (e, w, gs, H) ts (e', w', gs', H')"
  shows "overlap_sealed L (w', calls_of gs')"
proof -
  from deploy_step_overlaps [OF assms(3,2), where ok = "\<lambda>_. True"] obtain obs where
    "overlap_run L (\<lambda>_. True) (w, calls_of gs) obs (w', calls_of gs')" by blast
  then show ?thesis using assms(1) overlap_sealed_step by (rule overlap_run_keeps)
qed

lemma deploy_step_used:
  assumes "dom (downstreamOperation (fst w)) \<subseteq> used H"
    and "deploy_step L parse load (e, w, gs, H) ts (e', w', gs', H')"
  shows "dom (downstreamOperation (fst w')) \<subseteq> used H'"
  using assms(2)
proof cases
  case (c_get_end ans d a reply v g gs1)
  obtain c b r where w: "w = (c, b, r)" by (rule prod_cases3)
  have "x \<in> used H" if "downstreamOperation c x = Some y" for x y
    using assms(1) that by (auto simp: w)
  with register_build_effect [OF c_get_end(7) [unfolded w]] show ?thesis
    using c_get_end(5) by (auto simp: CacheBackend_Put_def split: if_splits)
next
  case (c_get_now g ident req v vs found bld ks create ans reply gs1)
  with get_begin_cache [OF c_get_now(7)] assms(1) show ?thesis by simp
next
  case (c_get_ask g ident req v vs found bld ks create ans x gs1)
  with get_begin_cache [OF c_get_ask(7)] assms(1) show ?thesis by simp
next
  case (c_poll_end ans n reply c1 v c' b1 r1 g gs1)
  with poll_end_effect [OF c_poll_end(8)] assms(1) show ?thesis by auto
qed (use assms(1) in \<open>auto simp: cache_restart_def NewCacheBackend_def split: prod.splits\<close>)

text \<open>All steps, and all runs.\<close>

lemma deploy_typed_step:
  assumes laws: "proto_laws L" and inv: "deploy_typed L (e, w, gs, H)"
    and step: "deploy_step L parse load (e, w, gs, H) ts (e', w', gs', H')"
  shows "deploy_typed L (e', w', gs', H')"
proof -
  from inv have sealed: "overlap_sealed L (w, calls_of gs)" and ids: "dom (downstreamOperation (fst w)) \<subseteq> used H"
    and stages: "\<forall>s \<in># gs. stage_typed L s" by (simp_all add: deploy_typed_def)
  obtain c b r where w: "w = (c, b, r)" by (rule prod_cases3)
  have "\<forall>s \<in># gs'. stage_typed L s"
    using step
  proof cases
    case (c_get_now g ident req v vs found bld ks create ans reply gs1)
    have "reply_typed L g opn" if "reply = Inr opn" for opn
      using hit_typed [OF laws c_get_now(8) c_get_now(7) [unfolded w that]] c_get_now(6) by simp
    with stages c_get_now show ?thesis by auto
  next
    case (c_get_ask g ident req v vs found bld ks create ans x gs1)
    with stages show ?thesis by auto
  next
    case (c_get_dies g ident req v vs found bld ks create ans res w1 gs1)
    with stages stage_typed_cut_off [of gs1] show ?thesis by auto
  next
    case (c_get_end ans d a reply v g gs1)
    have "reply_typed L g' opn" if "waits_in g' (GotBuild d a reply)" "v = Inr opn" for g' opn
      using registered_typed [OF c_get_end(7) [unfolded w that(2)] laws] that(1) by (cases g') auto
    with stages c_get_end show ?thesis by (auto simp: answer_def split: option.splits)
  next
    case (c_get_end_dies ans d a reply res w1 g gs1)
    with stages stage_typed_cut_off [of gs1] show ?thesis by (auto simp: answer_def split: option.splits)
  next
    case (c_poll_now g n row rows seen v gs1)
    from c_poll_now(8) have "typed_seen L v" using kept_typed [OF laws sealed [unfolded w]] by (simp add: w)
    with stages c_poll_now show ?thesis by auto
  next
    case (c_poll_ask g n row rows seen m gs1)
    with stages show ?thesis by auto
  next
    case (c_poll_end ans n reply c1 v c' b1 r1 g gs1)
    from polled_typed [OF laws c_poll_end(8,9)] reply_typed_seen have "reply_typed L g' v" for g' by blast
    with stages c_poll_end show ?thesis by (auto simp: answer_def split: option.splits)
  next
    case (c_poll_dies ans n reply c1 res c' b1 r1 g gs1)
    with stages stage_typed_cut_off [of gs1] show ?thesis by (auto simp: answer_def split: option.splits)
  next
    case c_restarts
    with stages stage_typed_cut_off show ?thesis by auto
  next
    case (e_eval_takes v reply found found' ident req vs gs1)
    with stages goroutine_typed_takes [OF e_eval_takes(7), of ident req] show ?thesis by auto
  next
    case (e_poll_takes row reply seen seen' n rows gs1)
    with stages goroutine_typed_poll_takes [OF e_poll_takes(7), of n] show ?thesis by auto
  qed (use stages stage_typed_orphaned waits_in_moves in auto)
  with deploy_step_sealed [OF sealed ids step] deploy_step_used [OF ids step] show ?thesis
    by (simp add: deploy_typed_def)
qed

lemma deploy_run_typed:
  assumes "proto_laws L" and "deploy_run L parse load deploy_init ts D"
  shows "deploy_typed L D"
  using assms(2)
proof (induction rule: deploy_run.induct)
  case deploy_start
  show ?case by (rule deploy_typed_init)
next
  case (deploy_next ts D1 ts' D2)
  obtain e w gs H where D1: "D1 = (e, w, gs, H)" by (rule prod_cases4)
  obtain e' w' gs' H' where D2: "D2 = (e', w', gs', H')" by (rule prod_cases4)
  from deploy_typed_step [OF assms(1) deploy_next.IH [unfolded D1]] deploy_next.hyps(2)
  show ?case unfolding D1 D2 by blast
qed

section \<open>What is told\<close>

lemma poll_told_typed:
  assumes laws: "proto_laws L" and g: "goroutine_typed L (Polling n [] (d, res))"
    and reply: "eval_reply L n d res = Value (Inr reply)"
  shows "\<exists>resp. unpack_eval_response L (GetResponse reply) = (resp, None) \<and>
    (\<forall>v tv. eresp_values resp v = Some tv \<longrightarrow> image_typed tv)"
proof -
  let ?resp = "wire_eval_response \<lparr>eresp_values = res\<rparr>"
  from laws reply have "unpack_eval_response L (GetResponse reply) = (?resp, None)" by (rule wire_values)
  moreover have "image_typed tv" if "eresp_values ?resp v = Some tv" for v tv
    using wire_Some [OF that] g by (auto simp: image_typed_def)
  ultimately show ?thesis by blast
qed

lemma collected_typed:
  assumes g: "goroutine_typed L (Evaluating ident req [] (True, ops))"
    and col: "collect_values L ops vs Map.empty = Value res" and "res v = Some tv"
  shows "tv = None \<or> image_typed tv"
proof -
  from collect_values_Value [OF col, of v] assms(3) obtain opn where opn: "ops v = Some opn"
      "tv = gresp_value (fst (unpack_get_response L (GetResponse opn)))"
      "snd (unpack_get_response L (GetResponse opn)) = None"
    by (auto split: if_splits)
  then have "unpack_get_response L (GetResponse opn) = (fst (unpack_get_response L (GetResponse opn)), None)"
    by (simp add: prod_eq_iff)
  moreover have "op_done opn" "typed_found L opn" using g opn(1) by simp_all
  ultimately show ?thesis using opn(2) unfolding typed_found_def by metis
qed

lemma eval_told_typed:
  assumes laws: "proto_laws L" and g: "goroutine_typed L (Evaluating ident req [] found)"
    and reply: "eval_finish L parse ea ident req found e = (Value (Inr reply), e')"
  shows "\<exists>resp. unpack_eval_response L (GetResponse reply) = (resp, None) \<and>
    (\<forall>v tv. eresp_values resp v = Some tv \<longrightarrow> tv = Some zero_typed_value \<or> image_typed tv)"
proof -
  obtain d ops where found: "found = (d, ops)" by (rule prod.exhaust)
  from reply [unfolded found] obtain res where
      res: "(if d then collect_values L ops (er_values req) Map.empty else Value Map.empty) = Value res"
    and er: "eval_reply L ident d res = Value (Inr reply)" by (rule eval_finish_Inr)
  let ?resp = "wire_eval_response \<lparr>eresp_values = res\<rparr>"
  from laws er have "unpack_eval_response L (GetResponse reply) = (?resp, None)" by (rule wire_values)
  moreover have "tv = None \<or> image_typed tv" if "res v = Some tv" for v tv
    using res that collected_typed [of L ident req ops "er_values req" res v tv] g
    by (cases d) (auto simp: found)
  then have "tv = Some zero_typed_value \<or> image_typed tv" if "eresp_values ?resp v = Some tv" for v tv
    using wire_Some [OF that] by blast
  ultimately show ?thesis by blast
qed

end
