(* ===== verification/End_To_End.thy ===== *)
theory End_To_End
  imports System
begin

text \<open>
  One evaluation from the command line to the printed table: what each service leaves on the way
  when the value \<open>image.build\<close> is not in the cache, put together.
\<close>

section \<open>The builder and the cache\<close>

text \<open>The state of the builder after it accepted a request.\<close>

definition requested_state :: "build_answers \<Rightarrow> builder_state \<Rightarrow> build_request \<Rightarrow> builder_state" where
  "requested_state y b q =
     b\<lparr>buildInfo := (buildInfo b)(fst (ans_buildID y) \<mapsto> new_info y q),
       builder_trace := builder_trace b @
         [DbCreate (new_info y q), DbCommit, Enqueue (task_for (new_info y q) (br_target q))]\<rparr>"

lemma builder_accepts:
  assumes "ans_enqueue y = None"
  shows "builder_call_Build y b q =
    (Inr \<lparr>op_name = fst (ans_buildID y), op_done = False, op_metadata = None, op_result = None\<rparr>,
     requested_state y b q)"
  using assms
  by (simp add: builder_call_Build_def Build_def requested_state_def new_info_def task_for_def
      builder_log_def Let_def)

lemma GetAction_image:
  "GetAction (Some (image_graph_with L conf)) ''image.build'' =
     Value (Inr ((NewBuildImageAction L)\<lparr>act_config := conf\<rparr>))"
  by (simp add: GetAction_def image_graph_with_def)

lemma createJob_backend:
  "snd (stub_create_job (stubs_for bld (call_CreateJob ks create)) r \<lparr>cjr_actions = None\<rparr>) = r"
  by (simp add: call_CreateJob_def CreateJob_nil_graph runner_restart_def)

text \<open>
  A configuration is not cached when the lookup of an image build with it finds nothing, be it that
  there is no entry under its digest or that none has all of its targets.
\<close>

definition not_cached :: "'any proto_lib \<Rightarrow> 'any cache_state \<Rightarrow> build_image_config \<Rightarrow> bool" where
  "not_cached L c conf \<longleftrightarrow>
     (\<forall>act. act_kind act = ''build-image'' \<longrightarrow> unpack_build_image_config L (act_config act) = (conf, None) \<longrightarrow>
        (\<exists>err. CacheBackend_Get L c act = Value (Inl err)))"

lemma not_cached_empty: "cb_data c = Map.empty \<Longrightarrow> not_cached L c conf"
  using ActionDigest_build [of _ L conf] by (auto simp: not_cached_def CacheBackend_Get_def)

lemma backend_Get_miss:
  assumes ok: "runtime_ok L" and "ans_enqueue y = None" and "cache_uuid ca = Inr cid"
    and "gr_context q = Some ctx" and "ctx_actions ctx = Some (image_graph_with L (Some a))"
    and "gr_value q = ''image.build''" and "gr_skip_caching q \<or> not_cached L c conf"
    and conf: "unpack_build_image_config L (Some a) = (conf, None)" "bic_commit_point conf = Some cp"
  obtains z c1 where
    "backend_Get L y job ca (c, b, r) q =
       (Inr (reply_operation cid False z), (c1, requested_state y b (requested cp conf), r))"
    "unpack_get_response L (Some z) = (zero_get_response, None)"
    "downstreamOperation c1 cid = Some (fst (ans_buildID y))" "cb_upstream c1 = cb_upstream c"
proof -
  let ?act = "(NewBuildImageAction L)\<lparr>act_config := Some a\<rparr>"
  let ?st = "stubs_for (builder_call_Build y) (call_CreateJob (fst job) (snd job))"
  obtain z where z: "pack_get_response L zero_get_response = Inr z"
    using ok by (metis runtime_ok_def packs_all_def)
  then have uz: "unpack_get_response L (Some z) = (zero_get_response, None)"
    using ok by (simp add: runtime_ok_def proto_facts)
  have kind: "act_kind ?act = ''build-image''" by (simp add: NewBuildImageAction_def)
  obtain d where d: "ActionDigest L ?act = Inr d"
    using ActionDigest_build [of ?act L conf] kind conf(1) by simp
  have miss: "gr_skip_caching q \<or> (\<exists>err. CacheBackend_Get L c ?act = Value (Inl err))"
    using assms(7) kind conf(1) by (auto simp: not_cached_def)
  have main: "GetAction (Some (image_graph_with L (Some a))) (gr_value q) = Value (Inr ?act)"
    using assms(6) GetAction_image by simp
  have build: "ag_actions (image_graph_with L (Some a)) ''build'' = Some ?act"
    by (simp add: image_graph_with_def)
  have cp: "bic_commit_point (fst (unpack_build_image_config L (act_config ?act))) = Some cp"
    using conf by simp
  have call: "stub_build ?st b (requested cp (fst (unpack_build_image_config L (act_config ?act)))) =
      (Inr \<lparr>op_name = fst (ans_buildID y), op_done = False, op_metadata = None, op_result = None\<rparr>,
       requested_state y b (requested cp conf))"
    using conf assms(2) by (simp add: builder_accepts)
  show ?thesis
  proof (rule that [of z])
    show "backend_Get L y job ca (c, b, r) q = (Inr (reply_operation cid False z),
        (CacheBackend_Put d cid (Some ?act)
           (c\<lparr>downstreamOperation := (downstreamOperation c)(cid \<mapsto> fst (ans_buildID y))\<rparr>),
         requested_state y b (requested cp conf), r))"
      using cache_Get_miss [OF assms(4,5) main d miss build cp call z assms(3)] createJob_backend
      by (simp add: backend_Get_def cache_call_Get_def)
  qed (simp_all add: uz CacheBackend_Put_def)
qed

section \<open>The engine\<close>

text \<open>The caller's user and host are known, or the call carries no metadata at all.\<close>

definition caller_known :: "engine_answers \<Rightarrow> bool" where
  "caller_known ans \<longleftrightarrow>
     (case eng_metadata ans of
        None \<Rightarrow> True
      | Some md \<Rightarrow> returns (md_first md ''user'') \<and> returns (md_first md ''hostname''))"

lemma returns_Value: "returns x \<longleftrightarrow> (\<exists>v. x = Value v)"
  by (cases x) auto

lemma newEvaluation_ok:
  assumes "caller_known ans" and "eng_create_error ans = None"
    and "\<forall>(v, opn) \<in> set (range_entries ops (eng_order ans)). \<not> isl (parse (op_name opn))"
  obtains e' where "newEvaluation parse ans ident ops e = (Value None, e')"
  using assms create_operations_ok [OF assms(3), of ident e]
  by (auto simp: newEvaluation_def caller_known_def returns_Value run_then_def Let_def split: option.splits)

lemma Eval_one_miss:
  assumes ok: "runtime_ok L" and "ans_enqueue y = None" and "cache_uuid ca = Inr cid"
    and "er_context req = Some ctx" and "ctx_actions ctx = Some (image_graph_with L (Some a))"
    and "er_values req = [''image.build'']" and "er_skip_caching req \<or> not_cached L c conf"
    and conf: "unpack_build_image_config L (Some a) = (conf, None)" "bic_commit_point conf = Some cp"
    and ea: "eng_uuid ea = Inr eid" "caller_known ea" "eng_create_error ea = None"
      "eng_order ea = [''image.build'']"
    and parse: "parse cid = Inr cid" and db: "db_law load" and "rows_of (engine_trace e) eid = []"
    and up: "cb_upstream c cid = None"
  obtains z e1 c1 where
    "engine_call_Eval L parse (\<lambda>i. backend_Get L y job ca) ea (e, (c, b, r)) req =
       (Inr (reply_operation eid False z), (e1, (c1, requested_state y b (requested cp conf), r)))"
    "snd (unpack_eval_response L (Some z)) = None"
    "load (engine_trace e1) eid =
       [\<lparr>or_EvaluationID = eid, or_DependentID = cid, or_Value = ''image.build''\<rparr>]"
    "waits_for c1 cid (fst (ans_buildID y))"
proof -
  let ?q = "\<lparr>gr_evaluation = eid, gr_context = er_context req, gr_value = ''image.build'',
      gr_skip_caching = er_skip_caching req\<rparr>"
  let ?b1 = "requested_state y b (requested cp conf)"
  obtain z c1 where g: "backend_Get L y job ca (c, b, r) ?q = (Inr (reply_operation cid False z), (c1, ?b1, r))"
      "unpack_get_response L (Some z) = (zero_get_response, None)"
      "downstreamOperation c1 cid = Some (fst (ans_buildID y))" "cb_upstream c1 = cb_upstream c"
    by (rule backend_Get_miss [OF ok assms(2,3), where q = ?q and ctx = ctx and a = a and c = c and conf = conf])
      (use assms(4-7) conf in simp_all)
  let ?ops = "[''image.build'' \<mapsto> reply_operation cid False z]"
  have loop: "eval_values L (\<lambda>i. backend_Get L y job ca) eid req 0 (er_values req) True Map.empty (c, b, r) =
      (Value (Inr (False, ?ops)), (c1, ?b1, r))"
    using g(1,2) assms(6) by simp
  have entries: "range_entries ?ops (eng_order ea) = [(''image.build'', reply_operation cid False z)]"
    using ea(4) by simp
  obtain e1 where new: "newEvaluation parse ea eid ?ops e = (Value None, e1)"
    by (rule newEvaluation_ok [OF ea(2,3), where ops = ?ops and parse = parse]) (simp add: entries parse)
  have "mset (load (engine_trace e1) eid) =
      mset [\<lparr>or_EvaluationID = eid, or_DependentID = cid, or_Value = ''image.build''\<rparr>]"
    using db db_rows_after_newEvaluation [OF new assms(16)] entries parse
    by (simp add: db_law_def rows_for_def)
  then have rows: "load (engine_trace e1) eid =
      [\<lparr>or_EvaluationID = eid, or_DependentID = cid, or_Value = ''image.build''\<rparr>]"
    by (simp add: mset_single_iff)
  obtain a1 where a1: "eval_reply L eid False Map.empty = Value (Inr (reply_operation eid False a1))"
      "pack_eval_response L \<lparr>eresp_values = Map.empty\<rparr> = Inr a1"
    using ok by (metis runtime_ok_def eval_reply_total)
  have "snd (unpack_eval_response L (Some a1)) = None"
    using ok a1(2) by (simp add: runtime_ok_def proto_laws_unpack(5))
  moreover have "engine_call_Eval L parse (\<lambda>i. backend_Get L y job ca) ea (e, (c, b, r)) req =
      (Inr (reply_operation eid False a1), (e1, (c1, ?b1, r)))"
    using loop new a1(1) ea(1) by (simp add: engine_call_Eval_def Eval_def)
  moreover have "waits_for c1 cid (fst (ans_buildID y))"
    using g(3,4) up by (simp add: waits_for_def)
  ultimately show ?thesis using rows that by blast
qed

section \<open>The client\<close>

definition eval_header :: "string list list" where
  "eval_header = [[''compare.baseline.train.features.generate.images''], [[]]]"

text \<open>The build a client asks for with its substitutions, and the image it is told about.\<close>

definition asked_build :: "(string \<rightharpoonup> string) \<Rightarrow> build_request" where
  "asked_build m = requested (the (bic_commit_point (substituted_config m))) (substituted_config m)"

definition image_rows :: "string list \<Rightarrow> string \<Rightarrow> string \<Rightarrow> string list list" where
  "image_rows order tag digest =
     (case range_entries [''image_name'' \<mapsto> ''eval'', ''image_tag'' \<mapsto> tag, ''image_digest'' \<mapsto> digest] order of
        [] \<Rightarrow> []
      | (n, v) # rest \<Rightarrow> [''image.build'', n, v] # map (\<lambda>(n, v). [[], n, v]) rest)"

lemma substituted_commit_point: "bic_commit_point (substituted_config m) \<noteq> None"
  by (simp add: substituted_config_def default_build_image_config_def Let_def split: option.splits)

lemma print_image_values:
  assumes "unpack_eval_response L (GetResponse v) = (image_values reg ans b m row, None)"
    and "or_Value row = ''image.build''"
  shows "print_result L eval_header [''image.build''] v = Value
    [eval_header @
      (case range_entries (image_info (built_response reg b m)) (cache_value_order ans) of
         [] \<Rightarrow> []
       | (n, v) # rest \<Rightarrow> [''image.build'', n, v] # map (\<lambda>(n, v). [[], n, v]) rest)]"
  using assms field_rows_strings [of "''image.build''"
      "range_entries (image_info (built_response reg b m)) (cache_value_order ans)"]
  by (simp add: print_result_def image_values_def image_response_def StringDictionary_def)

text \<open>
  Everything \<open>evalCmdImpl\<close> does before it calls the engine. The head of the workspace is what
  \<open>GetHead\<close> makes of it.
\<close>

definition client_ready :: "evalctl_answers \<Rightarrow> bool" where
  "client_ready ec \<longleftrightarrow>
     \<not> isl (engine_connection (ec_dial ec)) \<and> returns (WithRequesterInfo (ec_requester ec) Map.empty) \<and>
     \<not> isl (WorkspaceStatus (ec_git ec) (workspaceTop (ec_home ec))) \<and>
     \<not> isl (GetHead (ec_git ec) (workspaceTop (ec_home ec))) \<and>
     ec_bucket_order ec = [''image''] \<and> ec_value_order ec = [''image.build'']"

text \<open>
  What the engine is told about its caller: the metadata of the call, with what the transport adds
  under other keys.
\<close>

definition called_with :: "metadata \<Rightarrow> metadata \<Rightarrow> engine_answers \<Rightarrow> engine_answers" where
  "called_with extra md ans = ans\<lparr>eng_metadata := Some (extra ++ md)\<rparr>"

lemma caller_known_requester:
  assumes "WithRequesterInfo rq parent = Value md"
  shows "caller_known (called_with extra md ans)"
  using requester_known [OF assms]
  by (auto simp: caller_known_def called_with_def md_first_def)

definition call_and_wait ::
    "'any proto_lib \<Rightarrow> ('w \<Rightarrow> 'any eval_request \<Rightarrow> (go_error + 'any operation) \<times> 'w) \<Rightarrow>
     ('w \<Rightarrow> string \<Rightarrow> (go_error + 'any operation) \<times> 'w) \<Rightarrow> ('w \<Rightarrow> 'w) \<Rightarrow> 'any eval_request \<Rightarrow> 'w \<Rightarrow>
     (string list list list run \<times> 'w) option" where
  "call_and_wait L eval get sleep req w =
     (case eval w req of
        (Inl err, w1) \<Rightarrow> Some (Exited ''Error when calling Eval'', w1)
      | (Inr operation, w1) \<Rightarrow>
          (if snd (unpack_eval_response L (GetResponse operation)) \<noteq> None
           then Some (Exited ''Cannot unmarhshal result'', w1)
           else
             (case await get sleep operation w1 of
                None \<Rightarrow> None
              | Some (Panicked p, w2) \<Rightarrow> Some (Panicked p, w2)
              | Some (Exited m, w2) \<Rightarrow> Some (Exited m, w2)
              | Some (Value opn, w2) \<Rightarrow> Some (print_result L eval_header [''image.build''] opn, w2))))"

lemma evalCmdImpl_calls:
  assumes "proto_laws L" and "packs_all (pack_build_image_config L)" and "client_ready ec"
  obtains a refs md where
    "unpack_build_image_config L (Some a) = (substituted_config m, None)"
    "WithRequesterInfo (ec_requester ec) Map.empty = Value md"
    "evalCmdImpl L ec eval get sleep m skip [''image.build''] w =
       call_and_wait L (eval md) get sleep
         (eval_request_for skip (image_graph_with L (Some a)) (fst refs) (snd refs) [''image.build'']) w"
proof -
  let ?top = "workspaceTop (ec_home ec)"
  obtain conn where "engine_connection (ec_dial ec) = Inr conn"
    using assms(3) by (cases "engine_connection (ec_dial ec)") (simp_all add: client_ready_def)
  moreover obtain md where md: "WithRequesterInfo (ec_requester ec) Map.empty = Value md"
    using assms(3) by (cases "WithRequesterInfo (ec_requester ec) Map.empty") (simp_all add: client_ready_def)
  moreover obtain clean where "WorkspaceStatus (ec_git ec) ?top = Inr clean"
    using assms(3) by (cases "WorkspaceStatus (ec_git ec) ?top") (simp_all add: client_ready_def)
  moreover obtain refs where "GetHead (ec_git ec) ?top = Inr refs"
    using assms(3) by (cases "GetHead (ec_git ec) ?top") (simp_all add: client_ready_def)
  moreover have "ec_bucket_order ec = [''image'']" "ec_value_order ec = [''image.build'']"
    using assms(3) by (simp_all add: client_ready_def)
  ultimately have ec: "engine_connection (ec_dial ec) = Inr conn"
      "WithRequesterInfo (ec_requester ec) Map.empty = Value md" "WorkspaceStatus (ec_git ec) ?top = Inr clean"
      "GetHead (ec_git ec) ?top = Inr refs" "ec_bucket_order ec = [''image'']"
      "ec_value_order ec = [''image.build'']"
    by simp_all
  have "range_order (valueGraphBuckets [''image.build'']) [''image'']"
    by (auto simp: range_order_def dom_valueGraphBuckets)
  from actionGraphs_known [OF this, of L] obtain rs where rs: "actionGraphs L [''image''] [''image.build''] = Inr rs"
    by auto
  obtain out where out: "dump_requests (ec_dump_order ec) rs = Value out"
    using dump_requests_Value by blast
  have "hd (split_on CHR ''.'' ''image.build'') = ''image''" by simp
  from prepare_request_image [OF assms(1,2) this, of m skip refs "[]"] obtain a where
      a: "prepare_request L m skip refs [''image.build''] =
        Value (eval_request_for skip (image_graph_with L (Some a)) (fst refs) (snd refs) [''image.build''])"
      "unpack_build_image_config L (Some a) = (substituted_config m, None)" by blast
  show ?thesis
    by (rule that [OF a(2) md, of refs], unfold evalCmdImpl_def call_and_wait_def ec eval_header_def)
      (simp add: rs out a(1))
qed

section \<open>The whole evaluation\<close>

lemma built_response_work:
  assumes "buildInfo b m = Some (new_info y q)"
  shows "image_info (built_response reg b m) =
    [''image_name'' \<mapsto> ''eval'', ''image_tag'' \<mapsto> fst (ans_imageTag y),
     ''image_digest'' \<mapsto>
       (case getDigest reg ''eval'' (fst (ans_imageTag y)) of Inl err \<Rightarrow> [] | Inr d \<Rightarrow> d)]"
  using assms by (simp add: built_response_def image_info_def info_at_def new_info_def)

lemma work_keeps_info:
  fixes work :: "builder_state \<Rightarrow> builder_state"
  assumes "\<forall>s. buildInfo (work s) = buildInfo s"
  shows "buildInfo ((work ^^ j) b) = buildInfo b"
  using assms by (induction j) simp_all

text \<open>The loop, started on what \<open>Eval\<close> leaves behind.\<close>

lemma await_prints_image:
  assumes ok: "runtime_ok L" and row: "load (engine_trace e) n = [row]" and "or_Value row = ''image.build''"
    and wait: "waits_for c (or_DependentID row) m" and opn: "op_name opn = n" "\<not> op_done opn"
    and info: "buildInfo b m = Some (new_info y q)" and keep: "\<forall>s. buildInfo (work s) = buildInfo s"
    and fin: "buildDone ((work ^^ k) b) m = Some True"
  obtains v w' reg ans x where
    "await (engine_poll L load env) (sleeping work) opn (e, c, b, r) = Some (Value v, w')"
    "env x 0 = (reg, ans)"
    "print_result L eval_header [''image.build''] v = Value
       [eval_header @ image_rows (cache_value_order ans) (fst (ans_imageTag y))
          (case getDigest reg ''eval'' (fst (ans_imageTag y)) of Inl err \<Rightarrow> [] | Inr d \<Rightarrow> d)]"
proof -
  let ?W = "\<lambda>j. builder_of (poll_world (engine_poll L load env) (sleeping work) n j (e, c, b, r))"
  have "\<exists>k. buildDone (?W k) m = Some True"
  proof (rule ccontr)
    assume "\<nexists>k. buildDone (?W k) m = Some True"
    then have "?W k = (work ^^ k) b"
      by (intro polls_work [where load = load, OF ok row wait]) blast
    with fin \<open>\<nexists>k. buildDone (?W k) m = Some True\<close> show False by metis
  qed
  then obtain k' where k': "buildDone (?W k') m = Some True" by blast
  obtain v w' reg ans b' where a:
      "await (engine_poll L load env) (sleeping work) opn (e, c, b, r) = Some (Value v, w')"
      "unpack_eval_response L (GetResponse v) = (image_values reg ans b' m row, None)"
      "\<exists>j. b' = ?W j \<and> (\<forall>i < j. buildDone (?W i) m \<noteq> Some True)" "\<exists>x. env x 0 = (reg, ans)"
    by (rule await_completes [where load = load, OF ok row idle_sleeping wait opn k'])
  from a(3) obtain j where j: "b' = ?W j" "\<forall>i < j. buildDone (?W i) m \<noteq> Some True" by blast
  have "b' = (work ^^ j) b"
    unfolding j(1) using j(2) by (intro polls_work [where load = load, OF ok row wait]) blast
  then have "buildInfo b' m = Some (new_info y q)" using info work_keeps_info [OF keep] by simp
  from built_response_work [OF this] print_image_values [OF a(2) assms(3)] a(1,4) that show ?thesis
    unfolding image_rows_def by metis
qed

text \<open>The client's call and its loop, for the request it makes.\<close>

lemma Eval_then_await:
  assumes ok: "runtime_ok L" and miss: "er_skip_caching req \<or> not_cached L c conf"
    and y: "ans_enqueue y = None" and ca: "cache_uuid ca = Inr cid"
    and ea: "eng_uuid ea = Inr eid" "caller_known ea" "eng_create_error ea = None"
      "eng_order ea = [''image.build'']"
    and db: "parse cid = Inr cid" "db_law load" "rows_of (engine_trace e) eid = []"
    and up: "cb_upstream c cid = None" and keep: "\<forall>s. buildInfo (work s) = buildInfo s"
    and fin: "buildDone ((work ^^ k) (requested_state y b (requested cp conf))) (fst (ans_buildID y)) = Some True"
    and req: "er_context req = Some ctx" "ctx_actions ctx = Some (image_graph_with L (Some a))"
      "er_values req = [''image.build'']"
    and conf: "unpack_build_image_config L (Some a) = (conf, None)" "bic_commit_point conf = Some cp"
  obtains opn w1 v w' x reg ans where
    "engine_call_Eval L parse (\<lambda>i. backend_Get L y job ca) ea (e, c, b, r) req = (Inr opn, w1)"
    "snd (unpack_eval_response L (GetResponse opn)) = None"
    "await (engine_poll L load env) (sleeping work) opn w1 = Some (Value v, w')"
    "env x 0 = (reg, ans)"
    "print_result L eval_header [''image.build''] v = Value
       [eval_header @ image_rows (cache_value_order ans) (fst (ans_imageTag y))
          (case getDigest reg ''eval'' (fst (ans_imageTag y)) of Inl err \<Rightarrow> [] | Inr d \<Rightarrow> d)]"
proof -
  let ?b1 = "requested_state y b (requested cp conf)" and ?m = "fst (ans_buildID y)"
  let ?row = "\<lparr>or_EvaluationID = eid, or_DependentID = cid, or_Value = ''image.build''\<rparr>"
  obtain z e1 c1 where z:
      "engine_call_Eval L parse (\<lambda>i. backend_Get L y job ca) ea (e, c, b, r) req =
         (Inr (reply_operation eid False z), (e1, (c1, ?b1, r)))"
      "snd (unpack_eval_response L (Some z)) = None"
      "load (engine_trace e1) eid = [?row]" "waits_for c1 cid ?m"
    by (rule Eval_one_miss [where parse = parse and load = load, OF ok y ca req miss conf ea db up])
  have row: "or_Value ?row = ''image.build''" "waits_for c1 (or_DependentID ?row) ?m"
    using z(4) by simp_all
  have opn: "op_name (reply_operation eid False z) = eid" "\<not> op_done (reply_operation eid False z)"
    by simp_all
  have info: "buildInfo ?b1 ?m = Some (new_info y (requested cp conf))"
    by (simp add: requested_state_def)
  obtain v w' reg ans x where
      "await (engine_poll L load env) (sleeping work) (reply_operation eid False z) (e1, c1, ?b1, r) =
         Some (Value v, w')"
      "env x 0 = (reg, ans)"
      "print_result L eval_header [''image.build''] v = Value
         [eval_header @ image_rows (cache_value_order ans) (fst (ans_imageTag y))
            (case getDigest reg ''eval'' (fst (ans_imageTag y)) of Inl err \<Rightarrow> [] | Inr d \<Rightarrow> d)]"
    by (rule await_prints_image [where load = load and env = env, OF ok z(3) row opn info keep fin])
  with z(1,2) that show ?thesis by simp
qed

end
