(* ===== verification/Sample_Run.thy ===== *)
theory Sample_Run
  imports End_To_End Overlapping_Calls
begin

text \<open>
  A short run of the deployed services on concrete inputs, over the protobuf runtime \<open>tagged_lib\<close>:
  a client asks for \<open>image.build\<close>, a worker handles the task, and the operation is polled. The
  witnesses of the properties use its states.
\<close>

definition sample_ctx :: "tagged_any eval_context" where
  "sample_ctx = \<lparr>ctx_actions = Some (ImageGraph tagged_lib), ctx_substitutions = []\<rparr>"

definition sample_request :: "tagged_any get_request" where
  "sample_request =
     \<lparr>gr_evaluation = ''eval1'', gr_context = Some sample_ctx, gr_value = ''image.build'',
      gr_skip_caching = False\<rparr>"

definition sample_y :: build_answers where
  "sample_y = \<lparr>ans_imageTag = (''tag1'', None), ans_buildID = (''build1'', None), ans_enqueue = None\<rparr>"

definition sample_order :: "string list" where
  "sample_order = [''image_name'', ''image_tag'', ''image_digest'']"

definition sample_ans :: cache_answers where
  "sample_ans =
     \<lparr>cache_uuid = Inr ''op1'', cache_type_order = sample_order, cache_value_order = sample_order,
      cache_execute_order = [''build'']\<rparr>"

definition sample_digest :: string where
  "sample_digest = hex_string (sha256 (digest_input tagged_lib default_build_image_config))"

abbreviation sample_action :: "tagged_any action" where
  "sample_action \<equiv> NewBuildImageAction tagged_lib"

abbreviation sample_config :: build_image_config where
  "sample_config \<equiv> default_build_image_config"

definition sample_cp :: commit_point where
  "sample_cp =
     \<lparr>cp_name = [], cp_branch = ''main'',
      cp_commit_sha = ''1937df925312572ef64753e9bf20a208de98b8be'', cp_commit_required = []\<rparr>"

definition sample_build :: build_request where
  "sample_build = requested sample_cp sample_config"

definition sample_info :: BuildInfo where
  "sample_info = new_info sample_y sample_build"

definition sample_task :: build_task where
  "sample_task = task_for sample_info (br_target sample_build)"

lemma sample_config_simps [simp]:
  "bic_commit_point sample_config = Some sample_cp"
  "bic_bazel_targets sample_config = [''//actions/wrapper'']"
  by (simp_all add: sample_cp_def default_build_image_config_def)

lemma sample_digest [simp]: "ActionDigest tagged_lib sample_action = Inr sample_digest"
  by (simp add: ActionDigest_build sample_digest_def)

section \<open>The states\<close>

text \<open>After the request.\<close>

definition sample_cache1 :: "tagged_any cache_state" where
  "sample_cache1 =
     \<lparr>cb_data = [sample_digest \<mapsto> [\<lparr>cv_Action = Some sample_action, cv_Operation = ''op1''\<rparr>]],
      cb_upstream = Map.empty, downstreamOperation = [''op1'' \<mapsto> ''build1'']\<rparr>"

definition sample_builder1 :: builder_state where
  "sample_builder1 =
     \<lparr>buildDone = Map.empty, buildInfo = [''build1'' \<mapsto> sample_info],
      builder_trace = [DbCreate sample_info, DbCommit, Enqueue sample_task]\<rparr>"

definition sample_runner :: runner_state where
  "sample_runner = \<lparr>runner_jobs = []\<rparr>"

definition sample_w1 :: "tagged_any backend" where
  "sample_w1 = (sample_cache1, sample_builder1, sample_runner)"

lemma sample_fresh [simp]: "fresh_answers sample_y sample_ans backend_init"
  by (simp add: fresh_answers_def backend_init_def builder_fresh_def builder_init_def
      sample_ans_def NewCacheBackend_def)

lemma sample_builder_call:
  "builder_call_Build sample_y builder_init sample_build =
     (Inr \<lparr>op_name = ''build1'', op_done = False, op_metadata = None, op_result = None\<rparr>, sample_builder1)"
  by (simp add: builder_call_Build_def Build_def sample_y_def sample_builder1_def sample_info_def
      sample_task_def new_info_def task_for_def builder_init_def builder_log_def sample_build_def
      requested_def Let_def)

lemma sample_buildImage:
  "buildImage (stubs_for (builder_call_Build sample_y) jobs) sample_config
     (NewCacheBackend, builder_init, r) =
   (Value (Inr \<lparr>op_name = ''build1'', op_done = False, op_metadata = None, op_result = None\<rparr>),
    (NewCacheBackend, sample_builder1, r))"
  using sample_builder_call by (simp add: buildImage_Value sample_build_def)

lemma sample_Get:
  "cache_Get tagged_lib (stubs_for (builder_call_Build sample_y) (call_CreateJob ks create)) sample_ans
     backend_init sample_request =
   (Value (Inr (reply_operation ''op1'' False (AnyGetResponse zero_get_response))), sample_w1)"
proof -
  have job: "createJob (stubs_for (builder_call_Build sample_y) (call_CreateJob ks create)) backend_init =
      backend_init"
    by (simp add: backend_init_def createJob_def call_CreateJob_def CreateJob_nil_graph runner_restart_def)
  have miss: "CacheBackend_Get tagged_lib NewCacheBackend sample_action = Value (Inl (ErrText ''no cached operation''))"
    by (simp add: CacheBackend_Get_def NewCacheBackend_def)
  obtain out where ex: "fst (Execute tagged_lib (cache_execute_order sample_ans)
      (Some (ImageGraph tagged_lib))) = Value out"
    using Execute_Some [of tagged_lib "cache_execute_order sample_ans" "ImageGraph tagged_lib"] by auto
  have fresh: "fresh_build tagged_lib (stubs_for (builder_call_Build sample_y) (call_CreateJob ks create))
      sample_ans (Some (ImageGraph tagged_lib)) sample_action backend_init =
    (Value (Inr (reply_operation ''op1'' False (AnyGetResponse zero_get_response))), sample_w1)"
    by (simp add: fresh_build_def ex sample_buildImage backend_init_def)
      (simp add: register_build_def sample_ans_def CacheBackend_Put_def NewCacheBackend_def
        sample_w1_def sample_cache1_def sample_runner_def Let_def)
  show ?thesis
    using fresh miss
    by (simp add: cache_Get_def sample_request_def sample_ctx_def EssentialActions_def Let_def job)
      (simp add: backend_init_def)
qed

lemma sample_step1: "backend_step tagged_lib asks_build backend_init sample_w1"
proof (rule step_Get)
  show "asks_build sample_request"
    by (simp add: asks_build_def sample_request_def sample_ctx_def)
  show "fresh_answers sample_y sample_ans backend_init" by simp
  show "backend_Get tagged_lib sample_y ([], None) sample_ans backend_init sample_request =
      (Inr (reply_operation ''op1'' False (AnyGetResponse zero_get_response)), sample_w1)"
    by (simp add: backend_Get_def cache_call_Get_def sample_Get)
qed

text \<open>After the worker: nothing went wrong and the watch ended at once.\<close>

definition sample_registry :: registry_answers where
  "sample_registry =
     \<lparr>reg_connect = None, reg_digest = (\<lambda>img tag. Inr ''sha256:0''), reg_nil_client = Value ()\<rparr>"

definition sample_worker :: worker_answers where
  "sample_worker =
     \<lparr>wa_connect = \<lparr>ca_config = None, ca_client = None\<rparr>, wa_create = None, wa_watch = None,
      wa_events = [], wa_registry = sample_registry, wa_pods = Inr []\<rparr>"

definition sample_builder2 :: builder_state where
  "sample_builder2 =
     \<lparr>buildDone = [''build1'' \<mapsto> True], buildInfo = [''build1'' \<mapsto> sample_info],
      builder_trace = [DbCreate sample_info, DbCommit, Enqueue sample_task,
        CreateK8sJob (job_for sample_info (br_target sample_build))]\<rparr>"

definition sample_w2 :: "tagged_any backend" where
  "sample_w2 = (sample_cache1, sample_builder2, sample_runner)"

lemma sample_process: "builder_process sample_worker sample_builder1 sample_task = sample_builder2"
  by (simp add: builder_process_def HandleBuildTask_def builder_build_def connectToK8s_def
      playWithDocker_def sample_worker_def sample_registry_def sample_builder1_def sample_builder2_def
      sample_task_def task_for_def job_for_def NewBuildTask_def builder_log_def Let_def
      sample_info_def new_info_def sample_y_def)

lemma sample_step2: "backend_step tagged_lib asks_build sample_w1 sample_w2"
  unfolding sample_w1_def sample_w2_def sample_process [symmetric]
  by (rule step_Worker) (simp add: sample_builder1_def)

lemma sample_reachable1: "reachable tagged_lib asks_build sample_w1"
  using reachable_init sample_step1 by (rule reachable_step)

lemma sample_reachable2: "reachable tagged_lib asks_build sample_w2"
  using sample_reachable1 sample_step2 by (rule reachable_step)

lemma sample_runtime [simp]: "runtime_ok tagged_lib"
  by (simp add: runtime_ok_def packs_all_def)

lemma sample_waits: "waits_for sample_cache1 ''op1'' ''build1''"
  by (simp add: waits_for_def sample_cache1_def)

section \<open>The client's side\<close>

definition sample_client :: evalctl_answers where
  "sample_client =
     \<lparr>ec_dial =
        \<lparr>dial_key_pair = (\<lambda>cert key. Inr ''cert''), dial_read_file = (\<lambda>file. Inr ''ca''),
         dial_pem_ok = (\<lambda>ca. True), dial_result = (\<lambda>endpoint. None)\<rparr>,
      ec_requester = \<lparr>rq_hostname = Inr ''here'', rq_euid = 1000, rq_user = Inr ''me''\<rparr>,
      ec_home = ''/home/me'',
      ec_git = (\<lambda>workspace. Inr
        \<lparr>repo_head = Inr \<lparr>ref_name = ''refs/heads/main'', ref_hash = ''c0ffee''\<rparr>, repo_tags = Inr [],
         repo_worktree = Inr (Inr True)\<rparr>),
      ec_bucket_order = [''image''], ec_dump_order = [''build''], ec_value_order = [''image.build'']\<rparr>"

definition sample_engine_answers :: engine_answers where
  "sample_engine_answers =
     \<lparr>eng_uuid = Inr ''eval1'', eng_metadata = None, eng_order = [''image.build''], eng_create_error = None, eng_create_rows = 1\<rparr>"

definition sample_env :: "tagged_any deployed \<Rightarrow> nat \<Rightarrow> registry_answers \<times> cache_answers" where
  "sample_env w i = (sample_registry, sample_ans)"

definition sample_work :: "builder_state \<Rightarrow> builder_state" where
  "sample_work s = builder_process sample_worker s sample_task"

lemma sample_ready: "client_ready sample_client"
  by (simp add: client_ready_def sample_client_def engine_connection_def NewConnection_def SplitHostPort_def
      WithRequesterInfo_def WorkspaceStatus_def GetWorktree_def GetRepo_def GetHead_def)

lemma sample_asked: "asked_build Map.empty = sample_build"
  by (simp add: asked_build_def substituted_config_def sample_build_def)

lemma sample_requested: "requested_state sample_y builder_init sample_build = sample_builder1"
  by (simp add: requested_state_def builder_init_def sample_builder1_def sample_y_def sample_info_def
      sample_task_def)

lemma sample_work_info: "\<forall>s. buildInfo (sample_work s) = buildInfo s"
  by (simp add: sample_work_def builder_process_def HandleBuildTask_def builder_build_def connectToK8s_def
      playWithDocker_def sample_worker_def sample_registry_def sample_task_def task_for_def
      NewBuildTask_def builder_log_def Let_def)

lemma sample_work_done: "buildDone ((sample_work ^^ 1) sample_builder1) (fst (ans_buildID sample_y)) = Some True"
  by (simp add: sample_work_def sample_process) (simp add: sample_builder2_def sample_y_def)

section \<open>A poll in flight\<close>

definition sample_pending :: "tagged_any operation" where
  "sample_pending = \<lparr>op_name = ''build1'', op_done = False, op_metadata = None, op_result = None\<rparr>"

lemma sample_in_flight:
  obtains opn cs where "op_done opn"
    and "overlap_reachable tagged_lib asks_build (sample_w2, add_mset (GotOp ''op1'' (Inr opn)) cs)"
    and "unpack_build_response tagged_lib (GetResponse opn) =
      (built_response sample_registry sample_builder2 ''build1'', None)"
proof -
  obtain cs where "overlap_reachable tagged_lib asks_build (sample_w2, cs)"
    using reachable_overlaps [OF sample_reachable2] by blast
  then obtain obs where run: "overlap_run tagged_lib asks_build (backend_init, {#}) obs (sample_w2, cs)"
    by (auto simp: overlap_reachable_def)
  obtain a where a: "pack_build_response tagged_lib (built_response sample_registry sample_builder2 ''build1'') = Inr a"
    by (simp add: tagged_lib_def)
  let ?opn = "reply_operation ''build1'' True a"
  have "poll_begin (fst sample_w2) ''op1'' = Inr ''build1''"
    by (simp add: poll_begin_def sample_w2_def sample_cache1_def)
  from run_step [OF run poll_ask [OF this]]
  have asked: "overlap_run tagged_lib asks_build (backend_init, {#}) obs (sample_w2, add_mset (AskOp ''op1'' ''build1'') cs)"
    by simp
  have "buildDone sample_builder2 ''build1'' = Some True" by (simp add: sample_builder2_def)
  from builder_GetOperation_done [OF this a]
  have call: "builder_call_GetOperation tagged_lib sample_registry sample_builder2 ''build1'' =
    (Inr ?opn, sample_builder2)" .
  have "overlap_step tagged_lib asks_build (sample_w2, add_mset (AskOp ''op1'' ''build1'') cs) []
      (sample_w2, add_mset (GotOp ''op1'' (Inr ?opn)) cs)"
    unfolding sample_w2_def by (rule poll_builder [OF call])
  from run_step [OF asked this] have
    "overlap_reachable tagged_lib asks_build (sample_w2, add_mset (GotOp ''op1'' (Inr ?opn)) cs)"
    unfolding overlap_reachable_def by blast
  moreover have "unpack_build_response tagged_lib (GetResponse ?opn) =
      (built_response sample_registry sample_builder2 ''build1'', None)"
    using proto_laws_unpack(3) [OF tagged_lib_laws a] by simp
  ultimately show ?thesis by (intro that [of ?opn cs]) simp_all
qed

end
