(* ===== verification/Deployment_Run.thy ===== *)
theory Deployment_Run
  imports Told_Types Sample_Run
begin

text \<open>
  What the clients of the engine are told, over all runs of the deployment, and a concrete run: an
  evaluation is asked for, recorded, built and polled, and a second one finds the build in the cache.
\<close>

section \<open>A run\<close>

definition sample_eval_request :: "tagged_any eval_request" where
  "sample_eval_request =
     \<lparr>er_context = Some sample_ctx, er_values = [''image.build''], er_skip_caching = False\<rparr>"

abbreviation sample_pieces :: "tagged_any deployment \<Rightarrow> tagged_any told list \<Rightarrow> tagged_any deployment \<Rightarrow> bool" where
  "sample_pieces \<equiv> deploy_step tagged_lib Inr db_rows"

abbreviation sample_runs :: "tagged_any told list \<Rightarrow> tagged_any deployment \<Rightarrow> bool" where
  "sample_runs \<equiv> deploy_run tagged_lib Inr db_rows deploy_init"



lemma sample_createJob: "createJob (stubs_for bld (call_CreateJob ks create)) (c, b, r) = (c, b, r)"
  by (simp add: createJob_def call_CreateJob_def CreateJob_nil_graph runner_restart_def)

lemma sample_ask:
  "get_begin tagged_lib (stubs_for bld (call_CreateJob ks create)) sample_ans (NewCacheBackend, b, r)
     (value_request ident sample_eval_request ''image.build'') =
   (Value (Inr (sample_digest, sample_action, sample_build)), (NewCacheBackend, b, r))"
proof -
  have miss: "CacheBackend_Get tagged_lib NewCacheBackend sample_action = Value (Inl (ErrText ''no cached operation''))"
    by (simp add: CacheBackend_Get_def NewCacheBackend_def)
  obtain out where ex: "fst (Execute tagged_lib (cache_execute_order sample_ans)
      (Some (ImageGraph tagged_lib))) = Value out"
    using Execute_Some [of tagged_lib "cache_execute_order sample_ans" "ImageGraph tagged_lib"] by auto
  show ?thesis
    by (simp add: get_begin_def miss_begin_def value_request_def sample_eval_request_def sample_ctx_def
        EssentialActions_def Let_def sample_createJob miss ex sample_build_def)
qed

lemma sample_registers:
  "register_build tagged_lib sample_ans sample_digest sample_action
     (Inr \<lparr>op_name = ''build1'', op_done = False, op_metadata = None, op_result = None\<rparr>)
     (NewCacheBackend, b, r) =
   (Value (Inr (reply_operation ''op1'' False (AnyGetResponse zero_get_response))), (sample_cache1, b, r))"
  by (simp add: register_build_def sample_ans_def CacheBackend_Put_def NewCacheBackend_def sample_cache1_def Let_def)

definition run_history :: "tagged_any history" where
  "run_history = \<lparr>used = {''op1''}, asked = [''eval1'' \<mapsto> sample_eval_request]\<rparr>"

definition run_row :: OperationRow where
  "run_row = \<lparr>or_EvaluationID = ''eval1'', or_DependentID = ''op1'', or_Value = ''image.build''\<rparr>"

definition run_engine :: engine_state where
  "run_engine = \<lparr>engine_trace = [CreateOperation run_row,
     CreateEvaluation \<lparr>ev_ID = ''eval1'', ev_User = ''unknown'', ev_Hostname = ''unknown''\<rparr>]\<rparr>"

abbreviation run_op :: "tagged_any operation" where
  "run_op \<equiv> reply_operation ''op1'' False (AnyGetResponse zero_get_response)"

lemma run_take:
  "eval_take tagged_lib ''image.build'' (Inr run_op) (True, Map.empty) = Value (Inr (False, [''image.build'' \<mapsto> run_op]))"
  by (simp add: eval_take_def)

lemma run_finish:
  "eval_finish tagged_lib Inr sample_engine_answers ''eval1'' sample_eval_request
     (False, [''image.build'' \<mapsto> run_op]) engine_init =
   (Value (Inr (reply_operation ''eval1'' False (AnyEvalResponse \<lparr>eresp_values = Map.empty\<rparr>))), run_engine)"
  by (simp add: eval_finish_def newEvaluation_def sample_engine_answers_def eval_reply_def Let_def
      run_engine_def run_row_def engine_init_def engine_log_def wire_eval_response_def)

text \<open>The evaluation up to its reply, which is not done.\<close>

lemma run_recorded: "\<exists>ts. sample_runs ts (run_engine, sample_w1, {#}, run_history)"
proof -
  let ?req = sample_eval_request
  let ?found = "(True, Map.empty) :: tagged_any found"
  let ?g = "Evaluating ''eval1'' ?req [''image.build''] ?found"
  let ?H = "\<lparr>used = {}, asked = [''eval1'' \<mapsto> ?req]\<rparr>"
  let ?op = "Inr \<lparr>op_name = ''build1'', op_done = False, op_metadata = None, op_result = None\<rparr>"
  let ?w = "(NewCacheBackend, sample_builder1, sample_runner) :: tagged_any backend"
  have w: "backend_init = (NewCacheBackend, builder_init, sample_runner)"
    by (simp add: backend_init_def sample_runner_def)
  have vals: "er_values ?req = [''image.build'']" by (simp add: sample_eval_request_def)
  have order: "range_order (snd (False, [''image.build'' \<mapsto> run_op])) (eng_order sample_engine_answers)"
    by (simp add: range_order_def sample_engine_answers_def)
  have "sample_pieces deploy_init [] (engine_init, backend_init, {#Ready ?g#}, ?H)"
    using e_eval [of "\<lparr>used = {}, asked = Map.empty\<rparr>" "''eval1''" tagged_lib Inr db_rows engine_init
        backend_init "{#}" ?req]
    by (simp add: deploy_init_def vals)
  note run = deploy_run_snoc [OF deploy_start this]
  note run = deploy_run_snoc [OF run [unfolded w] c_get_ask [OF refl sample_ask, where gs = "{#}"]]
  have fresh: "builder_fresh sample_y builder_init" by (simp add: builder_fresh_def builder_init_def)
  note run = deploy_run_snoc [OF run b_build [OF fresh sample_builder_call, where gs = "{#}"]]
  have drawn: "i \<notin> used ?H \<and> Inr i = (Inr i :: go_error + string)" if "cache_uuid sample_ans = Inr i" for i
    by simp
  have ids: "?H\<lparr>used := used ?H \<union> {i. cache_uuid sample_ans = Inr i}\<rparr> = run_history"
    by (simp add: run_history_def sample_ans_def)
  note run = deploy_run_snoc [OF run c_get_end [OF drawn sample_registers, where gs = "{#}"], unfolded ids]
  from run have "sample_runs [] (engine_init, sample_w1, {#Answered ?g (Inr run_op)#}, run_history)"
    by (simp add: answer_def sample_w1_def)
  note run = deploy_run_snoc [OF this e_eval_takes [OF run_take, where gs = "{#}"]]
  from deploy_next [OF run e_eval_ends [OF order run_finish, where gs = "{#}"]] show ?thesis by blast
qed

text \<open>
  The build is done, and the evaluation is polled up to its reply. A second evaluation finds the
  build in the cache.
\<close>

lemma run_rows: "db_rows (engine_trace run_engine) ''eval1'' = [run_row]"
  by (simp add: db_rows_def run_engine_def rows_of_def evaluations_of_def run_row_def)

lemma sample_image_orders: "image_orders sample_ans"
  by (auto simp: image_orders_def sample_ans_def sample_order_def Let_def)

lemma run_polled:
  obtains ts c reply seen where
    "sample_runs ts (run_engine, (c, sample_builder2, sample_runner), {#Ready (Polling ''eval1'' [] seen)#}, run_history)"
    and "eval_reply tagged_lib ''eval1'' (fst seen) (snd seen) = Value (Inr reply)" and "op_done reply"
proof -
  obtain ts where "sample_runs ts (run_engine, sample_w1, {#}, run_history)" using run_recorded by blast
  note run = this [unfolded sample_w1_def]
  have "Enqueue sample_task \<in> set (builder_trace sample_builder1)" by (simp add: sample_builder1_def)
  note run = deploy_run_snoc [OF run b_works [OF this, where wa = sample_worker], unfolded sample_process]
  let ?g = "Polling ''eval1'' [run_row] (True, Map.empty)"
  note run = deploy_run_snoc [OF run e_poll [where n = "''eval1''"], unfolded run_rows]
  have "poll_begin (fst (sample_cache1, sample_builder2, sample_runner)) (or_DependentID run_row) = Inr ''build1''"
    by (simp add: poll_begin_def sample_cache1_def run_row_def)
  note run = deploy_run_snoc [OF run c_poll_ask [OF refl this, where gs = "{#}"]]
  obtain a where a: "pack_build_response tagged_lib (built_response sample_registry sample_builder2 ''build1'') = Inr a"
    by (simp add: tagged_lib_def)
  have "buildDone sample_builder2 ''build1'' = Some True" by (simp add: sample_builder2_def)
  from builder_GetOperation_done [OF this a]
  have "builder_call_GetOperation tagged_lib sample_registry sample_builder2 ''build1'' =
    (Inr (reply_operation ''build1'' True a), sample_builder2)" .
  note run = deploy_run_snoc [OF run b_poll [OF this, where gs = "{#}"]]
  let ?resp = "image_response sample_ans (built_response sample_registry sample_builder2 ''build1'')"
  have "packs_all (pack_get_response tagged_lib)" using sample_runtime by (simp add: runtime_ok_def)
  then obtain v where v: "respond tagged_lib ''op1'' True ?resp = Value (Inr v)" "op_done v"
      "unpack_get_response tagged_lib (GetResponse v) = (?resp, None)"
    by (rule respond_total [OF tagged_lib_laws, where n = "''op1''" and d = True and resp = ?resp]) blast
  let ?c = "sample_cache1\<lparr>cb_upstream := (cb_upstream sample_cache1)(''op1'' \<mapsto> reply_operation ''build1'' True a)\<rparr>"
  have "poll_end tagged_lib sample_ans (or_DependentID run_row) (Inr (reply_operation ''build1'' True a)) sample_cache1 =
      (Value (Inr v), ?c)"
    using v(1) proto_laws_unpack(3) [OF tagged_lib_laws a] by (simp add: poll_end_def run_row_def)
  note run = deploy_run_snoc [OF run c_poll_end [OF this sample_image_orders, where gs = "{#}"]]
  from run have run: "sample_runs ts (run_engine, (?c, sample_builder2, sample_runner), {#Answered ?g (Inr v)#}, run_history)"
    by (simp add: answer_def)
  let ?seen = "(True, [''image.build'' \<mapsto> gresp_value ?resp])"
  have "poll_take tagged_lib run_row (Inr v) (True, Map.empty) = Value ?seen"
    using v by (simp add: poll_take_def run_row_def)
  note run = deploy_run_snoc [OF run e_poll_takes [OF this, where gs = "{#}"]]
  obtain a' where "eval_reply tagged_lib ''eval1'' True (snd ?seen) = Value (Inr (reply_operation ''eval1'' True a'))"
    using sample_runtime eval_reply_total unfolding runtime_ok_def by metis
  with run that show ?thesis by simp
qed


section \<open>Whatever is told is what was asked for\<close>







text \<open>
  C4. Whatever the evaluations of a run ask for, every value in every reply of the engine, to \<open>Eval\<close> or
  to \<open>GetOperation\<close>, done or not, conforms to the type it carries and is a dictionary with exactly the name, the tag and the digest of an image; or it
  is the empty value, and then the reply is one of \<open>Eval\<close>.
\<close>

theorem told_values_are_typed:
  assumes "proto_laws L"
    and "deploy_run L parse load deploy_init ts (e, (c, b, r), gs, H)"
    and "deploy_step L parse load (e, (c, b, r), gs, H) [t] D"
    and "t = EvalTold n reply \<or> t = PollTold n reply"
  shows "\<exists>resp. unpack_eval_response L (GetResponse reply) = (resp, None) \<and>
    (\<forall>v tv. eresp_values resp v = Some tv \<longrightarrow>
       t = EvalTold n reply \<and> tv = Some zero_typed_value \<or>
       (\<exists>u. tv = Some u \<and> well_typed u \<and>
          dom (dictionary_map u) = {''image_name'', ''image_tag'', ''image_digest''}))"
proof -
  have typed: "\<And>s. s \<in># gs \<Longrightarrow> stage_typed L s"
    using deploy_run_typed [OF assms(1,2)] by (simp add: deploy_typed_def)
  from assms(3) show ?thesis
  proof cases
    case (e_eval_ends found ea ident req reply' e' gs')
    then have g: "goroutine_typed L (Evaluating ident req [] found)"
      using typed [of "Ready (Evaluating ident req [] found)"] by simp
    have "eval_finish L parse ea ident req found e = (Value (Inr reply), e')" and t: "t = EvalTold n reply"
      using e_eval_ends assms(4) by auto
    from eval_told_typed [OF assms(1) g this(1)] t show ?thesis unfolding image_typed_def by auto
  next
    case (e_poll_ends n' seen reply' gs')
    then have g: "goroutine_typed L (Polling n' [] (fst seen, snd seen))"
      using typed [of "Ready (Polling n' [] seen)"] by simp
    have "eval_reply L n' (fst seen) (snd seen) = Value (Inr reply)" using e_poll_ends assms(4) by auto
    from poll_told_typed [OF assms(1) g this] show ?thesis unfolding image_typed_def by auto
  qed
qed

theorem told_values_are_typed_witness:
  "\<exists>reply resp. op_done reply \<and> unpack_eval_response tagged_lib (GetResponse reply) = (resp, None) \<and>
     (\<forall>v tv. eresp_values resp v = Some tv \<longrightarrow> (\<exists>u. tv = Some u \<and> well_typed u))"
proof -
  obtain ts c reply seen where run:
      "sample_runs ts (run_engine, (c, sample_builder2, sample_runner), {#Ready (Polling ''eval1'' [] seen)#}, run_history)"
    and reply: "eval_reply tagged_lib ''eval1'' (fst seen) (snd seen) = Value (Inr reply)" "op_done reply"
    by (rule run_polled)
  have "PollTold ''eval1'' reply \<noteq> EvalTold ''eval1'' reply" by simp
  with told_values_are_typed [OF tagged_lib_laws run
      e_poll_ends [OF reply(1), where gs = "{#}"] disjI2 [OF refl]] reply(2)
  show ?thesis by blast
qed

end
