(* ===== verification/Many_Values.thy ===== *)
theory Many_Values
  imports Told_Images Sample_Run
begin

text \<open>
  Evaluations of several values. A poll of the engine asks the cache for every row, and what it finds
  done it will find stored at the next poll, in a form the engine cannot read. So the polls of an
  evaluation end well only when all of its builds finish between the same two polls.
\<close>

text \<open>The build behind a row is marked done.\<close>

definition row_built :: "'any cache_state \<Rightarrow> builder_state \<Rightarrow> OperationRow \<Rightarrow> bool" where
  "row_built c b row \<longleftrightarrow>
     (case downstreamOperation c (or_DependentID row) of
        None \<Rightarrow> False
      | Some m \<Rightarrow> buildDone b m = Some True)"

text \<open>The cache waits for the builder for every row.\<close>

definition rows_wait :: "'any cache_state \<Rightarrow> OperationRow list \<Rightarrow> bool" where
  "rows_wait c rows \<longleftrightarrow>
     distinct (map or_DependentID rows) \<and> (\<forall>row \<in> set rows. \<exists>m. waits_for c (or_DependentID row) m)"

text \<open>One call of the cache for an operation it waits for.\<close>

lemma backend_poll_waits:
  assumes ok: "runtime_ok L" and wait: "waits_for c n m"
  obtains v opn where "backend_GetOperation L x (c, b, r) n =
      (Inr v, (c\<lparr>cb_upstream := (cb_upstream c)(n \<mapsto> opn)\<rparr>, b, r))"
    and "op_done v \<longleftrightarrow> buildDone b m = Some True" and "op_done opn \<longleftrightarrow> op_done v" and "sealed L opn"
    and "op_done v \<longrightarrow> (\<exists>resp. unpack_get_response L (GetResponse v) = (resp, None))"
proof -
  obtain reg ans where x: "x = (reg, ans)" by (rule prod.exhaust)
  show ?thesis
  proof (cases "buildDone b m = Some True")
    case True
    from ok wait True obtain v a where
        "backend_GetOperation L (reg, ans) (c, b, r) n =
          (Inr v, (c\<lparr>cb_upstream := (cb_upstream c)(n \<mapsto> reply_operation m True a)\<rparr>, b, r))"
        "op_done v"
        "unpack_get_response L (GetResponse v) = (image_response ans (built_response reg b m), None)"
        "pack_build_response L (built_response reg b m) = Inr a"
      by (rule backend_poll_done)
    with True x that [of v "reply_operation m True a"] show ?thesis by (auto simp: sealed_def)
  next
    case False
    let ?op = "\<lparr>op_name = m, op_done = False, op_metadata = None, op_result = None\<rparr>"
    have "proto_laws L" "packs_all (pack_get_response L)" using ok by (simp_all add: runtime_ok_def)
    then obtain v where v: "respond L n False (image_response ans zero_build_response) = Value (Inr v)"
        "\<not> op_done v"
      by (rule respond_total [where n = n and d = False and resp = "image_response ans zero_build_response"]) simp
    with wait have "backend_GetOperation L (reg, ans) (c, b, r) n =
        (Inr v, (c\<lparr>cb_upstream := (cb_upstream c)(n \<mapsto> ?op)\<rparr>, b, r))"
      by (simp add: backend_GetOperation_def cache_call_GetOperation_def waits_for_poll poll_downstream_def
          waits_for_def image_response_def Let_def builder_GetOperation_pending [OF False])
    with False v(2) x that [of v ?op] show ?thesis by (simp add: sealed_def)
  qed
qed

lemma rows_wait_upstream:
  "rows_wait c (row # rows) \<Longrightarrow>
     rows_wait (c\<lparr>cb_upstream := (cb_upstream c)(or_DependentID row \<mapsto> opn)\<rparr>) rows"
  unfolding rows_wait_def waits_for_def by (auto simp: image_iff)

text \<open>A row whose call is answered with something the engine can read.\<close>

lemma poll_rows_answered:
  assumes "cacheOp i w (or_DependentID row) = (Inr v, w1)"
    and "op_done v \<longrightarrow> (\<exists>resp. unpack_get_response L (GetResponse v) = (resp, None))"
  obtains res1 where "dom res1 = dom res \<union> (if op_done v then {or_Value row} else {})"
    "\<And>rows. poll_rows L cacheOp i (row # rows) d res w = poll_rows L cacheOp (Suc i) rows (d \<and> op_done v) res1 w1"
proof (cases "op_done v")
  case True
  with assms(2) obtain resp where "unpack_get_response L (GetResponse v) = (resp, None)" by blast
  with True assms(1) that [of "res(or_Value row \<mapsto> gresp_value resp)"] show ?thesis by simp
next
  case False
  with assms(1) that [of res] show ?thesis by simp
qed

text \<open>The loop over the rows of an evaluation that waits.\<close>

lemma poll_rows_waiting:
  assumes ok: "runtime_ok L" and "rows_wait c rows"
  shows "\<exists>d' res' c'. poll_rows L (\<lambda>i. backend_GetOperation L (xs i)) i rows d res (c, b, r) =
      (Value (d', res'), (c', b, r)) \<and>
    (d' \<longleftrightarrow> d \<and> (\<forall>row \<in> set rows. row_built c b row)) \<and>
    dom res' = dom res \<union> or_Value ` {row \<in> set rows. row_built c b row} \<and>
    downstreamOperation c' = downstreamOperation c \<and>
    (\<forall>n. n \<notin> or_DependentID ` set rows \<longrightarrow> cb_upstream c' n = cb_upstream c n) \<and>
    (\<forall>row \<in> set rows. \<exists>opn. cb_upstream c' (or_DependentID row) = Some opn \<and>
       (op_done opn \<longleftrightarrow> row_built c b row) \<and> sealed L opn)"
  using assms(2)
proof (induction rows arbitrary: i d res c)
  case Nil
  then show ?case by simp
next
  case (Cons row rows)
  let ?n = "or_DependentID row"
  from Cons.prems obtain m where m: "waits_for c ?n m" by (auto simp: rows_wait_def)
  then have built: "row_built c b row \<longleftrightarrow> buildDone b m = Some True"
    by (simp add: row_built_def waits_for_def)
  from ok m obtain v opn where
      get: "backend_GetOperation L (xs i) (c, b, r) ?n = (Inr v, (c\<lparr>cb_upstream := (cb_upstream c)(?n \<mapsto> opn)\<rparr>, b, r))"
        "op_done v \<longleftrightarrow> buildDone b m = Some True" "op_done opn \<longleftrightarrow> op_done v" "sealed L opn"
        "op_done v \<longrightarrow> (\<exists>resp. unpack_get_response L (GetResponse v) = (resp, None))"
    by (rule backend_poll_waits [where x = "xs i" and b = b and r = r])
  let ?c = "c\<lparr>cb_upstream := (cb_upstream c)(?n \<mapsto> opn)\<rparr>"
  have same: "row_built ?c b = row_built c b" by (intro ext) (simp add: row_built_def)
  have notin: "?n \<notin> or_DependentID ` set rows" using Cons.prems by (simp add: rows_wait_def)
  obtain res1 where res1: "dom res1 = dom res \<union> (if op_done v then {or_Value row} else {})"
    and rest: "\<And>rows. poll_rows L (\<lambda>i. backend_GetOperation L (xs i)) i (row # rows) d res (c, b, r) =
      poll_rows L (\<lambda>i. backend_GetOperation L (xs i)) (Suc i) rows (d \<and> op_done v) res1 (?c, b, r)"
    by (rule poll_rows_answered [where L = L and res = res and d = d and
          cacheOp = "\<lambda>i. backend_GetOperation L (xs i)", OF get(1,5)]) blast
  from Cons.IH [OF rows_wait_upstream [OF Cons.prems, of opn], of "Suc i" "d \<and> op_done v" res1]
  obtain d' res' c' where
      IH: "poll_rows L (\<lambda>i. backend_GetOperation L (xs i)) (Suc i) rows (d \<and> op_done v) res1 (?c, b, r) =
        (Value (d', res'), (c', b, r))"
      "d' \<longleftrightarrow> (d \<and> op_done v) \<and> (\<forall>row \<in> set rows. row_built c b row)"
      "dom res' = dom res1 \<union> or_Value ` {row \<in> set rows. row_built c b row}"
      "downstreamOperation c' = downstreamOperation c"
      "\<forall>n. n \<notin> or_DependentID ` set rows \<longrightarrow> cb_upstream c' n = cb_upstream ?c n"
      "\<forall>row \<in> set rows. \<exists>opn. cb_upstream c' (or_DependentID row) = Some opn \<and>
        (op_done opn \<longleftrightarrow> row_built c b row) \<and> sealed L opn"
    unfolding same by auto
  have "cb_upstream c' ?n = Some opn" using IH(5) notin by simp
  with get(2-4) built IH(6) have "\<forall>row' \<in> set (row # rows). \<exists>opn. cb_upstream c' (or_DependentID row') = Some opn \<and>
      (op_done opn \<longleftrightarrow> row_built c b row') \<and> sealed L opn" by auto
  moreover have "\<forall>n. n \<notin> or_DependentID ` set (row # rows) \<longrightarrow> cb_upstream c' n = cb_upstream c n"
    using IH(5) by auto
  moreover have "d' \<longleftrightarrow> d \<and> (\<forall>row' \<in> set (row # rows). row_built c b row')" using IH(2) get(2) built by auto
  moreover have "dom res' = dom res \<union> or_Value ` {row' \<in> set (row # rows). row_built c b row'}"
    unfolding IH(3) res1 using get(2) built by auto
  ultimately show ?case using rest IH(1,4) by simp
qed

text \<open>A later poll meets a stored final result, whatever the builder has done since.\<close>

lemma poll_rows_stored:
  assumes ok: "runtime_ok L"
    and known: "\<forall>row \<in> set rows. \<exists>m. downstreamOperation c (or_DependentID row) = Some m"
    and stored: "\<forall>row \<in> set rows. \<forall>opn. cb_upstream c (or_DependentID row) = Some opn \<longrightarrow> sealed L opn"
    and row: "row \<in> set rows" "cb_upstream c (or_DependentID row) = Some opn" "op_done opn"
    and dist: "distinct (map or_DependentID rows)"
  shows "\<exists>c'. poll_rows L (\<lambda>i. backend_GetOperation L (xs i)) i rows d res (c, b, r) =
    (Exited ''Cannot unmarhshal result'', (c', b, r))"
  using known stored row dist
proof (induction rows arbitrary: i d res c)
  case (Cons row1 rows)
  have laws: "proto_laws L" using ok by (simp add: runtime_ok_def)
  let ?n = "or_DependentID row1"
  obtain reg ans where x: "xs i = (reg, ans)" by (rule prod.exhaust)
  show ?case
  proof (cases "\<exists>last. cb_upstream c ?n = Some last \<and> op_done last")
    case True
    then obtain last where last: "cb_upstream c ?n = Some last" "op_done last" by blast
    with Cons.prems(2) have "sealed L last" by simp
    from sealed_not_get [OF laws this last(2)] obtain resp err where
        "unpack_get_response L (GetResponse last) = (resp, Some err)" by (metis not_None_eq prod.collapse)
    with last show ?thesis
      by (simp add: backend_GetOperation_def cache_call_GetOperation_def cache_GetOperation_def x)
  next
    case False
    from Cons.prems(1) obtain m where "downstreamOperation c ?n = Some m" by auto
    with False have "waits_for c ?n m" by (auto simp: waits_for_def split: option.splits)
    with ok obtain v opn1 where
        get: "backend_GetOperation L (xs i) (c, b, r) ?n = (Inr v, (c\<lparr>cb_upstream := (cb_upstream c)(?n \<mapsto> opn1)\<rparr>, b, r))"
          "op_done v \<longleftrightarrow> buildDone b m = Some True" "op_done opn1 \<longleftrightarrow> op_done v"
          "sealed L opn1" "op_done v \<longrightarrow> (\<exists>resp. unpack_get_response L (GetResponse v) = (resp, None))"
      by (rule backend_poll_waits [where x = "xs i" and b = b and r = r])
    let ?c = "c\<lparr>cb_upstream := (cb_upstream c)(?n \<mapsto> opn1)\<rparr>"
    from False Cons.prems(3-5) have row: "row \<in> set rows" by auto
    have other: "or_DependentID row' \<noteq> ?n" if "row' \<in> set rows" for row'
      using that Cons.prems(6) by (metis distinct.simps(2) imageI list.simps(9) set_map)
    then have same: "cb_upstream ?c (or_DependentID row') = cb_upstream c (or_DependentID row')"
      if "row' \<in> set rows" for row' using that by simp
    have "\<exists>c'. poll_rows L (\<lambda>i. backend_GetOperation L (xs i)) (Suc i) rows d' res' (?c, b, r) =
        (Exited ''Cannot unmarhshal result'', (c', b, r))" for d' res'
      using Cons.prems(1,2,5,6) same row Cons.prems(4) by (intro Cons.IH) (auto simp del: fun_upd_apply)
    moreover obtain res1 where "\<And>rows. poll_rows L (\<lambda>i. backend_GetOperation L (xs i)) i (row1 # rows) d res (c, b, r) =
      poll_rows L (\<lambda>i. backend_GetOperation L (xs i)) (Suc i) rows (d \<and> op_done v) res1 (?c, b, r)"
      by (rule poll_rows_answered [where L = L and res = res and d = d and
            cacheOp = "\<lambda>i. backend_GetOperation L (xs i)", OF get(1,5)]) blast
    ultimately show ?thesis by metis
  qed
qed simp

section \<open>A poll of the engine\<close>

lemma dom_wire_eval [simp]: "dom (eresp_values (wire_eval_response v)) = dom (eresp_values v)"
  by (auto simp: wire_eval_response_def dom_def split: option.splits)

lemma engine_poll_rows:
  assumes ok: "runtime_ok L" and rows: "load (engine_trace e) n = rows" and wait: "rows_wait c rows"
  obtains v c' where "engine_poll L load env (e, c, b, r) n = (Inr v, (e, c', b, r))"
    and "op_name v = n" and "op_done v \<longleftrightarrow> (\<forall>row \<in> set rows. row_built c b row)"
    and "\<exists>resp. unpack_eval_response L (GetResponse v) = (resp, None) \<and>
      dom (eresp_values resp) = or_Value ` {row \<in> set rows. row_built c b row}"
    and "downstreamOperation c' = downstreamOperation c"
    and "\<forall>row \<in> set rows. \<exists>opn. cb_upstream c' (or_DependentID row) = Some opn \<and>
      (op_done opn \<longleftrightarrow> row_built c b row) \<and> sealed L opn"
proof -
  let ?x = "env (e, c, b, r)"
  from poll_rows_waiting [OF ok wait, of ?x 0 True Map.empty b r] obtain d res c' where
      p: "poll_rows L (\<lambda>i. backend_GetOperation L (?x i)) 0 rows True Map.empty (c, b, r) = (Value (d, res), (c', b, r))"
      "d \<longleftrightarrow> (\<forall>row \<in> set rows. row_built c b row)"
      "dom res = or_Value ` {row \<in> set rows. row_built c b row}"
      "downstreamOperation c' = downstreamOperation c"
      "\<forall>row \<in> set rows. \<exists>opn. cb_upstream c' (or_DependentID row) = Some opn \<and>
        (op_done opn \<longleftrightarrow> row_built c b row) \<and> sealed L opn"
    by auto
  obtain a where a: "eval_reply L n d res = Value (Inr (reply_operation n d a))"
      "pack_eval_response L \<lparr>eresp_values = res\<rparr> = Inr a"
    using ok by (metis runtime_ok_def eval_reply_total)
  have "unpack_eval_response L (Some a) = (wire_eval_response \<lparr>eresp_values = res\<rparr>, None)"
    using ok a(2) by (simp add: runtime_ok_def proto_laws_unpack(5))
  moreover have "dom (eresp_values (wire_eval_response \<lparr>eresp_values = res\<rparr>)) = dom res" by simp
  moreover have "engine_poll L load env (e, c, b, r) n = (Inr (reply_operation n d a), (e, c', b, r))"
    using rows p(1) a(1) by (simp add: engine_poll_def engine_call_GetOperation_def engine_GetOperation_def)
  ultimately show ?thesis
    using p(2-5) that [of "reply_operation n d a" c'] by simp
qed

text \<open>After a poll that found a build done, and not all of them, the next one ends the process.\<close>

lemma engine_poll_stored:
  assumes ok: "runtime_ok L" and rows: "load (engine_trace e) n = rows" and wait: "rows_wait c rows"
    and same: "downstreamOperation c' = downstreamOperation c"
    and stored: "\<forall>row \<in> set rows. \<exists>opn. cb_upstream c' (or_DependentID row) = Some opn \<and>
      (op_done opn \<longleftrightarrow> row_built c b row) \<and> sealed L opn"
    and row: "row \<in> set rows" "row_built c b row"
  shows "\<exists>w1. engine_poll L load env (e, c', b', r') n = (Inl ErrUnavailable, w1)"
proof -
  let ?x = "env (e, c', b', r')"
  from stored row obtain opn where opn: "cb_upstream c' (or_DependentID row) = Some opn" "op_done opn" by blast
  have known: "\<forall>row \<in> set rows. \<exists>m. downstreamOperation c' (or_DependentID row) = Some m"
    using wait same by (auto simp: rows_wait_def waits_for_def)
  have seal: "\<forall>row \<in> set rows. \<forall>opn. cb_upstream c' (or_DependentID row) = Some opn \<longrightarrow> sealed L opn"
    using stored by fastforce
  have dist: "distinct (map or_DependentID rows)" using wait by (simp add: rows_wait_def)
  from poll_rows_stored [OF ok known seal row(1) opn dist, of ?x 0 True Map.empty b' r'] obtain c2 where
      "poll_rows L (\<lambda>i. backend_GetOperation L (?x i)) 0 rows True Map.empty (c', b', r') =
        (Exited ''Cannot unmarhshal result'', (c2, b', r'))" by blast
  then have "engine_poll L load env (e, c', b', r') n = (Inl ErrUnavailable, engine_restart (e, c2, b', r'))"
    using rows by (simp add: engine_poll_def engine_call_GetOperation_def engine_GetOperation_def rpc_def)
  then show ?thesis by blast
qed

section \<open>Waiting for several builds\<close>

text \<open>The loop of the client, when a poll fails after some that were not done.\<close>

lemma await_fails:
  assumes "op_name opn = n" and "\<not> op_done opn"
    and "\<And>j. j < k \<Longrightarrow> \<exists>v w'. get (poll_world get sleep n j w) n = (Inr v, w') \<and> op_name v = n \<and> \<not> op_done v"
    and "get (poll_world get sleep n k w) n = (Inl err, w1)"
  shows "await get sleep opn w = Some (Panicked nil_dereference, sleep w1)"
  using assms
proof (induction k arbitrary: opn w)
  case 0
  then show ?case by (simp add: await_pending)
next
  case (Suc k)
  from Suc.prems(3) [of 0] obtain v w' where g: "get w n = (Inr v, w')" "op_name v = n" "\<not> op_done v"
    by auto
  have "await get sleep v (sleep w') = Some (Panicked nil_dereference, sleep w1)"
  proof (rule Suc.IH [OF g(2,3)])
    show "get (poll_world get sleep n k (sleep w')) n = (Inl err, w1)"
      using Suc.prems(4) g by (simp add: poll_world_Suc)
    fix j assume "j < k"
    with Suc.prems(3) [of "Suc j"] g show "\<exists>r1 w1.
        get (poll_world get sleep n j (sleep w')) n = (Inr r1, w1) \<and> op_name r1 = n \<and> \<not> op_done r1"
      by (simp add: poll_world_Suc)
  qed
  with Suc.prems(1,2) g show ?case by (simp add: await_pending)
qed

text \<open>Until a build is done, every poll finds the cache waiting.\<close>

lemma polls_wait_rows:
  assumes ok: "runtime_ok L" and rows: "load (engine_trace e) n = rows" and idle: "idle sleep"
    and "rows_wait c rows" and "rows \<noteq> []"
    and "\<And>i row. i < j \<Longrightarrow> row \<in> set rows \<Longrightarrow>
      \<not> row_built c (builder_of (poll_world (engine_poll L load env) sleep n i (e, c, b, r))) row"
  shows "\<exists>c' b' r'. poll_world (engine_poll L load env) sleep n j (e, c, b, r) = (e, c', b', r') \<and>
    rows_wait c' rows \<and> downstreamOperation c' = downstreamOperation c"
  using assms(6)
proof (induction j)
  case 0
  with assms(4) show ?case by simp
next
  case (Suc j)
  let ?get = "engine_poll L load env"
  from Suc obtain c1 b1 r1 where
      w1: "poll_world ?get sleep n j (e, c, b, r) = (e, c1, b1, r1)" "rows_wait c1 rows"
        "downstreamOperation c1 = downstreamOperation c"
    by (meson less_SucI)
  have none: "\<not> row_built c1 b1 row" if "row \<in> set rows" for row
    using Suc.prems [of j row] that w1(1,3) by (simp add: row_built_def)
  from ok rows w1(2) obtain v c2 where p: "?get (e, c1, b1, r1) n = (Inr v, (e, c2, b1, r1))"
      "downstreamOperation c2 = downstreamOperation c1"
      "\<forall>row \<in> set rows. \<exists>opn. cb_upstream c2 (or_DependentID row) = Some opn \<and>
        (op_done opn \<longleftrightarrow> row_built c1 b1 row) \<and> sealed L opn"
    by (rule engine_poll_rows)
  have "rows_wait c2 rows"
    using w1(2) p(2,3) none by (fastforce simp: rows_wait_def waits_for_def)
  moreover obtain b2 r2 where "sleep (e, c2, b1, r1) = (e, c2, b2, r2)"
    using idle unfolding idle_def by metis
  ultimately show ?case using w1(1,3) p(1,2) by (simp add: poll_world_step)
qed

text \<open>The rows whose builds are done in a state of the services, by what the cache knew at the start.\<close>

definition rows_done :: "'any cache_state \<Rightarrow> OperationRow list \<Rightarrow> 'any deployed \<Rightarrow> OperationRow set" where
  "rows_done c rows w = {row \<in> set rows. row_built c (builder_of w) row}"

text \<open>A poll up to which no build was done.\<close>

lemma poll_first_done:
  assumes ok: "runtime_ok L" and rows: "load (engine_trace e) n = rows" and idle: "idle sleep"
    and wait: "rows_wait c rows" and nonempty: "rows \<noteq> []"
    and before: "\<And>i. i < j \<Longrightarrow> rows_done c rows (poll_world (engine_poll L load env) sleep n i (e, c, b, r)) = {}"
  obtains c' b' r' v c2 resp where "poll_world (engine_poll L load env) sleep n j (e, c, b, r) = (e, c', b', r')"
    and "rows_wait c' rows" and "engine_poll L load env (e, c', b', r') n = (Inr v, (e, c2, b', r'))"
    and "op_name v = n"
    and "op_done v \<longleftrightarrow> rows_done c rows (poll_world (engine_poll L load env) sleep n j (e, c, b, r)) = set rows"
    and "unpack_eval_response L (GetResponse v) = (resp, None)"
    and "dom (eresp_values resp) =
      or_Value ` rows_done c rows (poll_world (engine_poll L load env) sleep n j (e, c, b, r))"
    and "downstreamOperation c2 = downstreamOperation c'"
    and "rows_done c rows (poll_world (engine_poll L load env) sleep n j (e, c, b, r)) =
      {row \<in> set rows. row_built c' b' row}"
    and "\<forall>row \<in> set rows. \<exists>opn. cb_upstream c2 (or_DependentID row) = Some opn \<and>
      (op_done opn \<longleftrightarrow> row_built c' b' row) \<and> sealed L opn"
proof -
  let ?W = "poll_world (engine_poll L load env) sleep n j (e, c, b, r)"
  have "\<exists>c' b' r'. ?W = (e, c', b', r') \<and> rows_wait c' rows \<and> downstreamOperation c' = downstreamOperation c"
  proof (rule polls_wait_rows [where load = load, OF ok rows idle wait nonempty])
    fix i row assume "i < j" "row \<in> set rows"
    with before [of i] show "\<not> row_built c (builder_of (poll_world (engine_poll L load env) sleep n i (e, c, b, r))) row"
      by (auto simp: rows_done_def)
  qed
  then obtain c' b' r' where w1: "?W = (e, c', b', r')" "rows_wait c' rows"
      "downstreamOperation c' = downstreamOperation c" by blast
  then have set: "rows_done c rows ?W = {row \<in> set rows. row_built c' b' row}"
    by (auto simp: rows_done_def row_built_def)
  from ok rows w1(2) obtain v c2 where p: "engine_poll L load env (e, c', b', r') n = (Inr v, (e, c2, b', r'))"
      "op_name v = n" "op_done v \<longleftrightarrow> (\<forall>row \<in> set rows. row_built c' b' row)"
      "\<exists>resp. unpack_eval_response L (GetResponse v) = (resp, None) \<and>
        dom (eresp_values resp) = or_Value ` {row \<in> set rows. row_built c' b' row}"
      "downstreamOperation c2 = downstreamOperation c'"
      "\<forall>row \<in> set rows. \<exists>opn. cb_upstream c2 (or_DependentID row) = Some opn \<and>
        (op_done opn \<longleftrightarrow> row_built c' b' row) \<and> sealed L opn"
    by (rule engine_poll_rows)
  from p(4) obtain resp where resp: "unpack_eval_response L (GetResponse v) = (resp, None)"
      "dom (eresp_values resp) = or_Value ` {row \<in> set rows. row_built c' b' row}" by blast
  have "op_done v \<longleftrightarrow> rows_done c rows ?W = set rows" using p(3) set by auto
  with that [OF w1(1,2) p(1,2) _ resp(1) _ p(5) set p(6)] resp(2) set show ?thesis by simp
qed

lemma poll_before_done:
  assumes ok: "runtime_ok L" and rows: "load (engine_trace e) n = rows" and idle: "idle sleep"
    and wait: "rows_wait c rows" and nonempty: "rows \<noteq> []"
    and before: "\<And>i. i \<le> j \<Longrightarrow> rows_done c rows (poll_world (engine_poll L load env) sleep n i (e, c, b, r)) = {}"
  shows "\<exists>v w'. engine_poll L load env (poll_world (engine_poll L load env) sleep n j (e, c, b, r)) n = (Inr v, w') \<and>
    op_name v = n \<and> \<not> op_done v"
proof -
  let ?W = "poll_world (engine_poll L load env) sleep n j (e, c, b, r)"
  have none: "rows_done c rows (poll_world (engine_poll L load env) sleep n i (e, c, b, r)) = {}" if "i < j" for i
    using before that by simp
  obtain c' b' r' v c2 where "?W = (e, c', b', r')"
      "engine_poll L load env (e, c', b', r') n = (Inr v, (e, c2, b', r'))" "op_name v = n"
      "op_done v \<longleftrightarrow> rows_done c rows ?W = set rows"
    by (rule poll_first_done [where load = load, OF ok rows idle wait nonempty none])
  with before [of j] nonempty show ?thesis by simp
qed

text \<open>The first poll that finds builds done finds them all: the loop returns.\<close>

lemma await_all_done:
  assumes ok: "runtime_ok L" and rows: "load (engine_trace e) n = rows" and idle: "idle sleep"
    and wait: "rows_wait c rows" and nonempty: "rows \<noteq> []" and opn: "op_name opn = n" "\<not> op_done opn"
    and before: "\<And>j. j < K \<Longrightarrow> rows_done c rows (poll_world (engine_poll L load env) sleep n j (e, c, b, r)) = {}"
    and all: "rows_done c rows (poll_world (engine_poll L load env) sleep n K (e, c, b, r)) = set rows"
  shows "\<exists>v w' resp. await (engine_poll L load env) sleep opn (e, c, b, r) = Some (Value v, w') \<and>
      op_done v \<and> unpack_eval_response L (GetResponse v) = (resp, None) \<and>
      dom (eresp_values resp) = or_Value ` set rows"
proof -
  let ?get = "engine_poll L load env"
  let ?W = "\<lambda>j. poll_world ?get sleep n j (e, c, b, r)"
  have pending: "\<exists>v w'. ?get (?W j) n = (Inr v, w') \<and> op_name v = n \<and> \<not> op_done v" if "j < K" for j
    using that before by (intro poll_before_done [where load = load, OF ok rows idle wait nonempty]) simp
  obtain c' b' r' v c2 resp where WK: "?W K = (e, c', b', r')" "?get (e, c', b', r') n = (Inr v, (e, c2, b', r'))"
      "op_done v \<longleftrightarrow> rows_done c rows (?W K) = set rows" "unpack_eval_response L (GetResponse v) = (resp, None)"
      "dom (eresp_values resp) = or_Value ` rows_done c rows (?W K)"
    by (rule poll_first_done [where load = load, OF ok rows idle wait nonempty before])
  have "await ?get sleep opn (e, c, b, r) = Some (Value v, sleep (e, c2, b', r'))"
  proof (rule await_returns [where k = K, OF opn])
    show "\<exists>v w'. ?get (?W j) n = (Inr v, w') \<and> op_name v = n \<and> \<not> op_done v" if "j < K" for j
      using that by (rule pending)
    show "?get (?W K) n = (Inr v, e, c2, b', r')" unfolding WK(1) by (rule WK(2))
  qed (use all WK(3) in auto)
  moreover have "op_done v" "dom (eresp_values resp) = or_Value ` set rows" using all WK(3,5) by simp_all
  ultimately show ?thesis using WK(4) by blast
qed

text \<open>It finds some of them done: the next poll fails and the loop panics.\<close>

lemma await_some_done:
  assumes ok: "runtime_ok L" and rows: "load (engine_trace e) n = rows" and idle: "idle sleep"
    and wait: "rows_wait c rows" and opn: "op_name opn = n" "\<not> op_done opn"
    and before: "\<And>j. j < K \<Longrightarrow> rows_done c rows (poll_world (engine_poll L load env) sleep n j (e, c, b, r)) = {}"
    and some: "rows_done c rows (poll_world (engine_poll L load env) sleep n K (e, c, b, r)) \<notin> {{}, set rows}"
  shows "\<exists>w'. await (engine_poll L load env) sleep opn (e, c, b, r) = Some (Panicked nil_dereference, w')"
proof -
  let ?get = "engine_poll L load env"
  let ?W = "\<lambda>j. poll_world ?get sleep n j (e, c, b, r)"
  have nonempty: "rows \<noteq> []" using some by (auto simp: rows_done_def)
  obtain c' b' r' v c2 where WK: "?W K = (e, c', b', r')" "rows_wait c' rows"
      "?get (e, c', b', r') n = (Inr v, (e, c2, b', r'))" "op_name v = n"
      "op_done v \<longleftrightarrow> rows_done c rows (?W K) = set rows" "downstreamOperation c2 = downstreamOperation c'"
      "rows_done c rows (?W K) = {row \<in> set rows. row_built c' b' row}"
      "\<forall>row \<in> set rows. \<exists>opn. cb_upstream c2 (or_DependentID row) = Some opn \<and>
        (op_done opn \<longleftrightarrow> row_built c' b' row) \<and> sealed L opn"
    by (rule poll_first_done [where load = load, OF ok rows idle wait nonempty before])
  obtain b2 r2 where sl: "sleep (e, c2, b', r') = (e, c2, b2, r2)" using idle unfolding idle_def by metis
  have W1: "?W (Suc K) = (e, c2, b2, r2)" using WK(1,3) sl by (simp add: poll_world_step)
  from some WK(7) obtain row where row: "row \<in> set rows" "row_built c' b' row" by auto
  from engine_poll_stored [where load = load and env = env and b' = b2 and r' = r2,
      OF ok rows WK(2,6,8) row] obtain w1 where
      stored: "?get (e, c2, b2, r2) n = (Inl ErrUnavailable, w1)" by blast
  have "\<exists>v w'. ?get (?W j) n = (Inr v, w') \<and> op_name v = n \<and> \<not> op_done v" if "j < Suc K" for j
  proof (cases "j = K")
    case True
    with WK(1,3-5) some show ?thesis by auto
  next
    case False
    with that before show ?thesis
      by (intro poll_before_done [where load = load, OF ok rows idle wait nonempty]) simp
  qed
  then have "await ?get sleep opn (e, c, b, r) = Some (Panicked nil_dereference, sleep w1)"
  proof (rule await_fails [OF opn])
    show "?get (?W (Suc K)) n = (Inl ErrUnavailable, w1)" unfolding W1 by (rule stored)
  qed
  then show ?thesis by blast
qed

text \<open>
  C10. Waiting for an evaluation of several values ends well only by luck: the loop of the client returns
  a reply, done and with every requested value, exactly when all of the builds were still running at
  one poll and all done at the next. In every other case in which a build is done at some poll, the
  poll that finds the first ones done is answered "not yet", the poll after it ends the engine's process
  whatever the builder has done since, and the client panics.
\<close>

theorem several_builds_end_together:
  assumes "runtime_ok L" and "load (engine_trace e) n = rows" and "idle sleep"
    and "rows_wait c rows" and "op_name opn = n" and "\<not> op_done opn"
    and W: "W = (\<lambda>j. rows_done c rows (poll_world (engine_poll L load env) sleep n j (e, c, b, r)))"
    and some: "W k \<noteq> {}"
  shows "if \<exists>K. (\<forall>j. j < K \<longrightarrow> W j = {}) \<and> W K = set rows
    then \<exists>v w' resp. await (engine_poll L load env) sleep opn (e, c, b, r) = Some (Value v, w') \<and>
      op_done v \<and> unpack_eval_response L (GetResponse v) = (resp, None) \<and>
      dom (eresp_values resp) = or_Value ` set rows
    else \<exists>w'. await (engine_poll L load env) sleep opn (e, c, b, r) = Some (Panicked nil_dereference, w')"
proof (cases "\<exists>K. (\<forall>j. j < K \<longrightarrow> W j = {}) \<and> W K = set rows")
  case True
  then obtain K where K: "\<And>j. j < K \<Longrightarrow> W j = {}" "W K = set rows" by blast
  have "rows \<noteq> []" using some W by (auto simp: rows_done_def)
  then have "\<exists>v w' resp. await (engine_poll L load env) sleep opn (e, c, b, r) = Some (Value v, w') \<and>
      op_done v \<and> unpack_eval_response L (GetResponse v) = (resp, None) \<and>
      dom (eresp_values resp) = or_Value ` set rows"
    using K unfolding W by (intro await_all_done [where load = load and K = K, OF assms(1-4) _ assms(5,6)]) simp_all
  with True show ?thesis by (simp only: if_True)
next
  case False
  define K where "K = (LEAST j. W j \<noteq> {})"
  have K: "W K \<noteq> {}" unfolding K_def by (rule LeastI [of _ k]) (rule some)
  have before: "W j = {}" if "j < K" for j using that not_less_Least unfolding K_def by blast
  with K False have "W K \<notin> {{}, set rows}" by blast
  with before have "\<exists>w'. await (engine_poll L load env) sleep opn (e, c, b, r) = Some (Panicked nil_dereference, w')"
    unfolding W by (intro await_some_done [where load = load and K = K, OF assms(1-6)]) auto
  with False show ?thesis by (simp only: if_False)
qed

text \<open>Two builds, of which the first is done at the second poll and the other one is not.\<close>

definition two_rows :: "OperationRow list" where
  "two_rows =
     [\<lparr>or_EvaluationID = ''eval1'', or_DependentID = ''op1'', or_Value = ''image.build''\<rparr>,
      \<lparr>or_EvaluationID = ''eval1'', or_DependentID = ''op2'', or_Value = ''other.build''\<rparr>]"

definition two_cache :: "tagged_any cache_state" where
  "two_cache = \<lparr>cb_data = Map.empty, cb_upstream = Map.empty,
     downstreamOperation = [''op1'' \<mapsto> ''build1'', ''op2'' \<mapsto> ''build2'']\<rparr>"

definition two_sleep :: "tagged_any deployed \<Rightarrow> tagged_any deployed" where
  "two_sleep = sleeping (\<lambda>b. b\<lparr>buildDone := (buildDone b)(''build1'' \<mapsto> True)\<rparr>)"

definition two_reply :: "tagged_any operation" where
  "two_reply = reply_operation ''eval1'' False (AnyEvalResponse zero_eval_response)"

abbreviation two_start :: "tagged_any deployed" where
  "two_start \<equiv> (\<lparr>engine_trace = []\<rparr>, two_cache, sample_builder1, sample_runner)"

lemma two_wait: "rows_wait two_cache two_rows"
  by (simp add: rows_wait_def two_rows_def waits_for_def two_cache_def)

lemma two_idle: "idle two_sleep"
  unfolding two_sleep_def by (rule idle_sleeping)

lemma two_first_poll:
  "\<exists>c'. poll_world (engine_poll tagged_lib (\<lambda>_ _. two_rows) sample_env) two_sleep ''eval1'' 1 two_start =
    (\<lparr>engine_trace = []\<rparr>, c', sample_builder1\<lparr>buildDone := [''build1'' \<mapsto> True]\<rparr>, sample_runner)"
proof -
  obtain v c' where "engine_poll tagged_lib (\<lambda>_ _. two_rows) sample_env two_start ''eval1'' =
      (Inr v, (\<lparr>engine_trace = []\<rparr>, c', sample_builder1, sample_runner))"
    by (rule engine_poll_rows [where load = "\<lambda>_ _. two_rows", OF sample_runtime refl two_wait])
  then show ?thesis by (simp add: poll_world_def two_sleep_def sample_builder1_def)
qed

theorem several_builds_end_together_witness:
  "\<exists>w'. await (engine_poll tagged_lib (\<lambda>_ _. two_rows) sample_env) two_sleep two_reply two_start =
    Some (Panicked nil_dereference, w')"
proof -
  define W where "W = (\<lambda>j. rows_done two_cache two_rows
    (poll_world (engine_poll tagged_lib (\<lambda>_ _. two_rows) sample_env) two_sleep ''eval1'' j two_start))"
  have first: "W 1 = {two_rows ! 0}"
    unfolding W_def using two_first_poll
    by (auto simp: rows_done_def row_built_def two_rows_def two_cache_def)
  have start: "W 0 = {}"
    by (auto simp: W_def rows_done_def row_built_def two_rows_def two_cache_def sample_builder1_def)
  have both: "set two_rows \<noteq> {}" "set two_rows \<noteq> {two_rows ! 0}" by (auto simp: two_rows_def)
  have never: "\<not> (\<exists>K. (\<forall>j. j < K \<longrightarrow> W j = {}) \<and> W K = set two_rows)"
  proof
    assume "\<exists>K. (\<forall>j. j < K \<longrightarrow> W j = {}) \<and> W K = set two_rows"
    then obtain K where "\<forall>j. j < K \<longrightarrow> W j = {}" "W K = set two_rows" by blast
    with first start both show False by (metis insert_not_empty less_one linorder_neqE_nat)
  qed
  have "op_name two_reply = ''eval1''" "\<not> op_done two_reply" "W 1 \<noteq> {}"
    using first by (simp_all add: two_reply_def)
  from several_builds_end_together [where load = "\<lambda>_ _. two_rows",
      OF sample_runtime refl two_idle two_wait this(1,2) W_def this(3)] never
  show ?thesis by (simp only: if_False)
qed

end
