(* ===== verification/Http_Mux.thy ===== *)
theory Http_Mux
  imports Go_Prelude
begin

text \<open>
  \<open>http.ServeMux\<close> of Go's standard library, as far as the two pages need it: which handler a request for
  a path gets, except for CONNECT and for \<open>OPTIONS *\<close>, which has no path. A path with empty, \<open>.\<close> or \<open>..\<close>
  elements is not handled but redirected to its clean form. A pattern that ends in a slash stands for
  all paths below it, any other for itself, and the longest pattern decides. (The only pattern with a
  slash at its end is the root, so the redirect to a missing slash does not come up.)
\<close>

fun clean_elements :: "string list \<Rightarrow> string list \<Rightarrow> string list" where
  "clean_elements out [] = rev out"
| "clean_elements out (e # es) =
     (if e = [] \<or> e = ''.'' then clean_elements out es
      else if e = ''..'' then clean_elements (tl out) es
      else clean_elements (e # out) es)"

text \<open>\<open>path.Clean\<close> of a rooted path, with a slash at the end if there was one.\<close>

definition clean_path :: "string \<Rightarrow> string" where
  "clean_path p =
     (let p = (if take 1 p = ''/'' then p else ''/'' @ p);
          es = clean_elements [] (split_on CHR ''/'' p)
      in if es = [] then ''/''
         else ''/'' @ join_with ''/'' es @ (if last p = CHR ''/'' then ''/'' else []))"

datatype 'h mux_reply = Handled 'h | Redirected string | NotFound

definition pattern_matches :: "string \<Rightarrow> string \<Rightarrow> bool" where
  "pattern_matches p path = (if last p = CHR ''/'' then take (length p) path = p else path = p)"

fun longest_match :: "string \<Rightarrow> (string \<times> 'h) list \<Rightarrow> (string \<times> 'h) option" where
  "longest_match path [] = None"
| "longest_match path ((p, h) # routes) =
     (case longest_match path routes of
        None \<Rightarrow> (if pattern_matches p path then Some (p, h) else None)
      | Some (q, h') \<Rightarrow>
          (if pattern_matches p path \<and> length q \<le> length p then Some (p, h) else Some (q, h')))"

definition mux_serve :: "(string \<times> 'h) list \<Rightarrow> string \<Rightarrow> 'h mux_reply" where
  "mux_serve routes path =
     (if clean_path path \<noteq> path then Redirected (clean_path path)
      else (case longest_match path routes of None \<Rightarrow> NotFound | Some (p, h) \<Rightarrow> Handled h))"

section \<open>Clean paths\<close>

definition proper :: "string \<Rightarrow> bool" where
  "proper e \<longleftrightarrow> e \<notin> {[], ''.'', ''..''}"

lemma in_set_tl: "x \<in> set (tl xs) \<Longrightarrow> x \<in> set xs"
  by (cases xs) simp_all

lemma clean_elements_proper:
  "(\<forall>e \<in> set out. proper e) \<Longrightarrow> \<forall>e \<in> set (clean_elements out es). proper e"
proof (induction es arbitrary: out)
  case (Cons e es)
  consider "e = [] \<or> e = ''.''" | "e = ''..''" | "proper e" by (auto simp: proper_def)
  then show ?case
  proof cases
    case 1
    with Cons.IH [OF Cons.prems] show ?thesis by (elim disjE) simp_all
  next
    case 2
    have "\<forall>x \<in> set (tl out). proper x" using Cons.prems in_set_tl by fast
    with Cons.IH 2 show ?thesis by simp
  next
    case 3
    then have "clean_elements out (e # es) = clean_elements (e # out) es" by (simp add: proper_def)
    moreover have "\<forall>x \<in> set (e # out). proper x" using 3 Cons.prems by simp
    ultimately show ?thesis using Cons.IH [of "e # out"] by (simp only:)
  qed
qed simp

lemma clean_elements_subset: "set (clean_elements out es) \<subseteq> set out \<union> set es"
proof (induction es arbitrary: out)
  case (Cons e es)
  from Cons [of out] Cons [of "tl out"] Cons [of "e # out"] show ?case
    by (auto dest: in_set_tl)
qed simp

lemma clean_elements_id: "(\<forall>e \<in> set es. proper e) \<Longrightarrow> clean_elements out es = rev out @ es"
  by (induction es arbitrary: out) (simp_all add: proper_def)

lemma clean_elements_empty: "clean_elements out (es @ [[]]) = clean_elements out es"
  by (induction es arbitrary: out) simp_all

lemma join_with_empty: "es \<noteq> [] \<Longrightarrow> join_with sep (es @ [[]]) = join_with sep es @ sep"
  by (induction sep es rule: join_with.induct) simp_all

lemma last_join_with:
  "es \<noteq> [] \<Longrightarrow> last es \<noteq> [] \<Longrightarrow> join_with sep es \<noteq> [] \<and> last (join_with sep es) = last (last es)"
  by (induction sep es rule: join_with.induct) auto

lemma clean_path_rooted: "take 1 (clean_path p) = ''/''"
  by (simp add: clean_path_def Let_def)

text \<open>A request that is redirected once is handled then.\<close>

lemma clean_path_of_elements:
  assumes "\<forall>e \<in> set es. proper e" and "\<forall>e \<in> set es. CHR ''/'' \<notin> set e" and "es \<noteq> []"
  shows "clean_path (''/'' @ join_with ''/'' es @ (if slash then ''/'' else [])) =
    ''/'' @ join_with ''/'' es @ (if slash then ''/'' else [])" (is "clean_path ?p = _")
proof -
  let ?tail = "if slash then [[]] else []"
  obtain e es' where es: "es = e # es'" using assms(3) by (cases es) auto
  have "?p = join_with ''/'' ([] # es @ ?tail)"
    using join_with_empty [OF assms(3)] by (simp add: es)
  also have "split_on CHR ''/'' \<dots> = [] # es @ ?tail"
    by (rule split_on_join_with) (use assms(2) in auto)
  finally have "clean_elements [] (split_on CHR ''/'' ?p) = es"
    using clean_elements_id [OF assms(1), of "[]"] clean_elements_empty [of "[]" es] by simp
  moreover have "last es \<noteq> []" "last (last es) \<noteq> CHR ''/''"
    using assms by (auto simp: proper_def dest!: last_in_set)
  then have "last ?p = CHR ''/'' \<longleftrightarrow> slash"
    using assms(3) last_join_with [of es "''/''"] by (cases es rule: rev_cases) auto
  ultimately show ?thesis using assms(3) by (simp add: clean_path_def)
qed

lemma clean_path_clean: "clean_path (clean_path p) = clean_path p"
proof -
  let ?p = "if take 1 p = ''/'' then p else ''/'' @ p"
  let ?es = "clean_elements [] (split_on CHR ''/'' ?p)"
  have proper: "\<forall>e \<in> set ?es. proper e" by (rule clean_elements_proper) simp
  have no_slash: "\<forall>e \<in> set ?es. CHR ''/'' \<notin> set e"
    using clean_elements_subset [of "[]" "split_on CHR ''/'' ?p"] split_on_fields by fastforce
  show ?thesis
  proof (cases "?es = []")
    case True
    then have "clean_path p = ''/''" unfolding clean_path_def Let_def by simp
    then show ?thesis by (simp add: clean_path_def)
  next
    case False
    then have "clean_path p = ''/'' @ join_with ''/'' ?es @ (if last ?p = CHR ''/'' then ''/'' else [])"
      unfolding clean_path_def Let_def by simp
    with clean_path_of_elements [OF proper no_slash False] show ?thesis by metis
  qed
qed

lemma mux_serve_root:
  "mux_serve [(''/'', h)] path = (if clean_path path = path then Handled h else Redirected (clean_path path))"
  using clean_path_rooted [of path] by (auto simp: mux_serve_def pattern_matches_def)

end
