(* ===== verification/Ui_Service.thy ===== *)
theory Ui_Service
  imports K8s_Model Http_Mux
begin

text \<open>
  \<open>cmd/ui\<close>: the web page, put together by the dependency-injection library \<open>fx\<close>. The library calls
  the constructors it was given as they are needed; in which order is an argument, of which it is
  documented that every constructor the invoked function needs comes once, after those it needs
  itself, and no other. What the configuration file, the port and the shutdown answer is an argument
  too; the state holds the lines of the program's own logger (the event log of \<open>fx\<close> goes to the same
  output beside them), the routes and the lifecycle hooks.
\<close>

section \<open>Configuration\<close>

record Database =
  Username :: string
  Password :: string

record Configuration =
  Application_Name :: string
  Configuration_Database :: Database
  LoggingLevel :: string

definition zero_database :: Database where
  "zero_database = \<lparr>Username = [], Password = []\<rparr>"

definition zero_configuration :: Configuration where
  "zero_configuration = \<lparr>Application_Name = [], Configuration_Database = zero_database, LoggingLevel = []\<rparr>"

record ui_answers =
  ui_yaml :: "string \<Rightarrow> go_error option"
  ui_database :: "Database \<times> go_error option"
  ui_configuration :: "Configuration \<times> go_error option"
  ui_listen :: "string \<Rightarrow> go_error option"
  ui_shutdown :: "go_error option"

definition LoadDatabase :: "ui_answers \<Rightarrow> Database \<times> go_error option" where
  "LoadDatabase ans =
     (case ui_yaml ans ''./config.yaml'' of
        Some err \<Rightarrow> (zero_database, Some err)
      | None \<Rightarrow>
          (case ui_database ans of (c, Some err) \<Rightarrow> (c, Some err) | (c, None) \<Rightarrow> (c, None)))"

definition LoadConfig :: "ui_answers \<Rightarrow> Configuration \<times> go_error option" where
  "LoadConfig ans =
     (case ui_yaml ans ''./config.yaml'' of
        Some err \<Rightarrow> (zero_configuration, Some err)
      | None \<Rightarrow>
          (case ui_configuration ans of (c, Some err) \<Rightarrow> (c, Some err) | (c, None) \<Rightarrow> (c, None)))"

section \<open>The application\<close>

text \<open>A handler is a function that prints a line and gives a body; a hook is one of \<open>NewMux\<close>.\<close>

record ui_handler =
  h_print :: string
  h_body :: string

record ui_hook =
  hook_addr :: string

record ui_app =
  ui_db :: "Database option"
  ui_conf :: "Configuration option"
  ui_handler_value :: "ui_handler option"
  ui_routes :: "(string \<times> ui_handler) list"
  ui_hooks :: "ui_hook list"
  ui_printed :: "string list"
  ui_serving :: "string list"

definition ui_init :: ui_app where
  "ui_init =
     \<lparr>ui_db = None, ui_conf = None, ui_handler_value = None, ui_routes = [], ui_hooks = [],
      ui_printed = [], ui_serving = []\<rparr>"

definition ui_print :: "string \<Rightarrow> ui_app \<Rightarrow> ui_app" where
  "ui_print line app = app\<lparr>ui_printed := ui_printed app @ [line]\<rparr>"

text \<open>\<open>%v\<close> of a struct of two strings.\<close>

definition NewLogger :: "Database \<Rightarrow> ui_app \<Rightarrow> ui_app" where
  "NewLogger c app =
     ui_print (''Executing NewLogger. {'' @ Username c @ '' '' @ Password c @ ''}'') app"

definition Register :: "ui_handler \<Rightarrow> ui_app \<Rightarrow> ui_app" where
  "Register h app = app\<lparr>ui_routes := ui_routes app @ [(''/'', h)]\<rparr>"

definition NewMux :: "ui_app \<Rightarrow> ui_app" where
  "NewMux app =
     (let app = ui_print ''Executing NewMux.'' app
      in app\<lparr>ui_hooks := ui_hooks app @ [\<lparr>hook_addr = ''0.0.0.0:8081''\<rparr>]\<rparr>)"

text \<open>The error of \<open>ListenAndServe\<close>, which runs in a goroutine of its own, is looked at nowhere.\<close>

definition OnStart :: "ui_answers \<Rightarrow> ui_hook \<Rightarrow> ui_app \<Rightarrow> go_error option \<times> ui_app" where
  "OnStart ans hook app =
     (let app = ui_print ''Starting HTTP server.'' app
      in (None,
          (case ui_listen ans (hook_addr hook) of
             Some err \<Rightarrow> app
           | None \<Rightarrow> app\<lparr>ui_serving := ui_serving app @ [hook_addr hook]\<rparr>)))"

definition OnStop :: "ui_answers \<Rightarrow> ui_hook \<Rightarrow> ui_app \<Rightarrow> go_error option \<times> ui_app" where
  "OnStop ans hook app =
     (ui_shutdown ans,
      (ui_print ''Stopping HTTP server.'' app)\<lparr>ui_serving := removeAll (hook_addr hook) (ui_serving app)\<rparr>)"

definition NewHandler :: "ui_app \<Rightarrow> ui_handler \<times> ui_app" where
  "NewHandler app =
     (\<lparr>h_print = ''Got a request.'', h_body = ''The time is: ''\<rparr>, ui_print ''Executing NewHandler.'' app)"

definition NewConfigHandler :: "string \<Rightarrow> ui_app \<Rightarrow> ui_handler \<times> ui_app" where
  "NewConfigHandler arg app =
     (\<lparr>h_print = ''Got a request.'', h_body = ''The time is: ''\<rparr>,
      ui_print (''Executing NewHandler '' @ arg @ ''.'') app)"

section \<open>main\<close>

text \<open>The constructors \<open>main\<close> provides, and what each needs of the others by its parameters.\<close>

datatype constructor = Provide_LoadConfig | Provide_LoadDatabase | Provide_NewLogger
  | Provide_NewConfigHandler | Provide_NewMux

fun needs :: "constructor \<Rightarrow> constructor list" where
  "needs Provide_LoadConfig = []"
| "needs Provide_LoadDatabase = []"
| "needs Provide_NewLogger = [Provide_LoadDatabase]"
| "needs Provide_NewConfigHandler = [Provide_NewLogger]"
| "needs Provide_NewMux = [Provide_NewLogger]"

definition register_needs :: "constructor list" where
  "register_needs = [Provide_NewMux, Provide_NewConfigHandler]"

text \<open>An order in which the library may call them for \<open>Register\<close>.\<close>

definition fx_order :: "constructor list \<Rightarrow> bool" where
  "fx_order ks \<longleftrightarrow>
     distinct ks \<and> set register_needs \<subseteq> set ks \<and>
     (\<forall>i < length ks. set (needs (ks ! i)) \<subseteq> set (take i ks)) \<and>
     (\<forall>k \<in> set ks. k \<in> set register_needs \<or> (\<exists>k' \<in> set ks. k \<in> set (needs k')))"

fun construct :: "ui_answers \<Rightarrow> constructor \<Rightarrow> ui_app \<Rightarrow> go_error option \<times> ui_app" where
  "construct ans Provide_LoadConfig app =
     (case LoadConfig ans of (c, err) \<Rightarrow> (err, app\<lparr>ui_conf := Some c\<rparr>))"
| "construct ans Provide_LoadDatabase app =
     (case LoadDatabase ans of (c, err) \<Rightarrow> (err, app\<lparr>ui_db := Some c\<rparr>))"
| "construct ans Provide_NewLogger app = (None, NewLogger (the (ui_db app)) app)"
| "construct ans Provide_NewConfigHandler app =
     (case NewConfigHandler ''configured'' app of (h, app) \<Rightarrow> (None, app\<lparr>ui_handler_value := Some h\<rparr>))"
| "construct ans Provide_NewMux app = (None, NewMux app)"

fun construct_all :: "ui_answers \<Rightarrow> constructor list \<Rightarrow> ui_app \<Rightarrow> go_error option \<times> ui_app" where
  "construct_all ans [] app = (None, app)"
| "construct_all ans (k # ks) app =
     (case construct ans k app of
        (Some err, app) \<Rightarrow> (Some err, app)
      | (None, app) \<Rightarrow> construct_all ans ks app)"

text \<open>The start of the application up to the signal that ends it; a constructor that fails ends it at once.\<close>

definition ui_main :: "ui_answers \<Rightarrow> constructor list \<Rightarrow> unit run \<times> ui_app" where
  "ui_main ans order =
     (case construct_all ans order ui_init of
        (Some err, app) \<Rightarrow> (Exited (error_text err), app)
      | (None, app) \<Rightarrow>
          (let app = Register (the (ui_handler_value app)) app
           in (Value (), foldl (\<lambda>app hook. snd (OnStart ans hook app)) app (ui_hooks app))))"

text \<open>The signal: the hooks in reverse.\<close>

definition ui_stop :: "ui_answers \<Rightarrow> ui_app \<Rightarrow> ui_app" where
  "ui_stop ans app = foldr (\<lambda>hook app. snd (OnStop ans hook app)) (ui_hooks app) app"

text \<open>
  A request (other than CONNECT), when the port is served: the mux gives it to the handler, which prints
  a line and writes its body, or redirects it.
\<close>

definition ui_request :: "string \<Rightarrow> ui_app \<Rightarrow> string mux_reply option \<times> ui_app" where
  "ui_request path app =
     (if ui_serving app = [] then (None, app)
      else (case mux_serve (ui_routes app) path of
              NotFound \<Rightarrow> (Some NotFound, app)
            | Redirected path' \<Rightarrow> (Some (Redirected path'), app)
            | Handled h \<Rightarrow> (Some (Handled (h_body h)), ui_print (h_print h) app)))"

section \<open>What starts\<close>

lemma fx_order_first: "fx_order (k # ks) \<Longrightarrow> needs k = []"
  by (auto simp: fx_order_def dest!: spec [of _ 0])

lemma fx_order_second: "fx_order (k # k' # ks) \<Longrightarrow> set (needs k') \<subseteq> {k}"
  by (auto simp: fx_order_def dest!: spec [of _ 1])

text \<open>The library has two orders to choose from, and in both \<open>LoadConfig\<close> is left out.\<close>

lemma fx_order_cases:
  "fx_order order \<longleftrightarrow>
     order = [Provide_LoadDatabase, Provide_NewLogger, Provide_NewMux, Provide_NewConfigHandler] \<or>
     order = [Provide_LoadDatabase, Provide_NewLogger, Provide_NewConfigHandler, Provide_NewMux]"
proof
  assume o: "fx_order order"
  have after: "set (needs k) \<subseteq> set order" if "k \<in> set order" for k
  proof -
    from that obtain i where "i < length order" "order ! i = k" by (auto simp: in_set_conv_nth)
    with o have "set (needs k) \<subseteq> set (take i order)" by (auto simp: fx_order_def)
    then show ?thesis using set_take_subset [of i order] by blast
  qed
  have no_config: "Provide_LoadConfig \<notin> set order"
  proof
    assume "Provide_LoadConfig \<in> set order"
    with o obtain k where "Provide_LoadConfig \<in> set (needs k)" by (auto simp: fx_order_def register_needs_def)
    then show False by (cases k) auto
  qed
  have mux: "Provide_NewMux \<in> set order" "Provide_NewConfigHandler \<in> set order"
    using o by (auto simp: fx_order_def register_needs_def)
  with after [of Provide_NewMux] have "Provide_NewLogger \<in> set order" by simp
  with after [of Provide_NewLogger] have "Provide_LoadDatabase \<in> set order" by simp
  with \<open>Provide_NewLogger \<in> set order\<close> mux no_config
  have set: "set order = {Provide_LoadDatabase, Provide_NewLogger, Provide_NewMux, Provide_NewConfigHandler}"
    by (auto, metis constructor.exhaust)
  have dist: "distinct order" using o by (simp add: fx_order_def)
  with set have "length order = 4" using distinct_card [OF dist] by simp
  then obtain a b c d where abcd: "order = [a, b, c, d]"
    by (auto simp: length_Suc_conv numeral_eq_Suc)
  with set fx_order_first [of a] o have "a = Provide_LoadDatabase" by (cases a) auto
  moreover have "b = Provide_NewLogger"
    using set dist fx_order_second [of a b] o abcd \<open>a = Provide_LoadDatabase\<close> by (cases b) auto
  ultimately show "order = [Provide_LoadDatabase, Provide_NewLogger, Provide_NewMux, Provide_NewConfigHandler] \<or>
     order = [Provide_LoadDatabase, Provide_NewLogger, Provide_NewConfigHandler, Provide_NewMux]"
    using set dist abcd by (cases c; cases d) auto
next
  assume "order = [Provide_LoadDatabase, Provide_NewLogger, Provide_NewMux, Provide_NewConfigHandler] \<or>
     order = [Provide_LoadDatabase, Provide_NewLogger, Provide_NewConfigHandler, Provide_NewMux]"
  then show "fx_order order"
    by (auto simp: fx_order_def register_needs_def less_Suc_eq)
qed

text \<open>The state after a start that succeeds.\<close>

definition page :: ui_handler where
  "page = \<lparr>h_print = ''Got a request.'', h_body = ''The time is: ''\<rparr>"

lemma ui_main_state:
  assumes "fx_order order" and "ui_yaml ans ''./config.yaml'' = None" and "ui_database ans = (c, None)"
  shows "\<exists>x y. ui_main ans order = (Value (),
    \<lparr>ui_db = Some c, ui_conf = None, ui_handler_value = Some page, ui_routes = [(''/'', page)],
     ui_hooks = [\<lparr>hook_addr = ''0.0.0.0:8081''\<rparr>],
     ui_printed = [''Executing NewLogger. {'' @ Username c @ '' '' @ Password c @ ''}'', x, y,
       ''Starting HTTP server.''],
     ui_serving = (if ui_listen ans ''0.0.0.0:8081'' = None then [''0.0.0.0:8081''] else [])\<rparr>)"
proof -
  have db: "LoadDatabase ans = (c, None)" using assms(2,3) by (simp add: LoadDatabase_def)
  have serving: "snd (OnStart ans hook app) = (ui_print ''Starting HTTP server.'' app)
      \<lparr>ui_serving := ui_serving app @ (if ui_listen ans (hook_addr hook) = None then [hook_addr hook] else [])\<rparr>"
    for hook app
    by (cases "ui_listen ans (hook_addr hook)") (simp_all add: OnStart_def ui_print_def)
  from assms(1) consider
      "order = [Provide_LoadDatabase, Provide_NewLogger, Provide_NewMux, Provide_NewConfigHandler]"
    | "order = [Provide_LoadDatabase, Provide_NewLogger, Provide_NewConfigHandler, Provide_NewMux]"
    unfolding fx_order_cases by blast
  then show ?thesis
    by cases (simp_all add: ui_main_def db serving NewLogger_def NewMux_def NewConfigHandler_def Register_def
      ui_print_def ui_init_def page_def Let_def)
qed

text \<open>
  C40. A user interface that can read its configuration starts, whichever order the library picks: the
  first line of its logger shows the database's user name and password, \<open>LoadConfig\<close> never runs, and it
  says that the server is started whether or not the port can be served. When it can, a request for a
  clean path is answered with the page and one for any other path is redirected to its clean form; when
  it cannot, requests are not answered and nothing reports it. (Requests are those with a path, so not
  \<open>OPTIONS *\<close>, and not CONNECT.)
\<close>

theorem ui_prints_the_password:
  assumes "fx_order order" and "ui_yaml ans ''./config.yaml'' = None" and "ui_database ans = (c, None)"
    and "path \<noteq> ''*''"
  shows "\<exists>app. ui_main ans order = (Value (), app) \<and>
    hd (ui_printed app) = ''Executing NewLogger. {'' @ Username c @ '' '' @ Password c @ ''}'' \<and>
    last (ui_printed app) = ''Starting HTTP server.'' \<and> ui_conf app = None \<and>
    fst (ui_request path app) =
      (if ui_listen ans ''0.0.0.0:8081'' \<noteq> None then None
       else if clean_path path = path then Some (Handled ''The time is: '')
       else Some (Redirected (clean_path path)))"
proof -
  from ui_main_state [OF assms(1-3)] obtain x y where run: "ui_main ans order = (Value (),
    \<lparr>ui_db = Some c, ui_conf = None, ui_handler_value = Some page, ui_routes = [(''/'', page)],
     ui_hooks = [\<lparr>hook_addr = ''0.0.0.0:8081''\<rparr>],
     ui_printed = [''Executing NewLogger. {'' @ Username c @ '' '' @ Password c @ ''}'', x, y,
       ''Starting HTTP server.''],
     ui_serving = (if ui_listen ans ''0.0.0.0:8081'' = None then [''0.0.0.0:8081''] else [])\<rparr>)" by blast
  show ?thesis
    unfolding run by (simp add: ui_request_def page_def mux_serve_root)
qed

definition sample_ui :: ui_answers where
  "sample_ui =
     \<lparr>ui_yaml = (\<lambda>_. None), ui_database = (\<lparr>Username = ''admin'', Password = ''secret''\<rparr>, None),
      ui_configuration = (zero_configuration, None), ui_listen = (\<lambda>_. Some (ErrText ''address already in use'')),
      ui_shutdown = None\<rparr>"

theorem ui_prints_the_password_witness:
  "\<exists>app. ui_main sample_ui [Provide_LoadDatabase, Provide_NewLogger, Provide_NewMux, Provide_NewConfigHandler] =
     (Value (), app) \<and> hd (ui_printed app) = ''Executing NewLogger. {admin secret}'' \<and>
     fst (ui_request ''/index.html'' app) = None"
  using ui_prints_the_password [of "[Provide_LoadDatabase, Provide_NewLogger, Provide_NewMux, Provide_NewConfigHandler]"
      sample_ui "\<lparr>Username = ''admin'', Password = ''secret''\<rparr>" "''/index.html''"]
  by (auto simp: fx_order_cases sample_ui_def)

text \<open>A configuration that cannot be read ends the program before anything is printed or served.\<close>

lemma ui_needs_configuration:
  assumes "fx_order order" and "snd (LoadDatabase ans) = Some err"
  shows "\<exists>app. ui_main ans order = (Exited (error_text err), app) \<and> ui_printed app = [] \<and> ui_serving app = []"
  using assms unfolding fx_order_cases
  by (elim disjE) (auto simp: ui_main_def ui_init_def split: prod.splits)

lemma ui_stop_serves_nothing:
  assumes "fx_order order" and "ui_main ans order = (Value (), app)"
  shows "ui_serving (ui_stop ans app) = []"
  using assms unfolding fx_order_cases
  by (elim disjE)
    (auto simp: ui_main_def ui_init_def LoadDatabase_def NewLogger_def NewMux_def NewConfigHandler_def Register_def
      OnStart_def OnStop_def ui_stop_def ui_print_def Let_def split: prod.splits option.splits)

end
