(* ===== verification/Client_Shell.thy ===== *)
theory Client_Shell
  imports Evalctl
begin

text \<open>
  \<open>cmd/evalctl/cmd/root.go\<close> and \<open>cmd/evalctl/main.go\<close>: the program around the commands of \<open>Evalctl\<close>,
  which is where the configuration file is looked for and what an interrupt does. The libraries
  \<open>cobra\<close> and \<open>viper\<close>, the file system and the signals answer through arguments; what \<open>viper\<close> was
  told is its state.
\<close>

section \<open>root.go\<close>

text \<open>The settings \<open>initConfig\<close> makes.\<close>

record viper =
  vi_file :: "string option"
  vi_paths :: "string list"
  vi_type :: string
  vi_name :: string
  vi_env :: bool

definition viper_init :: viper where
  "viper_init = \<lparr>vi_file = None, vi_paths = [], vi_type = [], vi_name = ''config'', vi_env = False\<rparr>"

text \<open>\<open>cobra.CheckErr\<close> is documented to print the error and end the program with code 1, if there is one.\<close>

definition CheckErr :: "go_error option \<Rightarrow> 's \<Rightarrow> unit run \<times> 's" where
  "CheckErr err s = (case err of Some e \<Rightarrow> (Exited (error_text e), s) | None \<Rightarrow> (Value (), s))"

text \<open>
  The file named by the flag, or else a search. \<open>home\<close> is the answer of \<open>os.UserHomeDir\<close> and \<open>readIn\<close>
  the file that was read under these settings, or the error. The lines are those on standard error.
\<close>

definition configure :: "string \<Rightarrow> go_error + string \<Rightarrow> viper \<Rightarrow> unit run \<times> viper" where
  "configure cfgFile home v =
     run_then
       (if cfgFile \<noteq> [] then (Value (), v\<lparr>vi_file := Some cfgFile\<rparr>)
        else
          (case home of
             Inl err \<Rightarrow> CheckErr (Some err) v
           | Inr dir \<Rightarrow>
               (Value (), v\<lparr>vi_paths := vi_paths v @ [dir], vi_type := ''yaml'', vi_name := ''.evalctl''\<rparr>)))
       (\<lambda>_ v. (Value (), v\<lparr>vi_env := True\<rparr>))"

definition initConfig ::
    "string \<Rightarrow> go_error + string \<Rightarrow> (viper \<Rightarrow> go_error + string) \<Rightarrow> viper \<Rightarrow>
     string list run \<times> viper" where
  "initConfig cfgFile home readIn v =
     run_then (configure cfgFile home v) (\<lambda>_ v.
       (Value (case readIn v of Inl err \<Rightarrow> [] | Inr file \<Rightarrow> [''Using config file: '' @ file]), v))"

text \<open>What the help text of the flag \<open>config\<close> promises as the default.\<close>

definition config_usage :: string where
  "config_usage = ''config file (default is $HOME/.go-gopher-cli.yaml)''"

definition Execute_root :: "go_error option \<Rightarrow> unit run" where
  "Execute_root answered = fst (CheckErr answered ())"

section \<open>The commands\<close>

text \<open>
  What \<open>init\<close> of \<open>eval.go\<close> registers: the two commands, each with its usage and the number of arguments
  it takes, and the flags of \<open>eval\<close>. Which engine is chosen is read by nothing.
\<close>

datatype ExecutionEngine = Cloud | Local

definition ExecutionEngineIds :: "ExecutionEngine \<Rightarrow> string list" where
  "ExecutionEngineIds e = (case e of Cloud \<Rightarrow> [''cloud''] | Local \<Rightarrow> [''local''])"

record command =
  cmd_use :: string
  cmd_args :: nat

definition evalCmd :: command where
  "evalCmd = \<lparr>cmd_use = ''eval'', cmd_args = 1\<rparr>"

definition attachCmd :: command where
  "attachCmd = \<lparr>cmd_use = ''attach'', cmd_args = 1\<rparr>"

record eval_flags =
  fl_engine :: ExecutionEngine
  fl_with :: "string \<rightharpoonup> string"
  fl_no_cache :: bool

definition default_flags :: eval_flags where
  "default_flags = \<lparr>fl_engine = Cloud, fl_with = Map.empty, fl_no_cache = False\<rparr>"

record shell_setup =
  su_commands :: "command list"
  su_flags :: eval_flags
  su_completions :: "string list"
  su_workspace :: string

definition init_evalctl :: "go_error + string \<Rightarrow> shell_setup run" where
  "init_evalctl home =
     (case home of
        Inl err \<Rightarrow> Exited (error_text err)
      | Inr dirname \<Rightarrow>
          Value \<lparr>su_commands = [evalCmd, attachCmd], su_flags = default_flags,
            su_completions = GenerateCompletions, su_workspace = workspaceTop dirname\<rparr>)"

text \<open>
  The library runs the command named first when it got as many arguments as the command takes, which is
  what \<open>ExactArgs\<close> is documented to check.
\<close>

definition find_command :: "shell_setup \<Rightarrow> string list \<Rightarrow> (command \<times> string list) option" where
  "find_command su args =
     (case args of
        [] \<Rightarrow> None
      | name # rest \<Rightarrow>
          (case find (\<lambda>c. cmd_use c = name) (su_commands su) of
             None \<Rightarrow> None
           | Some c \<Rightarrow> if length rest = cmd_args c then Some (c, rest) else None))"

text \<open>So the commands never index past the arguments they are given.\<close>

lemma command_has_argument:
  assumes "init_evalctl home = Value su" and "find_command su args = Some (c, rest)"
  obtains a where "rest = [a]" and "c = evalCmd \<or> c = attachCmd"
  using assms
  by (cases rest)
    (auto simp: init_evalctl_def find_command_def evalCmd_def attachCmd_def
      split: sum.splits list.splits option.splits if_splits)

lemma attach_returns:
  assumes "init_evalctl home = Value su" and "find_command su args = Some (c, rest)"
  shows "returns (attachCmdImpl rest)"
  using assms by (rule command_has_argument) (simp add: attachCmdImpl_def)

section \<open>main.go\<close>

text \<open>
  \<open>cleanup\<close> prints without a line end. \<open>EvalOperation\<close> is nil until the engine has answered \<open>Eval\<close>.
\<close>

definition cleanup :: "'any operation option \<Rightarrow> string list" where
  "cleanup EvalOperation =
     [CHR 0x0D] #
     (case EvalOperation of
        None \<Rightarrow> []
      | Some opn \<Rightarrow>
          [''You can re-join this evaluation by running `evalctl attach '' @ op_name opn @ ''`''])"

text \<open>
  \<open>main\<close> ends when the command does, or at a signal: then with what \<open>cleanup\<close> prints and the exit
  code 1, whatever the command was doing. The lines are those that come from here; the command prints
  its own, the library prints an error and the usage, and a command that calls \<open>log.Fatal\<close> never
  comes back.
\<close>

datatype 'any ending =
    Interrupted_at "'any operation option"
  | Command_ended "go_error option"

definition evalctl_main :: "'any ending \<Rightarrow> string list \<times> nat" where
  "evalctl_main how =
     (case how of
        Interrupted_at opn \<Rightarrow> (cleanup opn, 1)
      | Command_ended answered \<Rightarrow>
          (case Execute_root answered of
             Value u \<Rightarrow> ([], 0)
           | Exited m \<Rightarrow> ([''Error: '' @ m], 1)
           | Panicked p \<Rightarrow> ([''panic: '' @ p], 2)))"

section \<open>Properties\<close>

text \<open>
  Without the flag \<open>config\<close> the program looks for the file \<open>.evalctl\<close> in the home directory and
  for no other, although the help says the default is \<open>.go-gopher-cli.yaml\<close>; with the flag it reads
  the named file and asks for no home directory. A file that is missing or broken is not reported.
\<close>

theorem initConfig_cases:
  "initConfig cfgFile home readIn viper_init =
     (case (cfgFile, home) of
        ([], Inl err) \<Rightarrow> (Exited (error_text err), viper_init)
      | ([], Inr dir) \<Rightarrow>
          (let v = \<lparr>vi_file = None, vi_paths = [dir], vi_type = ''yaml'', vi_name = ''.evalctl'', vi_env = True\<rparr>
           in (Value (case readIn v of Inl err \<Rightarrow> [] | Inr file \<Rightarrow> [''Using config file: '' @ file]), v))
      | (c # cs, _) \<Rightarrow>
          (let v = viper_init\<lparr>vi_file := Some cfgFile, vi_env := True\<rparr>
           in (Value (case readIn v of Inl err \<Rightarrow> [] | Inr file \<Rightarrow> [''Using config file: '' @ file]), v)))"
  by (cases cfgFile; cases home)
    (simp_all add: initConfig_def configure_def CheckErr_def viper_init_def Let_def)

text \<open>
  The way back that an interrupt offers leads nowhere. An interrupt after the engine has answered
  prints the command that re-joins the evaluation, with its identifier; that command prints its
  argument and is done, without a call of any service, and the results of the evaluation are never
  shown. Before the answer the interrupt names no evaluation.
\<close>

theorem interrupt_offers_attach:
  "evalctl_main (Interrupted_at (Some opn)) =
     ([[CHR 0x0D], ''You can re-join this evaluation by running `evalctl attach '' @ op_name opn @ ''`''], 1) \<and>
   attachCmdImpl [op_name opn] = Value (''Attaching to '' @ op_name opn) \<and>
   evalctl_main (Interrupted_at (None :: 'any operation option)) = ([[CHR 0x0D]], 1)"
  by (simp add: evalctl_main_def cleanup_def attachCmdImpl_def)

end
