(* ===== verification/Module_Loader.thy ===== *)
theory Module_Loader
  imports Go_Prelude
begin

text \<open>
  \<open>pkg/egraph\<close>: the loader of evaluation graphs written in Starlark. The interpreter is a library:
  what executing a file does to the loader is a parameter, a program that asks for modules one after
  the other and ends with its globals. The cache of the loader remembers the modules that were
  executed and marks the ones whose execution has begun, which is how a cycle is noticed.
\<close>

section \<open>Programs that load modules\<close>

text \<open>A dictionary of globals; the nil dictionary is the empty one.\<close>

type_synonym 'v globals = "string \<rightharpoonup> 'v"
type_synonym 'v load_result = "'v globals \<times> go_error option"

text \<open>
  \<open>starlark.ExecFile\<close> calls the thread's \<open>Load\<close> at every load statement it reaches and goes on with
  what the call returned, or ends with globals and an error.
\<close>

datatype 'v script =
    Ends "'v globals" "go_error option"
  | Loads string "'v load_result \<Rightarrow> 'v script"

primrec ExecFile ::
    "(string \<Rightarrow> 's \<Rightarrow> ('v load_result \<times> 's) option) \<Rightarrow> 'v script \<Rightarrow> 's \<Rightarrow>
     ('v load_result \<times> 's) option" where
  "ExecFile ld (Ends g err) s = Some ((g, err), s)"
| "ExecFile ld (Loads m k) s =
     (case ld m s of None \<Rightarrow> None | Some (r, s1) \<Rightarrow> ExecFile ld (k r) s1)"

text \<open>The loads a program may come to, whatever they return.\<close>

primrec script_loads :: "'v script \<Rightarrow> string set" where
  "script_loads (Ends g err) = {}"
| "script_loads (Loads m k) = insert m (\<Union>r. script_loads (k r))"

section \<open>The loader\<close>

record 'v entry =
  entry_globals :: "'v globals"
  entry_err :: "go_error option"

text \<open>
  The captured map \<open>cache\<close>, in which nil is the placeholder of a load in progress, the lines printed
  so far, and the files executed so far.
\<close>

record 'v loader =
  ld_cache :: "string \<rightharpoonup> 'v entry option"
  ld_printed :: "string list"
  ld_executed :: "string list"

text \<open>Indexing the globals with a name they lack gives a nil value.\<close>

definition show_global :: "('v \<Rightarrow> string) \<Rightarrow> 'v globals \<Rightarrow> string \<Rightarrow> string" where
  "show_global shw g x = (case g x of None \<Rightarrow> ''<nil>'' | Some v \<Rightarrow> shw v)"

definition module_lines :: "('v \<Rightarrow> string) \<Rightarrow> string \<Rightarrow> 'v globals \<Rightarrow> string list" where
  "module_lines shw module g =
     [''========[ '' @ module @ '' ]==========='',
      show_global shw g ''_components'',
      ''f: '' @ show_global shw g ''f'',
      ''m: '' @ show_global shw g ''m'',
      ''c: '' @ show_global shw g ''c'',
      ''======================'']"

text \<open>The end of \<open>load\<close>: what it prints and returns for the entry.\<close>

definition load_reply ::
    "('v \<Rightarrow> string) \<Rightarrow> string \<Rightarrow> 'v entry \<Rightarrow> 'v loader \<Rightarrow> 'v load_result \<times> 'v loader" where
  "load_reply shw module e s =
     ((entry_globals e, entry_err e),
      s\<lparr>ld_printed := ld_printed s @ module_lines shw module (entry_globals e)\<rparr>)"

definition begin_load :: "string \<Rightarrow> 'v loader \<Rightarrow> 'v loader" where
  "begin_load module s =
     s\<lparr>ld_cache := (ld_cache s)(module \<mapsto> None), ld_executed := ld_executed s @ [module]\<rparr>"

definition end_load :: "string \<Rightarrow> 'v entry \<Rightarrow> 'v loader \<Rightarrow> 'v loader" where
  "end_load module e s = s\<lparr>ld_cache := (ld_cache s)(module \<mapsto> Some e)\<rparr>"

definition cycle_error :: go_error where
  "cycle_error = ErrText ''cycle in load graph''"

text \<open>A load that returns where the less defined loader does returns the same.\<close>

lemma ExecFile_le:
  assumes "\<And>m s. option_ord (ld m s) (ld' m s)"
  shows "option_ord (ExecFile ld sc s) (ExecFile ld' sc s)"
proof (induction sc arbitrary: s)
  case (Loads m k)
  then have "option_ord (ExecFile ld (k r) s1) (ExecFile ld' (k r) s1)" for r s1 by simp
  then show ?case
    using assms [of m s] by (cases "ld m s") (auto simp: flat_ord_def split: prod.splits option.splits)
qed (simp add: flat_ord_def)

lemma ExecFile_mono [partial_function_mono]:
  assumes "\<And>m s. mono_option (\<lambda>f. ld f m s)"
  shows "mono_option (\<lambda>f. ExecFile (ld f) sc s)"
  using assms by (auto simp: monotone_def intro!: ExecFile_le)

text \<open>
  \<open>load\<close>: an entry that is nil although the key is there is a load in progress; a module without a
  key is executed in a new thread whose \<open>Load\<close> is this function again. A program that loads for ever
  gives \<open>None\<close>.
\<close>

partial_function (option) load_module ::
    "('v \<Rightarrow> string) \<Rightarrow> (string \<Rightarrow> 'v script) \<Rightarrow> string \<Rightarrow> 'v loader \<Rightarrow>
     ('v load_result \<times> 'v loader) option" where
  "load_module shw files module s =
     (case ld_cache s module of
        Some (Some e) \<Rightarrow> Some (load_reply shw module e s)
      | Some None \<Rightarrow> Some ((Map.empty, Some cycle_error), s)
      | None \<Rightarrow>
          Option.bind (ExecFile (\<lambda>m w. load_module shw files m w) (files module) (begin_load module s))
            (\<lambda>((globals, err), s1).
               let e = \<lparr>entry_globals = globals, entry_err = err\<rparr>
               in Some (load_reply shw module e (end_load module e s1))))"

definition loader_init :: "'v loader" where
  "loader_init = \<lparr>ld_cache = Map.empty, ld_printed = [], ld_executed = []\<rparr>"

definition Load ::
    "('v \<Rightarrow> string) \<Rightarrow> (string \<Rightarrow> 'v script) \<Rightarrow> (unit run \<times> string list) option" where
  "Load shw files =
     (case load_module shw files ''evaluations/graphs/comparison.star'' loader_init of
        None \<Rightarrow> None
      | Some ((globals, Some err), s) \<Rightarrow> Some (Exited ''load failed'', ld_printed s)
      | Some ((globals, None), s) \<Rightarrow> Some (Value (), ld_printed s))"

definition ImportEvaluationGraph ::
    "('v \<Rightarrow> string) \<Rightarrow> (string \<Rightarrow> 'v script) \<Rightarrow> (bool run \<times> string list) option" where
  "ImportEvaluationGraph shw files =
     (case Load shw files of
        None \<Rightarrow> None
      | Some r \<Rightarrow> Some (run_then r (\<lambda>_ out. (Value True, out))))"

lemma load_finished:
  "ld_cache s m = Some (Some e) \<Longrightarrow> load_module shw files m s = Some (load_reply shw m e s)"
  by (subst load_module.simps) simp

lemma load_in_progress:
  "ld_cache s m = Some None \<Longrightarrow> load_module shw files m s = Some ((Map.empty, Some cycle_error), s)"
  by (subst load_module.simps) simp

lemma load_new:
  "ld_cache s m = None \<Longrightarrow> load_module shw files m s =
     Option.bind (ExecFile (load_module shw files) (files m) (begin_load m s))
       (\<lambda>((globals, err), s1).
          let e = \<lparr>entry_globals = globals, entry_err = err\<rparr>
          in Some (load_reply shw m e (end_load m e s1)))"
  by (subst load_module.simps) (simp add: Let_def)

text \<open>Induction on a load that returns: the loads its file made returned before.\<close>

lemma load_induct [consumes 1, case_names finished in_progress new]:
  assumes "load_module shw files m s = Some (r, s')"
    and "\<And>m s e. ld_cache s m = Some (Some e) \<Longrightarrow> P m s (entry_globals e, entry_err e) (snd (load_reply shw m e s))"
    and "\<And>m s. ld_cache s m = Some None \<Longrightarrow> P m s (Map.empty, Some cycle_error) s"
    and "\<And>ld m s g err s1. (\<And>m s r s'. ld m s = Some (r, s') \<Longrightarrow> P m s r s') \<Longrightarrow> ld_cache s m = None \<Longrightarrow>
      ExecFile ld (files m) (begin_load m s) = Some ((g, err), s1) \<Longrightarrow>
      P m s (g, err) (snd (load_reply shw m \<lparr>entry_globals = g, entry_err = err\<rparr>
        (end_load m \<lparr>entry_globals = g, entry_err = err\<rparr> s1)))"
  shows "P m s r s'"
proof -
  let ?Q = "\<lambda>shw' files' m s y. shw' = shw \<longrightarrow> files' = files \<longrightarrow> P m s (fst y) (snd y)"
  have "?Q shw files m s (r, s')"
  proof (rule load_module.raw_induct [where P = ?Q, OF _ assms(1)], intro impI)
    fix ld shw' files' m s y
    assume IH: "\<And>shw files m s y. ld shw files m s = Some y \<Longrightarrow> ?Q shw files m s y"
      and "shw' = shw" "files' = files"
      and body: "(case ld_cache s m of
        None \<Rightarrow> Option.bind (ExecFile (ld shw' files') (files' m) (begin_load m s))
          (\<lambda>((globals, err), s1).
             let e = \<lparr>entry_globals = globals, entry_err = err\<rparr>
             in Some (load_reply shw' m e (end_load m e s1)))
        | Some None \<Rightarrow> Some ((Map.empty, Some cycle_error), s)
        | Some (Some e) \<Rightarrow> Some (load_reply shw' m e s)) = Some y"
    have ld: "P m s r s'" if "ld shw files m s = Some (r, s')" for m s r s'
      using IH [OF that] by simp
    consider e where "ld_cache s m = Some (Some e)" | "ld_cache s m = Some None" | "ld_cache s m = None"
      by (cases "ld_cache s m") auto
    then show "P m s (fst y) (snd y)"
    proof cases
      case 1
      with body assms(2) show ?thesis by (auto simp: load_reply_def \<open>shw' = shw\<close>)
    next
      case 2
      with body assms(3) show ?thesis by auto
    next
      case 3
      with body obtain g err s1 where x: "ExecFile (ld shw files) (files m) (begin_load m s) = Some ((g, err), s1)"
          "y = load_reply shw m \<lparr>entry_globals = g, entry_err = err\<rparr>
            (end_load m \<lparr>entry_globals = g, entry_err = err\<rparr> s1)"
        by (auto simp: \<open>shw' = shw\<close> \<open>files' = files\<close> Let_def Option.bind_eq_Some_conv)
      have "fst y = (g, err)" using x(2) by (simp add: load_reply_def)
      with assms(4) [OF ld 3 x(1)] x(2) show ?thesis by simp
    qed
  qed
  then show ?thesis by simp
qed

section \<open>What loading does to the loader\<close>

text \<open>
  Loading executes some files that were not executed or begun before, each once and to its end, and
  leaves every other entry of the cache as it was, the marks of the loads in progress included.
\<close>

definition loaded :: "string list \<Rightarrow> 'v loader \<Rightarrow> 'v loader \<Rightarrow> bool" where
  "loaded ms s s' \<longleftrightarrow>
     ld_executed s' = ld_executed s @ ms \<and> distinct ms \<and> set ms \<inter> dom (ld_cache s) = {} \<and>
     (\<forall>m. m \<notin> set ms \<longrightarrow> ld_cache s' m = ld_cache s m) \<and>
     (\<forall>m \<in> set ms. \<exists>e. ld_cache s' m = Some (Some e))"

lemma loaded_refl: "loaded [] s s"
  by (simp add: loaded_def)

lemma loaded_dom: "loaded ms s s' \<Longrightarrow> dom (ld_cache s') = dom (ld_cache s) \<union> set ms"
  by (auto simp: loaded_def dom_def)

lemma loaded_trans:
  assumes "loaded ms s s1" and "loaded ns s1 s2"
  shows "loaded (ms @ ns) s s2"
proof -
  have "set ns \<inter> dom (ld_cache s1) = {}" using assms(2) by (simp add: loaded_def)
  then have "set ns \<inter> dom (ld_cache s) = {}" "set ns \<inter> set ms = {}"
    using loaded_dom [OF assms(1)] by blast+
  with assms show ?thesis by (auto simp: loaded_def)
qed

lemma ExecFile_loaded:
  assumes "\<And>m s r s'. ld m s = Some (r, s') \<Longrightarrow> \<exists>ms. loaded ms s s'"
    and "ExecFile ld sc s = Some (r, s')"
  shows "\<exists>ms. loaded ms s s'"
  using assms(2)
proof (induction sc arbitrary: s)
  case (Ends g err)
  then show ?case using loaded_refl by auto
next
  case (Loads m k)
  then obtain r1 s1 where "ld m s = Some (r1, s1)" "ExecFile ld (k r1) s1 = Some (r, s')"
    by (auto split: option.splits)
  then show ?case using assms(1) Loads.IH [of "k r1"] loaded_trans by (metis rangeI)
qed

lemma loaded_begin_end:
  assumes "loaded ms (begin_load m s) s1" and "ld_cache s m = None"
  shows "loaded (m # ms) s (snd (load_reply shw m e (end_load m e s1)))"
  using assms by (auto simp: loaded_def load_reply_def begin_load_def end_load_def)

lemma load_loaded:
  assumes "load_module shw files m s = Some (r, s')"
  shows "\<exists>ms. loaded ms s s' \<and> (ld_cache s m = None \<longrightarrow> m \<in> set ms)"
  using assms
proof (induction rule: load_induct)
  case (finished m s e)
  then show ?case by (auto simp: load_reply_def loaded_def intro!: exI [of _ "[]"])
next
  case (in_progress m s)
  then show ?case using loaded_refl by force
next
  case (new ld m s g err s1)
  from ExecFile_loaded [OF _ new.hyps(2)] new.IH obtain ms where "loaded ms (begin_load m s) s1" by blast
  from loaded_begin_end [OF this new.hyps(1)] show ?case by (metis list.set_intros(1))
qed

section \<open>Loading ends\<close>

definition closed_modules :: "(string \<Rightarrow> 'v script) \<Rightarrow> string set \<Rightarrow> bool" where
  "closed_modules files M \<longleftrightarrow> (\<forall>m \<in> M. script_loads (files m) \<subseteq> M)"

lemma ExecFile_returns:
  assumes "\<And>m s. m \<in> M \<Longrightarrow> D \<subseteq> dom (ld_cache s) \<Longrightarrow>
      \<exists>r s'. ld m s = Some (r, s') \<and> dom (ld_cache s) \<subseteq> dom (ld_cache s')"
    and "script_loads sc \<subseteq> M" and "D \<subseteq> dom (ld_cache s)"
  shows "\<exists>r s'. ExecFile ld sc s = Some (r, s')"
  using assms(2,3)
proof (induction sc arbitrary: s)
  case (Loads m k)
  then have "m \<in> M" by simp
  from assms(1) [OF this Loads.prems(2)] obtain r1 s1 where
      "ld m s = Some (r1, s1)" "dom (ld_cache s) \<subseteq> dom (ld_cache s1)" by blast
  moreover have "script_loads (k r1) \<subseteq> M" using Loads.prems(1) by auto
  ultimately show ?case using Loads.IH [of "k r1" s1] Loads.prems(2) by (auto simp del: split_paired_Ex)
qed simp

lemma load_returns:
  assumes "finite M" and "closed_modules files M" and "m \<in> M"
  shows "\<exists>r s'. load_module shw files m s = Some (r, s')"
  using assms(3)
proof (induction "card (M - dom (ld_cache s))" arbitrary: m s rule: less_induct)
  case less
  consider e where "ld_cache s m = Some (Some e)" | "ld_cache s m = Some None" | "ld_cache s m = None"
    by (cases "ld_cache s m") auto
  then show ?case
  proof cases
    case 1
    then show ?thesis by (simp add: load_finished load_reply_def)
  next
    case 2
    then show ?thesis by (simp add: load_in_progress)
  next
    case 3
    let ?D = "dom (ld_cache (begin_load m s))"
    have D: "?D = insert m (dom (ld_cache s))" by (auto simp: begin_load_def)
    have "\<exists>r s2. load_module shw files n s1 = Some (r, s2) \<and> dom (ld_cache s1) \<subseteq> dom (ld_cache s2)"
      if "n \<in> M" "?D \<subseteq> dom (ld_cache s1)" for n s1
    proof -
      have "M - dom (ld_cache s1) \<subset> M - dom (ld_cache s)"
        using that(2) D 3 less.prems by auto
      then have "card (M - dom (ld_cache s1)) < card (M - dom (ld_cache s))"
        using assms(1) by (simp add: psubset_card_mono)
      from less.hyps [OF this that(1)] obtain r s2 where r: "load_module shw files n s1 = Some (r, s2)" by auto
      from load_loaded [OF r] loaded_dom r show ?thesis by blast
    qed
    moreover have "script_loads (files m) \<subseteq> M"
      using assms(2) less.prems by (simp add: closed_modules_def)
    ultimately obtain r s1 where "ExecFile (load_module shw files) (files m) (begin_load m s) = Some (r, s1)"
      using ExecFile_returns [of M ?D "load_module shw files" "files m" "begin_load m s"] by blast
    then show ?thesis by (cases r) (simp add: load_new [OF 3] load_reply_def Let_def)
  qed
qed

section \<open>Loading without a cache\<close>

text \<open>
  What a module means on its own: its file is executed and every load in it executes the module it
  names, again each time. \<open>uncached n\<close> follows loads \<open>n\<close> deep; a module whose loads run into a cycle
  has no meaning at any depth.
\<close>

fun uncached :: "(string \<Rightarrow> 'v script) \<Rightarrow> nat \<Rightarrow> string \<Rightarrow> unit \<Rightarrow> ('v load_result \<times> unit) option" where
  "uncached files 0 m u = None"
| "uncached files (Suc n) m u = ExecFile (uncached files n) (files m) u"

definition meaning :: "(string \<Rightarrow> 'v script) \<Rightarrow> string \<Rightarrow> 'v load_result \<Rightarrow> bool" where
  "meaning files m r \<longleftrightarrow> (\<exists>n. uncached files n m () = Some (r, ()))"

lemma uncached_Suc: "option_ord (uncached files n m u) (uncached files (Suc n) m u)"
proof (induction n arbitrary: m u)
  case (Suc n)
  then have "option_ord (ExecFile (uncached files n) (files m) u) (ExecFile (uncached files (Suc n)) (files m) u)"
    by (intro ExecFile_le)
  then show ?case by simp
qed (simp add: flat_ord_def)

lemma uncached_mono:
  assumes "uncached files n m u = Some r" and "n \<le> k"
  shows "uncached files k m u = Some r"
  using assms(2,1)
proof (induction k rule: dec_induct)
  case (step k)
  then show ?case using uncached_Suc [of files k m u] by (auto simp: flat_ord_def)
qed

lemma meaning_unique:
  assumes "meaning files m r" and "meaning files m r'"
  shows "r = r'"
proof -
  from assms obtain n k where "uncached files n m () = Some (r, ())" "uncached files k m () = Some (r', ())"
    by (auto simp: meaning_def)
  then have "uncached files (max n k) m () = Some (r, ())" "uncached files (max n k) m () = Some (r', ())"
    by (auto intro: uncached_mono)
  then show ?thesis by simp
qed

text \<open>
  The cache is right when every finished entry is what its module means, and the loads in progress
  are further up than depth \<open>n\<close>: they have no meaning that deep.
\<close>

definition cache_right :: "(string \<Rightarrow> 'v script) \<Rightarrow> 'v loader \<Rightarrow> bool" where
  "cache_right files s \<longleftrightarrow>
     (\<forall>m e. ld_cache s m = Some (Some e) \<longrightarrow> meaning files m (entry_globals e, entry_err e))"

definition above :: "(string \<Rightarrow> 'v script) \<Rightarrow> nat \<Rightarrow> 'v loader \<Rightarrow> bool" where
  "above files n s \<longleftrightarrow> (\<forall>m. ld_cache s m = Some None \<longrightarrow> uncached files n m () = None)"

lemma above_loaded: "loaded ms s s' \<Longrightarrow> above files n s \<Longrightarrow> above files n s'"
  unfolding loaded_def above_def by (metis option.distinct(1) option.inject)

lemma above_Suc: "above files (Suc n) s \<Longrightarrow> above files n s"
  unfolding above_def by (metis lessI less_imp_le not_None_eq option.distinct(1) uncached_mono)

lemma ExecFile_simulates:
  assumes "\<And>m s r. Inv s \<Longrightarrow> uncached files n m () = Some (r, ()) \<Longrightarrow> \<exists>s'. ld m s = Some (r, s') \<and> Inv s'"
    and "ExecFile (uncached files n) sc () = Some (r, ())" and "Inv s"
  shows "\<exists>s'. ExecFile ld sc s = Some (r, s') \<and> Inv s'"
  using assms(2,3)
proof (induction sc arbitrary: s)
  case (Loads m k)
  then obtain r1 where r1: "uncached files n m () = Some (r1, ())"
      "ExecFile (uncached files n) (k r1) () = Some (r, ())" by (auto split: option.splits)
  with assms(1) Loads.prems(2) obtain s1 where "ld m s = Some (r1, s1)" "Inv s1" by blast
  with Loads.IH [of "k r1" s1] r1(2) show ?case by simp
qed simp

lemma cache_right_finished:
  assumes "cache_right files s" and "meaning files m r"
  shows "cache_right files (snd (load_reply shw m e (end_load m \<lparr>entry_globals = fst r, entry_err = snd r\<rparr> s)))"
  using assms by (simp add: cache_right_def load_reply_def end_load_def)

lemma load_deep:
  assumes "uncached files n m () = Some (r, ())" and "cache_right files s" and "above files n s"
  shows "\<exists>s'. load_module shw files m s = Some (r, s') \<and> cache_right files s'"
  using assms
proof (induction n arbitrary: m s r)
  case (Suc n)
  show ?case
  proof (cases "uncached files n m ()")
    case (Some x)
    then have "uncached files n m () = Some (r, ())"
      using uncached_mono [OF Some, of "Suc n"] Suc.prems(1) by simp
    with Suc show ?thesis using above_Suc by blast
  next
    case None
    have r: "meaning files m r" using Suc.prems(1) unfolding meaning_def by blast
    consider e where "ld_cache s m = Some (Some e)" | "ld_cache s m = Some None" | "ld_cache s m = None"
      by (cases "ld_cache s m") auto
    then show ?thesis
    proof cases
      case 1
      then have "meaning files m (entry_globals e, entry_err e)"
        using Suc.prems(2) by (simp add: cache_right_def)
      with r have "(entry_globals e, entry_err e) = r" by (rule meaning_unique [rotated])
      with 1 Suc.prems(2) show ?thesis by (simp add: load_finished load_reply_def cache_right_def)
    next
      case 2
      with Suc.prems(1,3) show ?thesis by (simp add: above_def)
    next
      case 3
      let ?Inv = "\<lambda>s. cache_right files s \<and> above files n s"
      have "?Inv (begin_load m s)"
        using Suc.prems(2) above_Suc [OF Suc.prems(3)] None
        by (simp add: cache_right_def above_def begin_load_def)
      moreover have "\<exists>s'. load_module shw files m s = Some (r, s') \<and> ?Inv s'"
        if "?Inv s" "uncached files n m () = Some (r, ())" for m s r
        using Suc.IH [OF that(2)] that(1) load_loaded above_loaded by metis
      moreover have "ExecFile (uncached files n) (files m) () = Some (r, ())"
        using Suc.prems(1) by simp
      ultimately obtain s1 where s1: "ExecFile (load_module shw files) (files m) (begin_load m s) = Some (r, s1)"
          "cache_right files s1"
        using ExecFile_simulates [of ?Inv files n "load_module shw files" "files m" r "begin_load m s"] by blast
      let ?e = "\<lparr>entry_globals = fst r, entry_err = snd r\<rparr>"
      have "load_module shw files m s = Some (load_reply shw m ?e (end_load m ?e s1))"
        using s1(1) by (cases r) (simp add: load_new [OF 3] Let_def)
      moreover have "fst (load_reply shw m ?e (end_load m ?e s1)) = r"
        by (simp add: load_reply_def)
      ultimately show ?thesis
        using cache_right_finished [OF s1(2) r] by (metis prod.collapse)
    qed
  qed
qed simp

lemma load_meaning:
  assumes "meaning files m r"
  shows "\<exists>s'. load_module shw files m loader_init = Some (r, s')"
proof -
  from assms obtain n where "uncached files n m () = Some (r, ())" by (auto simp: meaning_def)
  moreover have "cache_right files loader_init" "above files n loader_init"
    by (simp_all add: cache_right_def above_def loader_init_def)
  ultimately show ?thesis using load_deep by blast
qed

section \<open>Failing loads\<close>

text \<open>
  What Starlark says of load statements: a file whose load fails is not executed further and fails
  itself.
\<close>

primrec stops_on_error :: "'v script \<Rightarrow> bool" where
  "stops_on_error (Ends g err) = True"
| "stops_on_error (Loads m k) =
     (\<forall>r. (snd r \<noteq> None \<longrightarrow> (\<exists>g err. k r = Ends g (Some err))) \<and> stops_on_error (k r))"

lemma ExecFile_deeper:
  assumes "ExecFile (uncached files n) sc u = Some r" and "n \<le> k"
  shows "ExecFile (uncached files k) sc u = Some r"
proof -
  have "option_ord (uncached files n m u) (uncached files k m u)" for m u
    using uncached_mono [OF _ assms(2), of files m u]
    by (cases "uncached files n m u") (simp_all add: flat_ord_def)
  then have "option_ord (ExecFile (uncached files n) sc u) (ExecFile (uncached files k) sc u)"
    by (rule ExecFile_le)
  with assms(1) show ?thesis by (auto simp: flat_ord_def)
qed

text \<open>The finished entries that did not fail are what their modules mean.\<close>

definition successes_right :: "(string \<Rightarrow> 'v script) \<Rightarrow> 'v loader \<Rightarrow> bool" where
  "successes_right files s \<longleftrightarrow>
     (\<forall>m e. ld_cache s m = Some (Some e) \<longrightarrow> entry_err e = None \<longrightarrow> meaning files m (entry_globals e, None))"

definition right_load :: "(string \<Rightarrow> 'v script) \<Rightarrow> string \<Rightarrow> 'v loader \<Rightarrow> 'v load_result \<Rightarrow> 'v loader \<Rightarrow> bool" where
  "right_load files m s r s' \<longleftrightarrow>
     (successes_right files s \<longrightarrow> successes_right files s' \<and> (snd r = None \<longrightarrow> meaning files m r))"

lemma ExecFile_right:
  assumes "\<And>m s r s'. ld m s = Some (r, s') \<Longrightarrow> right_load files m s r s'"
    and "ExecFile ld sc s = Some (r, s')" and "stops_on_error sc" and "successes_right files s"
  shows "successes_right files s' \<and>
    (snd r = None \<longrightarrow> (\<exists>n. ExecFile (uncached files n) sc () = Some (r, ())))"
  using assms(2-4)
proof (induction sc arbitrary: s)
  case (Loads m k)
  from Loads.prems(1) obtain r1 s1 where l: "ld m s = Some (r1, s1)" "ExecFile ld (k r1) s1 = Some (r, s')"
    by (auto split: option.splits)
  have s1: "successes_right files s1" "snd r1 = None \<Longrightarrow> meaning files m r1"
    using assms(1) [OF l(1)] Loads.prems(3) by (simp_all add: right_load_def)
  have stop: "stops_on_error (k r1)" "snd r1 \<noteq> None \<Longrightarrow> \<exists>g err. k r1 = Ends g (Some err)"
    using Loads.prems(2) by (cases r1, auto)+
  from Loads.IH [OF _ l(2) stop(1) s1(1)]
  have IH: "successes_right files s'"
    "snd r = None \<Longrightarrow> \<exists>n. ExecFile (uncached files n) (k r1) () = Some (r, ())" by auto
  have "\<exists>n. ExecFile (uncached files n) (Loads m k) () = Some (r, ())" if "snd r = None"
  proof -
    have "snd r1 = None" using stop(2) l(2) that by (cases "snd r1 = None") auto
    with s1(2) obtain i where i: "uncached files i m () = Some (r1, ())" by (auto simp: meaning_def)
    from IH(2) [OF that] obtain j where j: "ExecFile (uncached files j) (k r1) () = Some (r, ())" by blast
    have "uncached files (max i j) m () = Some (r1, ())" using i by (rule uncached_mono) simp
    moreover have "ExecFile (uncached files (max i j)) (k r1) () = Some (r, ())"
      using j by (rule ExecFile_deeper) simp
    ultimately have "ExecFile (uncached files (max i j)) (Loads m k) () = Some (r, ())" by simp
    then show ?thesis by blast
  qed
  with IH(1) show ?case by blast
qed auto

lemma load_right:
  assumes "load_module shw files m s = Some (r, s')" and "\<forall>m. stops_on_error (files m)"
  shows "right_load files m s r s'"
  using assms(1)
proof (induction rule: load_induct)
  case (finished m s e)
  then show ?case by (auto simp: right_load_def successes_right_def load_reply_def)
next
  case (in_progress m s)
  then show ?case by (simp add: right_load_def)
next
  case (new ld m s g err s1)
  let ?e = "\<lparr>entry_globals = g, entry_err = err\<rparr>"
  show ?case
    unfolding right_load_def
  proof (intro impI)
    assume "successes_right files s"
    then have "successes_right files (begin_load m s)"
      by (simp add: successes_right_def begin_load_def)
    from ExecFile_right [OF new.IH new.hyps(2) _ this] assms(2)
    have s1: "successes_right files s1"
      "err = None \<Longrightarrow> \<exists>n. ExecFile (uncached files n) (files m) () = Some ((g, err), ())" by auto
    have m: "err = None \<Longrightarrow> meaning files m (g, err)"
      using s1(2) unfolding meaning_def by (metis uncached.simps(2))
    with s1(1) have "successes_right files (end_load m ?e s1)"
      by (auto simp: successes_right_def end_load_def)
    then show "successes_right files (snd (load_reply shw m ?e (end_load m ?e s1))) \<and>
        (snd (g, err) = None \<longrightarrow> meaning files m (g, err))"
      using m by (simp add: successes_right_def load_reply_def)
  qed
qed

lemma load_success_iff:
  assumes "\<forall>m. stops_on_error (files m)"
  shows "(\<exists>s'. load_module shw files m loader_init = Some ((g, None), s')) \<longleftrightarrow> meaning files m (g, None)"
proof
  assume "\<exists>s'. load_module shw files m loader_init = Some ((g, None), s')"
  then obtain s' where "load_module shw files m loader_init = Some ((g, None), s')" by blast
  from load_right [OF this assms] show "meaning files m (g, None)"
    by (simp add: right_load_def successes_right_def loader_init_def)
qed (rule load_meaning)

section \<open>Properties\<close>

text \<open>Two small sets of files: one where a module loads another, one where two load each other.\<close>

definition passes_on :: "string \<Rightarrow> 'v script" where
  "passes_on m = Loads m (\<lambda>r. case snd r of None \<Rightarrow> Ends (fst r) None | Some e \<Rightarrow> Ends Map.empty (Some e))"

definition sample_files :: "string \<Rightarrow> string script" where
  "sample_files m =
     (if m = ''evaluations/graphs/comparison.star'' then passes_on ''evaluations/graphs/eval.star''
      else Ends [''m'' \<mapsto> ''7''] None)"

definition cyclic_files :: "string \<Rightarrow> string script" where
  "cyclic_files m =
     (if m = ''evaluations/graphs/comparison.star'' then passes_on ''evaluations/graphs/eval.star''
      else passes_on ''evaluations/graphs/comparison.star'')"

lemma passes_on_stops: "stops_on_error (passes_on m)"
  by (simp add: passes_on_def split: option.splits)

lemma passes_on_loads: "script_loads (passes_on m) = {m}"
  by (auto simp: passes_on_def split: option.splits)

abbreviation star_modules :: "string set" where
  "star_modules \<equiv> {''evaluations/graphs/comparison.star'', ''evaluations/graphs/eval.star''}"

lemma sample_files_ok: "\<forall>m. stops_on_error (sample_files m)" "closed_modules sample_files star_modules"
  by (simp_all add: sample_files_def closed_modules_def passes_on_stops passes_on_loads)

lemma cyclic_files_ok: "\<forall>m. stops_on_error (cyclic_files m)" "closed_modules cyclic_files star_modules"
  by (simp_all add: cyclic_files_def closed_modules_def passes_on_stops passes_on_loads)

lemma cyclic_meaningless: "\<not> meaning cyclic_files m r"
proof -
  have "uncached cyclic_files n m () = None" for n
  proof (induction n arbitrary: m)
    case (Suc n)
    then show ?case by (simp add: cyclic_files_def passes_on_def)
  qed simp
  then show ?thesis by (simp add: meaning_def)
qed

text \<open>
  C21. Loading a module ends, cycles or not, when finitely many modules are reachable from it. On the
  way each file that was not executed or begun before is executed at most once and to its end, the
  module itself among them, and nothing else in the cache changes.
\<close>

theorem load_terminates:
  assumes "finite M" and "closed_modules files M" and "m \<in> M"
  shows "\<exists>r s' ms. load_module shw files m s = Some (r, s') \<and> loaded ms s s' \<and>
    (ld_cache s m = None \<longrightarrow> m \<in> set ms)"
proof -
  from load_returns [OF assms] obtain r s' where l: "load_module shw files m s = Some (r, s')" by blast
  obtain ms where "loaded ms s s' \<and> (ld_cache s m = None \<longrightarrow> m \<in> set ms)"
    using load_loaded [OF l] by (rule exE)
  with l show ?thesis by (intro exI [of _ r] exI [of _ s'] exI [of _ ms]) simp
qed

theorem load_terminates_witness:
  "\<exists>r s' ms. load_module id cyclic_files ''evaluations/graphs/comparison.star'' loader_init = Some (r, s') \<and>
    ld_executed s' = ms \<and> distinct ms"
  using load_terminates [OF _ cyclic_files_ok(2), of "''evaluations/graphs/comparison.star''" id loader_init]
  by (auto simp: loaded_def loader_init_def)

text \<open>
  C20. The cache and the cycle check are not seen in what a load gives: a module loads without an
  error exactly when executing its file and, again each time, the files it loads ends without one,
  and then with the same globals.
\<close>

theorem load_is_uncached:
  assumes "\<forall>m. stops_on_error (files m)"
  shows "(\<exists>s'. load_module shw files m loader_init = Some ((g, None), s')) \<longleftrightarrow> meaning files m (g, None)"
  using assms by (rule load_success_iff)

theorem load_is_uncached_witness:
  "\<exists>s'. load_module id sample_files ''evaluations/graphs/comparison.star'' loader_init =
     Some (([''m'' \<mapsto> ''7''], None), s')"
proof -
  have "uncached sample_files 2 ''evaluations/graphs/comparison.star'' () = Some (([''m'' \<mapsto> ''7''], None), ())"
    by (simp add: numeral_2_eq_2 sample_files_def passes_on_def)
  then have "meaning sample_files ''evaluations/graphs/comparison.star'' ([''m'' \<mapsto> ''7''], None)"
    unfolding meaning_def by blast
  then show ?thesis using load_is_uncached [OF sample_files_ok(1)] by blast
qed

text \<open>
  C38. A cycle in the load graph ends the program: when the comparison graph cannot be executed
  because its loads run into themselves, \<open>ImportEvaluationGraph\<close> does not run for ever but exits.
\<close>

theorem cycle_ends_program:
  assumes "\<forall>m. stops_on_error (files m)" and "finite M" and "closed_modules files M"
    and "''evaluations/graphs/comparison.star'' \<in> M"
    and "\<forall>g. \<not> meaning files ''evaluations/graphs/comparison.star'' (g, None)"
  shows "\<exists>out. ImportEvaluationGraph shw files = Some (Exited ''load failed'', out)"
proof -
  let ?m = "''evaluations/graphs/comparison.star''"
  from load_returns [OF assms(2-4)] obtain g err s' where
      l: "load_module shw files ?m loader_init = Some ((g, err), s')" by (metis prod.exhaust)
  with load_success_iff [OF assms(1), of shw ?m g] assms(5) obtain e where "err = Some e"
    by (cases err) auto
  with l show ?thesis by (simp add: ImportEvaluationGraph_def Load_def)
qed

theorem cycle_ends_program_witness:
  "\<exists>out. ImportEvaluationGraph id cyclic_files = Some (Exited ''load failed'', out)"
  by (rule cycle_ends_program [OF cyclic_files_ok(1) _ cyclic_files_ok(2)]) (simp_all add: cyclic_meaningless)

end
