(* ===== verification/Graph_Program.thy ===== *)
theory Graph_Program
  imports Module_Loader K8s_Model
begin

text \<open>
  \<open>loadEvalDefnition\<close> of \<open>pkg/egraph\<close>: the older way to run a graph file, with a built-in \<open>repeat\<close>, no
  loading of modules, and a listing of what the file left behind. The interpreter is the parameter of
  \<open>Module_Loader\<close>; the directory and the file are answers of the environment. The lines are those of the
  program; what the file itself prints comes in between.
\<close>

section \<open>repeat\<close>

text \<open>
  \<open>strings.Repeat\<close> panics for a negative count. (It also panics when the length of the result does
  not fit a Go \<open>int\<close>, before it is made; memory is not modelled.)
\<close>

definition strings_Repeat :: "string \<Rightarrow> int \<Rightarrow> string run" where
  "strings_Repeat s n =
     (if n < 0 then Panicked ''strings: negative Repeat count''
      else if int (length s) * n \<ge> 2 ^ 63 then Panicked ''strings: Repeat count causes overflow''
      else Value (concat (replicate (nat n) s)))"

text \<open>
  What \<open>starlark.UnpackArgs\<close> makes of the call's arguments: an error, or the string and the number
  when there is one.
\<close>

definition graph_repeat :: "go_error + string \<times> int option \<Rightarrow> (go_error + string) run" where
  "graph_repeat args =
     (case args of
        Inl err \<Rightarrow> Value (Inl err)
      | Inr (s, given) \<Rightarrow>
          (let n = (case given of None \<Rightarrow> 1 | Some n \<Rightarrow> n)
           in case strings_Repeat s n of
                Value r \<Rightarrow> Value (Inr r)
              | Panicked p \<Rightarrow> Panicked p
              | Exited m \<Rightarrow> Exited m))"

text \<open>The operation of the language the comment names, \<open>string * int\<close>: empty for a count that is not positive.\<close>

definition starlark_times :: "string \<Rightarrow> int \<Rightarrow> string" where
  "starlark_times s n = concat (replicate (nat n) s)"

section \<open>Running the file\<close>

text \<open>The thread's \<open>Load\<close> prints its format as it is and loads nothing, without an error.\<close>

definition graph_load :: "string \<Rightarrow> string list \<Rightarrow> ('v load_result \<times> string list) option" where
  "graph_load module lines = Some ((Map.empty, None), lines @ [''Loading %v '' @ module])"

text \<open>What \<open>EvalError\<close>s carry beside their text.\<close>

record 'v graph_answers =
  ga_script :: "string \<Rightarrow> 'v script"
  ga_backtrace :: "go_error \<Rightarrow> string option"
  ga_dir :: "go_error + string list"
  ga_file :: "string \<Rightarrow> go_error + string"

fun global_lines :: "('v \<Rightarrow> string \<times> string) \<Rightarrow> 'v globals \<Rightarrow> string list \<Rightarrow> string list" where
  "global_lines shw g [] = []"
| "global_lines shw g (name # names) =
     (case g name of
        None \<Rightarrow> global_lines shw g names
      | Some v \<Rightarrow>
          (name @ '' ('' @ fst (shw v) @ '') = '' @ snd (shw v)) # global_lines shw g names)"

text \<open>\<open>Keys\<close> gives the names in order; \<open>names\<close> is that list.\<close>

definition graph_path :: string where
  "graph_path = ''evaluations/graphs/comparison.star''"

definition loadEvalDefnition ::
    "('v \<Rightarrow> string \<times> string) \<Rightarrow> 'v graph_answers \<Rightarrow> ('v globals \<Rightarrow> string list) \<Rightarrow>
     (unit run \<times> string list) option" where
  "loadEvalDefnition shw ans keys =
     (case ExecFile graph_load (ga_script ans graph_path) [''------------------''] of
        None \<Rightarrow> None
      | Some ((globals, err), lines) \<Rightarrow>
          (let lines = lines @ [''done exec'']
           in Some
                (case err of
                   Some e \<Rightarrow>
                     (case ga_backtrace ans e of
                        Some trace \<Rightarrow> (Exited trace, lines)
                      | None \<Rightarrow> (Exited (error_text e), lines))
                 | None \<Rightarrow>
                     (let lines = lines @ [''------------------'']
                      in case ga_dir ans of
                           Inl e \<Rightarrow> (Exited (error_text e), lines)
                         | Inr names \<Rightarrow>
                             (Value (),
                              lines @ names @
                              (case ga_file ans graph_path of
                                 Inl e \<Rightarrow> [''Failure  '' @ error_text e]
                               | Inr content \<Rightarrow> [''Success'', content]) @
                              [[], ''Globals:''] @ global_lines shw globals (keys globals))))))"

text \<open>It always ends: nothing is loaded.\<close>

lemma ExecFile_graph: "\<exists>r lines'. ExecFile graph_load sc lines = Some (r, lines')"
  by (induction sc arbitrary: lines) (auto simp: graph_load_def)

lemma loadEvalDefnition_ends: "loadEvalDefnition shw ans keys \<noteq> None"
  using ExecFile_graph [of "ga_script ans graph_path" "[''------------------'']"]
  by (auto simp: loadEvalDefnition_def Let_def split: prod.splits)

text \<open>Every global is listed once, under the order of its names.\<close>

lemma global_lines_complete:
  assumes "set (keys g) = dom g"
  shows "length (global_lines shw g (keys g)) = length (keys g)"
proof -
  have "set ks \<subseteq> dom g \<Longrightarrow> length (global_lines shw g ks) = length ks" for ks
    by (induction ks) auto
  with assms show ?thesis by simp
qed

section \<open>repeat is not the language's operation\<close>

text \<open>
  \<open>repeat\<close> agrees with the operation it is meant to behave like exactly for counts that are not
  negative and whose result has a length that fits a Go \<open>int\<close>; for any other count it does not return
  to the interpreter but panics, and ends the program.
\<close>

theorem repeat_is_times_iff:
  "(graph_repeat (Inr (s, Some n)) = Value (Inr (starlark_times s n)) \<longleftrightarrow> 0 \<le> n \<and> int (length s) * n < 2 ^ 63) \<and>
   (returns (graph_repeat (Inr (s, Some n))) \<longleftrightarrow> 0 \<le> n \<and> int (length s) * n < 2 ^ 63)"
  by (auto simp: graph_repeat_def strings_Repeat_def starlark_times_def Let_def)

end
