(* ===== verification/Object_Sizes.thy ===== *)
theory Object_Sizes
  imports Go_Prelude "HOL-Library.Word"
begin

text \<open>
  \<open>pkg/sizeof\<close>: the size of a Go object with everything behind its pointers, slices and maps. What
  reflection shows of an object is a tree whose references go through a heap: a pointer has an
  address, the elements of a slice and the entries of a map belong to its identity. Sizes are those
  of a 64-bit platform, and \<open>uintptr\<close> wraps around.
\<close>

section \<open>What reflection shows\<close>

type_synonym uintptr = "64 word"

text \<open>
  A value by its kind: a pointer with its address (0 for nil) and the type it points to, a slice with
  its capacity, a map with the sizes of its key and element types, a struct with its size and its
  fields, a string with its length, and any other kind, of which only the size is read.
\<close>

datatype gvalue =
    GPtr nat string
  | GSlice nat nat
  | GMap nat nat nat
  | GStruct nat "gvalue list"
  | GString nat
  | GOther nat

text \<open>
  Behind the references: the object of a type at an address (a struct and its first field share
  one), the elements of a slice up to its length, the entries of a map in the order \<open>MapKeys\<close> gives.
\<close>

record heap =
  hp_elem :: "nat \<Rightarrow> string \<Rightarrow> gvalue"
  hp_slice :: "nat \<Rightarrow> gvalue list"
  hp_map :: "nat \<Rightarrow> (gvalue \<times> gvalue) list"

fun type_size :: "gvalue \<Rightarrow> nat" where
  "type_size (GPtr p t) = 8"
| "type_size (GSlice i c) = 24"
| "type_size (GMap i zk zv) = 8"
| "type_size (GStruct n fs) = n"
| "type_size (GString l) = 16"
| "type_size (GOther n) = n"

text \<open>
  The estimated number of buckets: two to the least integer not below the logarithm of \<open>n / 6.5\<close>, and
  one when that is less than one. The logarithm is taken exactly here.
\<close>

function bucket_loop :: "nat \<Rightarrow> nat \<Rightarrow> nat" where
  "bucket_loop nb n = (if nb = 0 \<or> 2 * n \<le> 13 * nb then nb else bucket_loop (2 * nb) n)"
  by pat_completeness auto
termination by (relation "measure (\<lambda>(nb, n). 2 * n - 13 * nb)") auto

declare bucket_loop.simps [simp del]

definition map_buckets :: "nat \<Rightarrow> nat" where
  "map_buckets n = bucket_loop 1 n"

section \<open>The recursion\<close>

type_synonym sizer = "gvalue \<Rightarrow> nat set \<Rightarrow> (uintptr \<times> nat set) option"

text \<open>The loop over elements: \<open>base\<close> grows by the size of each.\<close>

primrec add_sizes :: "sizer \<Rightarrow> gvalue list \<Rightarrow> uintptr \<Rightarrow> nat set \<Rightarrow> (uintptr \<times> nat set) option" where
  "add_sizes sz [] base seen = Some (base, seen)"
| "add_sizes sz (v # vs) base seen =
     Option.bind (sz v seen) (\<lambda>(n, seen1). add_sizes sz vs (base + n) seen1)"

text \<open>The loop over the fields of a struct, which follows pointers and slices only.\<close>

primrec add_fields ::
    "heap \<Rightarrow> sizer \<Rightarrow> gvalue list \<Rightarrow> uintptr \<Rightarrow> nat set \<Rightarrow> (uintptr \<times> nat set) option" where
  "add_fields hp sz [] base seen = Some (base, seen)"
| "add_fields hp sz (f # fs) base seen =
     (case f of
        GPtr p t \<Rightarrow>
          if p \<notin> seen \<and> p \<noteq> 0
          then Option.bind (sz (hp_elem hp p t) (insert p seen))
            (\<lambda>(n, seen1). add_fields hp sz fs (base + n) seen1)
          else add_fields hp sz fs base seen
      | GSlice i c \<Rightarrow>
          Option.bind (sz f seen) (\<lambda>(n, seen1). add_fields hp sz fs (base + n) seen1)
      | _ \<Rightarrow> add_fields hp sz fs base seen)"

lemma add_sizes_mono [partial_function_mono]:
  assumes "\<And>v seen. mono_option (\<lambda>f. sz f v seen)"
  shows "mono_option (\<lambda>f. add_sizes (sz f) vs base seen)"
proof (induction vs arbitrary: base seen)
  case Nil
  then show ?case by (simp add: option.const_mono)
next
  case (Cons v vs)
  have "mono_option (\<lambda>f. Option.bind (sz f v seen) (\<lambda>y. case y of (n, seen1) \<Rightarrow> add_sizes (sz f) vs (base + n) seen1))"
    by (rule bind_mono [OF assms]) (use Cons.IH in \<open>auto split: prod.split\<close>)
  then show ?case by simp
qed

lemma add_fields_mono [partial_function_mono]:
  assumes "\<And>v seen. mono_option (\<lambda>f. sz f v seen)"
  shows "mono_option (\<lambda>f. add_fields hp (sz f) fs base seen)"
proof (induction fs arbitrary: base seen)
  case Nil
  then show ?case by (simp add: option.const_mono)
next
  case (Cons x fs)
  have "mono_option (\<lambda>f. Option.bind (sz f v s) (\<lambda>y. case y of (n, seen1) \<Rightarrow> add_fields hp (sz f) fs (base + n) seen1))"
    for v s
    by (rule bind_mono [OF assms]) (use Cons.IH in \<open>auto split: prod.split\<close>)
  note step = this
  show ?case
  proof (cases x)
    case (GPtr p t)
    with Cons.IH step show ?thesis by (cases "p \<notin> seen \<and> p \<noteq> 0") auto
  qed (use Cons.IH step in simp_all)
qed

partial_function (option) valueSize :: "heap \<Rightarrow> gvalue \<Rightarrow> nat set \<Rightarrow> (uintptr \<times> nat set) option" where
  "valueSize hp v seen =
     (case v of
        GPtr p t \<Rightarrow>
          if p \<notin> seen \<and> p \<noteq> 0
          then Option.bind (valueSize hp (hp_elem hp p t) (insert p seen))
            (\<lambda>(n, seen1). Some (of_nat (type_size v) + n, seen1))
          else Some (of_nat (type_size v), seen)
      | GSlice i c \<Rightarrow>
          Option.bind (add_sizes (\<lambda>w s. valueSize hp w s) (hp_slice hp i) (of_nat (type_size v)) seen)
            (\<lambda>(base, seen1).
               let n = length (hp_slice hp i)
               in Some (if c > n then base + of_nat (type_size v) * of_nat (c - n) else base, seen1))
      | GMap i zk zv \<Rightarrow>
          let n = length (hp_map hp i);
              nb = of_nat (map_buckets n) :: uintptr;
              nb = (if nb = 0 then 1 else nb)
          in Option.bind (add_sizes (\<lambda>w s. valueSize hp w s)
                 (concat (map (\<lambda>(key, el). [key, el]) (hp_map hp i))) (16 * nb) seen)
               (\<lambda>(base, seen1). Some (base + (8 * nb - of_nat n) * (of_nat zk + of_nat zv), seen1))
      | GStruct k fs \<Rightarrow> add_fields hp (\<lambda>w s. valueSize hp w s) fs (of_nat (type_size v)) seen
      | GString l \<Rightarrow> Some (of_nat (type_size v) + of_nat l, seen)
      | GOther k \<Rightarrow> Some (of_nat (type_size v), seen))"

text \<open>\<open>DeepSize\<close>: reflecting on a nil interface gives the zero \<open>Value\<close>, which has no type.\<close>

definition DeepSize :: "heap \<Rightarrow> gvalue option \<Rightarrow> int run option" where
  "DeepSize hp v =
     (case v of
        None \<Rightarrow> Some (Panicked ''call of reflect.Value.Type on zero Value'')
      | Some v \<Rightarrow> map_option (\<lambda>(n, seen). Value (sint n)) (valueSize hp v {}))"

lemma valueSize_simps:
  "valueSize hp (GString l) seen = Some (16 + of_nat l, seen)"
  "valueSize hp (GOther n) seen = Some (of_nat n, seen)"
  "valueSize hp (GStruct n fs) seen = add_fields hp (valueSize hp) fs (of_nat n) seen"
  "p \<in> seen \<or> p = 0 \<Longrightarrow> valueSize hp (GPtr p t) seen = Some (8, seen)"
  "p \<notin> seen \<Longrightarrow> p \<noteq> 0 \<Longrightarrow> valueSize hp (GPtr p t) seen =
     Option.bind (valueSize hp (hp_elem hp p t) (insert p seen)) (\<lambda>(n, seen1). Some (8 + n, seen1))"
  by (subst valueSize.simps, auto)+

lemma valueSize_slice:
  "valueSize hp (GSlice i c) seen =
     Option.bind (add_sizes (valueSize hp) (hp_slice hp i) 24 seen)
       (\<lambda>(base, seen1).
          let n = length (hp_slice hp i)
          in Some (if c > n then base + 24 * of_nat (c - n) else base, seen1))"
  by (subst valueSize.simps) (simp add: Let_def cong: if_cong)

text \<open>What the recursion goes on to from a value without a pointer in between.\<close>

fun parts :: "heap \<Rightarrow> gvalue \<Rightarrow> gvalue list" where
  "parts hp (GSlice i c) = hp_slice hp i"
| "parts hp (GMap i zk zv) = concat (map (\<lambda>(key, el). [key, el]) (hp_map hp i))"
| "parts hp (GStruct n fs) = fs"
| "parts hp v = []"

section \<open>The recursion ends\<close>

text \<open>
  A finite graph of objects: \<open>V\<close> is closed under parts and pointers, the pointers in it have finitely
  many addresses, and no slice, map or struct is part of itself.
\<close>

definition object_graph :: "heap \<Rightarrow> gvalue set \<Rightarrow> nat set \<Rightarrow> (gvalue \<Rightarrow> nat) \<Rightarrow> bool" where
  "object_graph hp V A rank \<longleftrightarrow>
     finite A \<and>
     (\<forall>v \<in> V. \<forall>w \<in> set (parts hp v). w \<in> V \<and> rank w < rank v) \<and>
     (\<forall>p t. GPtr p t \<in> V \<longrightarrow> p \<noteq> 0 \<longrightarrow> p \<in> A \<and> hp_elem hp p t \<in> V)"

lemma add_sizes_returns:
  assumes "\<And>v s. v \<in> set vs \<Longrightarrow> S \<subseteq> s \<Longrightarrow> \<exists>n s'. sz v s = Some (n, s') \<and> s \<subseteq> s'"
    and "S \<subseteq> seen"
  shows "\<exists>n s'. add_sizes sz vs base seen = Some (n, s') \<and> seen \<subseteq> s'"
  using assms
proof (induction vs arbitrary: base seen)
  case (Cons v vs)
  have "v \<in> set (v # vs)" by simp
  from Cons.prems(1) [OF this Cons.prems(2)] obtain n s1 where
      s1: "sz v seen = Some (n, s1)" "seen \<subseteq> s1" by blast
  with Cons.prems(2) have "S \<subseteq> s1" by blast
  moreover have "\<exists>n s'. sz w s = Some (n, s') \<and> s \<subseteq> s'" if "w \<in> set vs" "S \<subseteq> s" for w s
    using Cons.prems(1) [of w s] that by simp
  ultimately obtain k s2 where "add_sizes sz vs (base + n) s1 = Some (k, s2)" "s1 \<subseteq> s2"
    using Cons.IH [of s1 "base + n"] by blast
  with s1 show ?case by auto
qed simp

lemma add_fields_returns:
  assumes "\<And>v s. v \<in> set fs \<Longrightarrow> S \<subseteq> s \<Longrightarrow> \<exists>n s'. sz v s = Some (n, s') \<and> s \<subseteq> s'"
    and "\<And>p t s. GPtr p t \<in> set fs \<Longrightarrow> p \<noteq> 0 \<Longrightarrow> p \<notin> s \<Longrightarrow> S \<subseteq> s \<Longrightarrow>
      \<exists>n s'. sz (hp_elem hp p t) (insert p s) = Some (n, s') \<and> insert p s \<subseteq> s'"
    and "S \<subseteq> seen"
  shows "\<exists>n s'. add_fields hp sz fs base seen = Some (n, s') \<and> seen \<subseteq> s'"
  using assms
proof (induction fs arbitrary: base seen)
  case (Cons f fs)
  have rest: "\<exists>n s'. add_fields hp sz fs b s = Some (n, s') \<and> s \<subseteq> s'" if "S \<subseteq> s" for b s
    using Cons.IH [OF _ _ that] Cons.prems(1,2) by auto
  show ?case
  proof (cases f)
    case (GPtr p t)
    show ?thesis
    proof (cases "p \<notin> seen \<and> p \<noteq> 0")
      case True
      then obtain n s1 where s1: "sz (hp_elem hp p t) (insert p seen) = Some (n, s1)" "insert p seen \<subseteq> s1"
        using Cons.prems(2) [of p t seen] Cons.prems(3) GPtr by auto
      with Cons.prems(3) have "S \<subseteq> s1" by blast
      with rest obtain k s2 where "add_fields hp sz fs (base + n) s1 = Some (k, s2)" "s1 \<subseteq> s2" by blast
      with s1 True GPtr show ?thesis by auto
    next
      case False
      with GPtr rest [OF Cons.prems(3)] show ?thesis by auto
    qed
  next
    case (GSlice i c)
    obtain n s1 where s1: "sz f seen = Some (n, s1)" "seen \<subseteq> s1"
      using Cons.prems(1) [of f seen] Cons.prems(3) by auto
    with Cons.prems(3) have "S \<subseteq> s1" by blast
    with rest obtain k s2 where "add_fields hp sz fs (base + n) s1 = Some (k, s2)" "s1 \<subseteq> s2" by blast
    with s1 GSlice show ?thesis by auto
  qed (use rest [OF Cons.prems(3)] in simp_all)
qed simp

lemma bind_returns:
  "\<exists>n s'. x = Some (n, s') \<and> S \<subseteq> s' \<Longrightarrow>
    \<exists>n s'. Option.bind x (\<lambda>(n, s1). Some (f n, s1)) = Some (n, s') \<and> S \<subseteq> s'"
  by auto

lemma valueSize_returns:
  assumes "object_graph hp V A rank" and "v \<in> V"
  shows "\<exists>n s'. valueSize hp v seen = Some (n, s') \<and> seen \<subseteq> s'"
  using assms(2)
proof (induction "(card (A - seen), rank v)" arbitrary: v seen
    rule: wf_induct_rule [OF wf_lex_prod [OF wf_less_than wf_less_than]])
  case (1 v seen)
  have finite: "finite A" and parts: "\<And>w. w \<in> set (parts hp v) \<Longrightarrow> w \<in> V \<and> rank w < rank v"
    and target: "\<And>p t. GPtr p t \<in> V \<Longrightarrow> p \<noteq> 0 \<Longrightarrow> p \<in> A \<and> hp_elem hp p t \<in> V"
    using assms(1) 1(2) by (auto simp: object_graph_def)
  have part: "\<exists>n s'. valueSize hp w s = Some (n, s') \<and> s \<subseteq> s'"
    if "w \<in> set (parts hp v)" "seen \<subseteq> s" for w s
  proof (rule 1(1))
    have "card (A - s) \<le> card (A - seen)" using that(2) finite by (intro card_mono) auto
    with parts [OF that(1)] show "((card (A - s), rank w), card (A - seen), rank v) \<in> less_than <*lex*> less_than"
      by auto
  qed (use parts [OF that(1)] in simp)
  have follow: "\<exists>n s'. valueSize hp (hp_elem hp p t) (insert p s) = Some (n, s') \<and> insert p s \<subseteq> s'"
    if "GPtr p t \<in> V" "p \<noteq> 0" "p \<notin> s" "seen \<subseteq> s" for p t s
  proof (rule 1(1))
    have "A - insert p s \<subset> A - seen" using target [OF that(1,2)] that(3,4) by auto
    then have "card (A - insert p s) < card (A - seen)" using finite by (simp add: psubset_card_mono)
    then show "((card (A - insert p s), rank (hp_elem hp p t)), card (A - seen), rank v) \<in>
        less_than <*lex*> less_than" by simp
  qed (use target [OF that(1,2)] in simp)
  show ?case
  proof (cases v)
    case (GPtr p t)
    show ?thesis
    proof (cases "p \<notin> seen \<and> p \<noteq> 0")
      case True
      with follow [of p t seen] 1(2) GPtr show ?thesis by (auto simp: valueSize_simps)
    next
      case False
      with GPtr show ?thesis by (auto simp: valueSize_simps)
    qed
  next
    case (GSlice i c)
    with part have "\<exists>n s'. add_sizes (valueSize hp) (hp_slice hp i) 24 seen = Some (n, s') \<and> seen \<subseteq> s'"
      by (intro add_sizes_returns [of _ seen]) auto
    with GSlice show ?thesis by (auto simp: valueSize_slice Let_def)
  next
    case (GMap i zk zv)
    with part have "\<exists>n s'. add_sizes (valueSize hp) (concat (map (\<lambda>(key, el). [key, el]) (hp_map hp i))) b seen =
        Some (n, s') \<and> seen \<subseteq> s'" for b
      by (intro add_sizes_returns [of _ seen]) auto
    then show ?thesis unfolding GMap by (subst valueSize.simps) (simp add: Let_def, intro conjI impI bind_returns)
  next
    case (GStruct n fs)
    have "\<exists>k s'. add_fields hp (valueSize hp) fs (of_nat n) seen = Some (k, s') \<and> seen \<subseteq> s'"
    proof (rule add_fields_returns [of _ seen])
      fix p t s
      assume "GPtr p t \<in> set fs" "p \<noteq> 0" "p \<notin> s" "seen \<subseteq> s"
      with follow [of p t s] parts GStruct
      show "\<exists>n s'. valueSize hp (hp_elem hp p t) (insert p s) = Some (n, s') \<and> insert p s \<subseteq> s'" by auto
    qed (use part GStruct in auto)
    with GStruct show ?thesis by (simp add: valueSize_simps)
  qed (simp_all add: valueSize_simps)
qed

section \<open>Every object once\<close>

text \<open>
  Linked structures: structs whose fields are pointers to such structs and flat values. \<open>obj\<close> is the
  struct at an address.
\<close>

fun fields_of :: "gvalue \<Rightarrow> gvalue list" where
  "fields_of (GStruct n fs) = fs"
| "fields_of v = []"

definition succs :: "(nat \<Rightarrow> gvalue) \<Rightarrow> nat \<Rightarrow> nat set" where
  "succs obj p = {q. q \<noteq> 0 \<and> (\<exists>t. GPtr q t \<in> set (fields_of (obj p)))}"

definition reach :: "(nat \<Rightarrow> gvalue) \<Rightarrow> nat \<Rightarrow> nat set" where
  "reach obj p = {(a, b). b \<in> succs obj a}\<^sup>* `` {p}"

fun linked_field :: "heap \<Rightarrow> (nat \<Rightarrow> gvalue) \<Rightarrow> gvalue \<Rightarrow> bool" where
  "linked_field hp obj (GPtr p t) = (p = 0 \<or> hp_elem hp p t = obj p)"
| "linked_field hp obj (GString l) = True"
| "linked_field hp obj (GOther n) = True"
| "linked_field hp obj v = False"

definition linked_object :: "heap \<Rightarrow> (nat \<Rightarrow> gvalue) \<Rightarrow> nat \<Rightarrow> bool" where
  "linked_object hp obj p \<longleftrightarrow>
     (\<exists>n fs. obj p = GStruct n fs \<and> (\<forall>f \<in> set fs. linked_field hp obj f))"

definition object_size :: "(nat \<Rightarrow> gvalue) \<Rightarrow> nat \<Rightarrow> nat" where
  "object_size obj p = type_size (obj p)"

text \<open>From \<open>s\<close> to \<open>s'\<close> the new objects are counted and everything they point to was seen.\<close>

definition counted :: "(nat \<Rightarrow> gvalue) \<Rightarrow> nat set \<Rightarrow> nat set \<Rightarrow> nat set \<Rightarrow> uintptr \<Rightarrow> bool" where
  "counted obj A s s' n \<longleftrightarrow>
     s \<subseteq> s' \<and> s' - s \<subseteq> A \<and> (\<forall>q \<in> s' - s. succs obj q \<subseteq> s') \<and>
     n = (\<Sum>q \<in> s' - s. of_nat (object_size obj q))"

lemma counted_refl: "counted obj A s s 0"
  by (simp add: counted_def)

lemma counted_trans:
  assumes "finite A" and "counted obj A s s1 n" and "counted obj A s1 s2 k"
  shows "counted obj A s s2 (n + k)"
proof -
  have fin: "finite (s1 - s)" "finite (s2 - s1)"
    using assms by (auto simp: counted_def intro: finite_subset)
  have split: "s2 - s = (s1 - s) \<union> (s2 - s1)" "(s1 - s) \<inter> (s2 - s1) = {}"
    using assms(2,3) by (auto simp: counted_def)
  have "(\<Sum>q \<in> s2 - s. of_nat (object_size obj q) :: uintptr) = n + k"
    using assms(2,3) fin split(2) unfolding split(1) by (simp add: sum.union_disjoint counted_def)
  moreover have "succs obj q \<subseteq> s2" if "q \<in> s2 - s" for q
    using that assms(2,3) unfolding split(1) counted_def by blast
  ultimately show ?thesis using assms(2,3) by (auto simp: counted_def)
qed

lemma counted_visit:
  assumes "finite A" and "p \<in> A" and "p \<notin> s" and "counted obj A (insert p s) s' n"
    and "succs obj p \<subseteq> s'"
  shows "counted obj A s s' (of_nat (object_size obj p) + n)"
proof -
  have e: "s' - s = insert p (s' - insert p s)" using assms(3,4) by (auto simp: counted_def)
  have fin: "finite (s' - insert p s)"
    using assms(4) by (intro finite_subset [OF _ assms(1)]) (simp add: counted_def)
  have "(\<Sum>q \<in> s' - s. of_nat (object_size obj q) :: uintptr) = of_nat (object_size obj p) + n"
    unfolding e using assms(4) by (subst sum.insert [OF fin]) (simp_all add: counted_def)
  moreover have "succs obj q \<subseteq> s'" if "q \<in> s' - s" for q
    using that assms(4,5) unfolding e counted_def by blast
  ultimately show ?thesis using assms by (auto simp: counted_def)
qed

lemma add_fields_counted:
  assumes "finite A"
    and sz: "\<And>p t s n s'. sz (hp_elem hp p t) (insert p s) = Some (n, s') \<Longrightarrow> hp_elem hp p t = obj p \<Longrightarrow>
      p \<in> A \<Longrightarrow> p \<notin> s \<Longrightarrow> counted obj A s s' n \<and> p \<in> s'"
    and "add_fields hp sz fs base s = Some (n, s')"
    and "\<forall>f \<in> set fs. linked_field hp obj f" and "\<And>q t. GPtr q t \<in> set fs \<Longrightarrow> q \<noteq> 0 \<Longrightarrow> q \<in> A"
  shows "\<exists>k. n = base + k \<and> counted obj A s s' k \<and> (\<forall>q t. GPtr q t \<in> set fs \<longrightarrow> q \<noteq> 0 \<longrightarrow> q \<in> s')"
  using assms(3-5)
proof (induction fs arbitrary: base s)
  case Nil
  then show ?case using counted_refl by auto
next
  case (Cons f fs)
  show ?case
  proof (cases "\<exists>p t. f = GPtr p t \<and> p \<notin> s \<and> p \<noteq> 0")
    case True
    then obtain p t where f: "f = GPtr p t" "p \<notin> s" "p \<noteq> 0" by blast
    with Cons.prems(1) obtain n1 s1 where s1: "sz (hp_elem hp p t) (insert p s) = Some (n1, s1)"
        "add_fields hp sz fs (base + n1) s1 = Some (n, s')" by (auto simp: bind_eq_Some_conv)
    have "hp_elem hp p t = obj p" "p \<in> A" using Cons.prems(2,3) f by auto
    with sz [OF s1(1)] f(2) have c1: "counted obj A s s1 n1" "p \<in> s1" by simp_all
    from Cons.IH [OF s1(2)] Cons.prems(2,3) obtain k where k: "n = base + n1 + k" "counted obj A s1 s' k"
        "\<forall>q t. GPtr q t \<in> set fs \<longrightarrow> q \<noteq> 0 \<longrightarrow> q \<in> s'" by auto
    have "p \<in> s'" using c1(2) k(2) by (auto simp: counted_def)
    with k f counted_trans [OF assms(1) c1(1) k(2)] show ?thesis
      by (intro exI [of _ "n1 + k"]) (auto simp: add.assoc)
  next
    case False
    then have "add_fields hp sz fs base s = Some (n, s')"
      using Cons.prems(1,2) by (cases f) (auto split: if_splits)
    from Cons.IH [OF this] Cons.prems(2,3) obtain k where k: "n = base + k" "counted obj A s s' k"
        "\<forall>q t. GPtr q t \<in> set fs \<longrightarrow> q \<noteq> 0 \<longrightarrow> q \<in> s'" by auto
    moreover have "q \<in> s'" if "f = GPtr q t" "q \<noteq> 0" for q t
      using that False k(2) by (auto simp: counted_def)
    ultimately show ?thesis by (intro exI [of _ k]) auto
  qed
qed

text \<open>The addresses of one linked structure.\<close>

definition linked_structure :: "heap \<Rightarrow> (nat \<Rightarrow> gvalue) \<Rightarrow> nat set \<Rightarrow> bool" where
  "linked_structure hp obj A \<longleftrightarrow>
     finite A \<and> 0 \<notin> A \<and> (\<forall>p \<in> A. linked_object hp obj p \<and> succs obj p \<subseteq> A)"

lemma valueSize_counted:
  assumes "linked_structure hp obj A" and "valueSize hp (obj p) (insert p s) = Some (n, s')"
    and "p \<in> A" and "p \<notin> s"
  shows "counted obj A s s' n \<and> p \<in> s'"
proof -
  let ?Q = "\<lambda>hp' v seen y. hp' = hp \<longrightarrow> (\<forall>p s. v = obj p \<longrightarrow> seen = insert p s \<longrightarrow> p \<in> A \<longrightarrow> p \<notin> s \<longrightarrow>
    counted obj A s (snd y) (fst y) \<and> p \<in> snd y)"
  have "?Q hp (obj p) (insert p s) (n, s')"
  proof (rule valueSize.raw_induct [where P = ?Q, OF _ assms(2)], intro impI allI)
    fix sz hp' v seen y p s
    assume IH: "\<And>hp v seen y. sz hp v seen = Some y \<Longrightarrow> ?Q hp v seen y"
      and eqs: "hp' = hp" "v = obj p" "seen = insert p s" and p: "p \<in> A" "p \<notin> s"
    from assms(1) p(1) obtain k fs where obj: "obj p = GStruct k fs"
        and fs: "\<forall>f \<in> set fs. linked_field hp obj f" "succs obj p \<subseteq> A" and "finite A"
      by (auto simp: linked_structure_def linked_object_def)
    have field: "counted obj A s s' n \<and> p \<in> s'"
      if "sz hp (hp_elem hp p t) (insert p s) = Some (n, s')" "hp_elem hp p t = obj p" "p \<in> A" "p \<notin> s"
      for p t s n s'
      using IH [OF that(1)] that(2-4) by auto
    assume "(case v of
        GPtr p t \<Rightarrow>
          if p \<notin> seen \<and> p \<noteq> 0
          then Option.bind (sz hp' (hp_elem hp' p t) (insert p seen))
            (\<lambda>(n, seen1). Some (of_nat (type_size v) + n, seen1))
          else Some (of_nat (type_size v), seen)
      | GSlice i c \<Rightarrow>
          Option.bind (add_sizes (sz hp') (hp_slice hp' i) (of_nat (type_size v)) seen)
            (\<lambda>(base, seen1).
               let n = length (hp_slice hp' i)
               in Some (if c > n then base + of_nat (type_size v) * of_nat (c - n) else base, seen1))
      | GMap i zk zv \<Rightarrow>
          let n = length (hp_map hp' i);
              nb = of_nat (map_buckets n) :: uintptr;
              nb = (if nb = 0 then 1 else nb)
          in Option.bind (add_sizes (sz hp')
                 (concat (map (\<lambda>(key, el). [key, el]) (hp_map hp' i))) (16 * nb) seen)
               (\<lambda>(base, seen1). Some (base + (8 * nb - of_nat n) * (of_nat zk + of_nat zv), seen1))
      | GStruct k fs \<Rightarrow> add_fields hp' (sz hp') fs (of_nat (type_size v)) seen
      | GString l \<Rightarrow> Some (of_nat (type_size v) + of_nat l, seen)
      | GOther k \<Rightarrow> Some (of_nat (type_size v), seen)) = Some y"
    then have y: "add_fields hp (sz hp) fs (of_nat k) (insert p s) = Some (fst y, snd y)"
      using eqs obj by simp
    have "\<exists>n. fst y = of_nat k + n \<and> counted obj A (insert p s) (snd y) n \<and>
        (\<forall>q t. GPtr q t \<in> set fs \<longrightarrow> q \<noteq> 0 \<longrightarrow> q \<in> snd y)"
    proof (rule add_fields_counted [where sz = "sz hp", OF \<open>finite A\<close> _ y fs(1)])
      show "q \<in> A" if "GPtr q t \<in> set fs" "q \<noteq> 0" for q t
        using that fs(2) obj by (auto simp: succs_def)
    qed (rule field)
    then obtain n where n: "fst y = of_nat k + n" "counted obj A (insert p s) (snd y) n"
          "\<forall>q t. GPtr q t \<in> set fs \<longrightarrow> q \<noteq> 0 \<longrightarrow> q \<in> snd y" by auto
    have "succs obj p \<subseteq> snd y" using n(3) obj by (auto simp: succs_def)
    from counted_visit [OF \<open>finite A\<close> p n(2) this] n(1,2) obj
    show "counted obj A s (snd y) (fst y) \<and> p \<in> snd y"
      by (auto simp: object_size_def counted_def)
  qed
  with assms(3,4) show ?thesis by simp
qed

lemma linked_graph:
  assumes "linked_structure hp obj A" and "p \<in> A" and "hp_elem hp p t = obj p"
  shows "object_graph hp (insert (GPtr p t) (obj ` A \<union> (\<Union>q \<in> A. set (fields_of (obj q))))) A
    (\<lambda>v. case v of GStruct n fs \<Rightarrow> 1 | _ \<Rightarrow> 0)"
proof -
  have obj: "\<exists>n fs. obj q = GStruct n fs \<and> (\<forall>f \<in> set fs. linked_field hp obj f) \<and> succs obj q \<subseteq> A" if "q \<in> A" for q
    using assms(1) that by (auto simp: linked_structure_def linked_object_def)
  have linked: "linked_field hp obj f" if "q \<in> A" "f \<in> set (fields_of (obj q))" for q f
    using obj [OF that(1)] that(2) by auto
  have flat: "parts hp f = []" if "q \<in> A" "f \<in> set (fields_of (obj q))" for q f
    using linked [OF that] by (cases f) auto
  have struct: "parts hp (obj q) = fields_of (obj q)" if "q \<in> A" for q
    using obj [OF that] by auto
  have less: "(case f of GStruct n fs \<Rightarrow> 1 | _ \<Rightarrow> 0) < (case obj q of GStruct n fs \<Rightarrow> (1::nat) | _ \<Rightarrow> 0)"
    if "q \<in> A" "f \<in> set (fields_of (obj q))" for q f
    using linked [OF that] obj [OF that(1)] by (cases f) auto
  have target: "r \<in> A \<and> hp_elem hp r u = obj r" if "q \<in> A" "GPtr r u \<in> set (fields_of (obj q))" "r \<noteq> 0" for q r u
    using linked [OF that(1,2)] obj [OF that(1)] that(2,3) by (auto simp: succs_def)
  let ?F = "\<Union>q \<in> A. set (fields_of (obj q))"
  show ?thesis
    unfolding object_graph_def
  proof (intro conjI ballI allI impI)
    show "finite A" using assms(1) by (simp add: linked_structure_def)
  next
    fix v w
    assume "v \<in> insert (GPtr p t) (obj ` A \<union> ?F)" "w \<in> set (parts hp v)"
    then obtain q where "q \<in> A" "v = obj q" "w \<in> set (fields_of (obj q))"
      using flat struct by fastforce
    then show "w \<in> insert (GPtr p t) (obj ` A \<union> ?F)"
      and "(case w of GStruct n fs \<Rightarrow> 1 | _ \<Rightarrow> 0) < (case v of GStruct n fs \<Rightarrow> (1::nat) | _ \<Rightarrow> 0)"
      using less by blast+
  next
    fix r u
    assume "GPtr r u \<in> insert (GPtr p t) (obj ` A \<union> ?F)" "r \<noteq> 0"
    moreover have "GPtr r u \<notin> obj ` A" using obj by fastforce
    ultimately have "r \<in> A \<and> hp_elem hp r u = obj r" using assms(2,3) target by blast
    then show "r \<in> A" and "hp_elem hp r u \<in> insert (GPtr p t) (obj ` A \<union> ?F)" by simp_all
  qed
qed

lemma reach_self: "p \<in> reach obj p"
  by (simp add: reach_def)

lemma reach_least:
  assumes "p \<in> S" and "\<And>q. q \<in> S \<Longrightarrow> succs obj q \<subseteq> S"
  shows "reach obj p \<subseteq> S"
proof
  fix q
  assume "q \<in> reach obj p"
  then have "(p, q) \<in> {(a, b). b \<in> succs obj a}\<^sup>*" by (simp add: reach_def)
  then show "q \<in> S" using assms by induction auto
qed

lemma valueSize_linked:
  assumes "linked_structure hp obj (reach obj p)" and "p \<noteq> 0" and "hp_elem hp p t = obj p"
  shows "\<exists>s'. valueSize hp (GPtr p t) {} = Some (8 + (\<Sum>q \<in> reach obj p. of_nat (object_size obj q)), s')"
proof -
  obtain n s' where n: "valueSize hp (GPtr p t) {} = Some (n, s')"
    using valueSize_returns [OF linked_graph [OF assms(1) reach_self assms(3)], of "GPtr p t" "{}"] by auto
  with assms(2,3) obtain k where k: "valueSize hp (obj p) (insert p {}) = Some (k, s')" "n = 8 + k"
    by (auto simp: valueSize_simps bind_eq_Some_conv)
  from valueSize_counted [OF assms(1) k(1) reach_self] have c: "counted obj (reach obj p) {} s' k" "p \<in> s'"
    by simp_all
  then have "reach obj p \<subseteq> s'" by (intro reach_least) (auto simp: counted_def)
  with c(1) have "s' = reach obj p" by (auto simp: counted_def)
  with c(1) k(2) n show ?thesis by (auto simp: counted_def)
qed

lemma sint_small: "int n < 2 ^ 63 \<Longrightarrow> sint (of_nat n :: uintptr) = int n"
  by (simp add: sint_uint unsigned_of_nat take_bit_nat_eq_self take_bit_int_eq_self signed_take_bit_int_eq_self)

lemma DeepSize_linked:
  assumes "linked_structure hp obj (reach obj p)" and "p \<noteq> 0" and "hp_elem hp p t = obj p"
    and "8 + (\<Sum>q \<in> reach obj p. int (object_size obj q)) < 2 ^ 63"
  shows "DeepSize hp (Some (GPtr p t)) = Some (Value (8 + (\<Sum>q \<in> reach obj p. int (object_size obj q))))"
proof -
  let ?n = "8 + (\<Sum>q \<in> reach obj p. object_size obj q)"
  have "int ?n < 2 ^ 63" using assms(4) by simp
  then have "sint (of_nat ?n :: uintptr) = int ?n" by (rule sint_small)
  with valueSize_linked [OF assms(1-3)] show ?thesis by (auto simp: DeepSize_def)
qed

section \<open>Where the size is wrong\<close>

lemma self_slice_None:
  assumes "hp_slice hp i = GSlice i c # vs"
  shows "valueSize hp (GSlice i c) seen = None"
proof -
  let ?Q = "\<lambda>hp' v seen y. hp' = hp \<longrightarrow> v \<noteq> GSlice i c"
  have "\<not> valueSize hp (GSlice i c) seen = Some y" for y
  proof
    assume "valueSize hp (GSlice i c) seen = Some y"
    then have "?Q hp (GSlice i c) seen y"
    proof (rule valueSize.raw_induct [where P = ?Q, rotated], goal_cases)
      case (1 sz hp' v seen y)
      then show ?case
        using assms 1(1) [of hp "GSlice i c" seen] by (auto simp: bind_eq_Some_conv)
    qed
    then show False by simp
  qed
  then show ?thesis by (cases "valueSize hp (GSlice i c) seen") auto
qed

lemma add_sizes_flat:
  "add_sizes (valueSize hp) (replicate n (GOther k)) base seen = Some (base + of_nat n * of_nat k, seen)"
  by (induction n arbitrary: base) (simp_all add: valueSize_simps algebra_simps)

lemma valueSize_flat_slice:
  assumes "hp_slice hp i = replicate n (GOther k)" and "n \<le> c"
  shows "valueSize hp (GSlice i c) seen = Some (24 + of_nat n * of_nat k + 24 * of_nat (c - n), seen)"
  using assms by (simp add: valueSize_slice add_sizes_flat Let_def)

section \<open>Properties\<close>

text \<open>Two structs of a linked list with the type of its nodes, the second pointing back to the first.\<close>

definition sample_obj :: "nat \<Rightarrow> gvalue" where
  "sample_obj p = (if p = 1 then GStruct 16 [GOther 8, GPtr 2 ''node''] else GStruct 16 [GOther 8, GPtr 1 ''node''])"

definition sample_heap :: heap where
  "sample_heap = \<lparr>hp_elem = (\<lambda>p t. sample_obj p), hp_slice = (\<lambda>i. [GSlice i 1]), hp_map = (\<lambda>i. [])\<rparr>"

lemma sample_succs: "succs sample_obj p = (if p = 1 then {2} else {1})"
  by (auto simp: succs_def sample_obj_def)

lemma sample_reach: "reach sample_obj 1 = {1, 2}"
proof
  show "reach sample_obj 1 \<subseteq> {1, 2}"
    by (rule reach_least) (auto simp: sample_succs)
  have "(1, 2) \<in> {(a, b). b \<in> succs sample_obj a}" by (simp add: sample_succs)
  then show "{1, 2} \<subseteq> reach sample_obj 1" using reach_self by (auto simp: reach_def)
qed

lemma sample_linked: "linked_structure sample_heap sample_obj (reach sample_obj 1)"
  unfolding sample_reach linked_structure_def
  by (simp add: linked_object_def sample_succs) (simp add: sample_obj_def sample_heap_def)

text \<open>
  C24. \<open>DeepSize\<close> ends, whatever cycles the pointers form, on every finite graph of objects in which no
  slice, map or struct is part of itself without a pointer in between.
\<close>

theorem DeepSize_terminates:
  assumes "object_graph hp V A rank" and "v \<in> V"
  shows "\<exists>n. DeepSize hp (Some v) = Some (Value n)"
  using valueSize_returns [OF assms, of "{}"] by (auto simp: DeepSize_def)

theorem DeepSize_terminates_witness: "\<exists>n. DeepSize sample_heap (Some (GPtr 1 ''node'')) = Some (Value n)"
  by (rule DeepSize_terminates [OF linked_graph [OF sample_linked reach_self, of "''node''"]])
    (simp_all add: sample_heap_def)

text \<open>
  C22. In a linked structure, cycles included, whose objects are structs with nothing but pointers to such
  objects, strings and flat fields, \<open>DeepSize\<close> of a pointer is the size of the pointer and of every
  struct that can be reached from it, each counted once (and without the text of its strings), when that
  fits in an \<open>int64\<close>.
\<close>

theorem DeepSize_counts_once:
  assumes "linked_structure hp obj (reach obj p)" and "p \<noteq> 0" and "hp_elem hp p t = obj p"
    and "8 + (\<Sum>q \<in> reach obj p. int (object_size obj q)) < 2 ^ 63"
  shows "DeepSize hp (Some (GPtr p t)) = Some (Value (8 + (\<Sum>q \<in> reach obj p. int (object_size obj q))))"
  using assms by (rule DeepSize_linked)

theorem DeepSize_counts_once_witness: "DeepSize sample_heap (Some (GPtr 1 ''node'')) = Some (Value 40)"
proof -
  have "(\<Sum>q \<in> reach sample_obj 1. int (object_size sample_obj q)) = 32"
    unfolding sample_reach by (simp add: object_size_def sample_obj_def)
  with DeepSize_counts_once [OF sample_linked, of "''node''"] show ?thesis
    by (simp add: sample_heap_def)
qed

text \<open>
  C39. A slice that holds itself as its first element is followed for ever, although the comment says
  that a cycle is counted once: only pointers are remembered.
\<close>

theorem DeepSize_self_slice:
  assumes "hp_slice hp i = GSlice i c # vs"
  shows "DeepSize hp (Some (GSlice i c)) = None"
  using self_slice_None [OF assms] by (simp add: DeepSize_def)

theorem DeepSize_self_slice_witness: "DeepSize sample_heap (Some (GSlice 3 1)) = None"
  by (rule DeepSize_self_slice) (simp add: sample_heap_def)

text \<open>
  For a slice of flat elements the unused capacity is counted with the size of a slice header, 24
  bytes for each slot whatever the elements are, where the comment promises zero values of their type.
\<close>

theorem DeepSize_spare_capacity:
  assumes "hp_slice hp i = replicate n (GOther k)" and "n \<le> c"
    and "int (24 + n * k + 24 * (c - n)) < 2 ^ 63"
  shows "DeepSize hp (Some (GSlice i c)) = Some (Value (int (24 + n * k + 24 * (c - n))))"
proof -
  have "sint (of_nat (24 + n * k + 24 * (c - n)) :: uintptr) = int (24 + n * k + 24 * (c - n))"
    using assms(3) by (rule sint_small)
  then show ?thesis
    using valueSize_flat_slice [OF assms(1,2)] by (simp add: DeepSize_def)
qed

definition byte_heap :: heap where
  "byte_heap = \<lparr>hp_elem = (\<lambda>p t. GOther 1), hp_slice = (\<lambda>i. replicate 2 (GOther 1)), hp_map = (\<lambda>i. [])\<rparr>"

theorem DeepSize_spare_capacity_witness: "DeepSize byte_heap (Some (GSlice 1 10)) = Some (Value 218)"
  using DeepSize_spare_capacity [of byte_heap 1 2 1 10] by (simp add: byte_heap_def)

end
