(* ===== verification/Startup.thy ===== *)
theory Startup
  imports Builder Grpc_Client Http_Mux
begin

text \<open>
  How the services start: \<open>pkg/grpc/server\<close>, \<open>pkg/db\<close>, and the \<open>serviceRegister\<close> and \<open>main\<close> functions of
  the services. What the operating system, the files, the listener and the libraries answer is an
  argument; what a start does is the list of its steps. What a server does at a signal and when its
  configuration file changes is a step of its running state. The queue's own goroutine runs beside and is
  in \<open>Build_Workers\<close>.
\<close>

section \<open>pkg/grpc/server\<close>

datatype boot_step =
    CredentialsLoaded
  | Listening string
  | ConfigRead string
  | ClusterConnected
  | DbOpened string
  | ConnectedTo string
  | Registered string
  | Serving

record boot_answers =
  bt_key_pair :: "string \<Rightarrow> string \<Rightarrow> go_error + string"
  bt_read_file :: "string \<Rightarrow> go_error + string"
  bt_pem_ok :: "string \<Rightarrow> bool"
  bt_listen :: "string \<Rightarrow> go_error option"
  bt_config :: "string \<Rightarrow> go_error + (string \<rightharpoonup> string)"
  bt_serve :: "go_error option"
  bt_cluster :: connect_answers
  bt_db_open :: "string \<Rightarrow> go_error option"
  bt_db_migrate :: "go_error option"
  bt_dial :: dial_answers

type_synonym 'a boot = "'a run \<times> boot_step list"

definition boot_log :: "boot_step \<Rightarrow> boot_step list \<Rightarrow> unit boot" where
  "boot_log x s = (Value (), s @ [x])"

text \<open>The credentials ask every client for a certificate of the authority in the file.\<close>

record server_creds =
  creds_certificate :: string
  creds_client_cas :: string
  creds_require_client :: bool

definition grpcCredentials :: "boot_answers \<Rightarrow> boot_step list \<Rightarrow> server_creds boot" where
  "grpcCredentials ans s =
     (case bt_key_pair ans (path_in cert_dir ''tls.crt'') (path_in cert_dir ''tls.key'') of
        Inl err \<Rightarrow> (Exited ''Failed to get certificate'', s)
      | Inr cert \<Rightarrow>
     (case bt_read_file ans (path_in cert_dir ''ca.crt'') of
        Inl err \<Rightarrow> (Exited ''failed to read certificates chain'', s)
      | Inr bs \<Rightarrow>
          (if \<not> bt_pem_ok ans bs then (Exited ''failed to append certs'', s)
           else (Value \<lparr>creds_certificate = cert, creds_client_cas = bs, creds_require_client = True\<rparr>,
             s @ [CredentialsLoaded]))))"

record server =
  srv_creds :: server_creds
  srv_listener :: string
  srv_config :: "string \<rightharpoonup> string"

definition server_Build :: "boot_answers \<Rightarrow> string \<Rightarrow> boot_step list \<Rightarrow> server boot" where
  "server_Build ans port s =
     run_then (grpcCredentials ans s) (\<lambda>creds s.
     (case bt_listen ans port of
        Some err \<Rightarrow> (Exited ''failed to listen'', s)
      | None \<Rightarrow>
     (case bt_config ans ''/app/config/config.yaml'' of
        Inl err \<Rightarrow> (Exited ''failed to read configuration'', s @ [Listening port])
      | Inr values \<Rightarrow>
          (Value \<lparr>srv_creds = creds, srv_listener = port, srv_config = values\<rparr>,
           s @ [Listening port, ConfigRead (case values ''log.level'' of None \<Rightarrow> ''info'' | Some l \<Rightarrow> l)]))))"

text \<open>\<open>Start\<close> returns when the server was stopped.\<close>

definition server_Start :: "boot_answers \<Rightarrow> server \<Rightarrow> boot_step list \<Rightarrow> unit boot" where
  "server_Start ans srv s =
     (case bt_serve ans of
        Some err \<Rightarrow> (Exited ''error serving GRPC traffic'', s @ [Serving])
      | None \<Rightarrow> (Value (), s @ [Serving]))"

text \<open>
  Beside \<open>Serve\<close> a goroutine takes the signals: each is logged and asks the server to stop once its
  calls have ended; the server takes no new ones from then on. The watch on the configuration file has
  \<open>viper\<close> read it again, and the handler only logs that it did.
\<close>

record running_server =
  rs_config :: "string \<rightharpoonup> string"
  rs_stopping :: bool
  rs_calls :: nat
  rs_log :: "string list"

datatype server_event =
    SignalReceived string
  | ConfigChanged "string \<rightharpoonup> string"
  | CallArrives
  | CallEnds

definition server_running :: "server \<Rightarrow> running_server" where
  "server_running srv =
     \<lparr>rs_config = srv_config srv, rs_stopping = False, rs_calls = 0, rs_log = [''Start new server'']\<rparr>"

fun server_on :: "server_event \<Rightarrow> running_server \<Rightarrow> running_server" where
  "server_on (SignalReceived sig) s =
     s\<lparr>rs_log := rs_log s @ [''GracefulStop triggered signal='' @ sig], rs_stopping := True\<rparr>"
| "server_on (ConfigChanged values) s =
     s\<lparr>rs_config := values, rs_log := rs_log s @ [''Config changed'']\<rparr>"
| "server_on CallArrives s = (if rs_stopping s then s else s\<lparr>rs_calls := rs_calls s + 1\<rparr>)"
| "server_on CallEnds s = s\<lparr>rs_calls := rs_calls s - 1\<rparr>"

text \<open>\<open>Serve\<close> returns, without an error, when the server was asked to stop and no call is left.\<close>

definition server_stopped :: "running_server \<Rightarrow> bool" where
  "server_stopped s \<longleftrightarrow> rs_stopping s \<and> rs_calls s = 0"

lemma stopping_iff_signal:
  "rs_stopping (fold server_on es s) \<longleftrightarrow> rs_stopping s \<or> (\<exists>sig. SignalReceived sig \<in> set es)"
proof (induction es arbitrary: s)
  case (Cons e es)
  then show ?case by (cases e) auto
qed simp

text \<open>No call that was taken is cut off, and none is taken after the first signal.\<close>

lemma stopping_calls:
  assumes "rs_stopping s"
  shows "rs_calls (fold server_on es s) = rs_calls s - length (filter ((=) CallEnds) es)"
  using assms
proof (induction es arbitrary: s)
  case (Cons e es)
  then show ?case by (cases e) auto
qed simp

section \<open>pkg/db\<close>

text \<open>The database of a service; a migration that fails gives a nil database and an error.\<close>

definition NewDB :: "boot_answers \<Rightarrow> string \<Rightarrow> boot_step list \<Rightarrow> (go_error + string) boot" where
  "NewDB ans service s =
     (let path = ''/data/sqlite/'' @ service @ ''.db''
      in case bt_db_open ans path of
           Some err \<Rightarrow> (Panicked ''failed to connect database'', s)
         | None \<Rightarrow>
             (case bt_db_migrate ans of
                Some err \<Rightarrow> (Value (Inl err), s)
              | None \<Rightarrow> (Value (Inr path), s @ [DbOpened path])))"

section \<open>The services\<close>

text \<open>
  What a service keeps in its context: its database, nil when the error of \<open>NewDB\<close> was dropped, and
  the connections to the services behind it.
\<close>

record service_context =
  sc_db :: "string option"
  sc_conns :: "grpc_conn list"

definition db_or_nil :: "go_error + string \<Rightarrow> string option" where
  "db_or_nil r = (case r of Inl err \<Rightarrow> None | Inr db \<Rightarrow> Some db)"

definition boot_connect :: "boot_answers \<Rightarrow> string \<Rightarrow> boot_step list \<Rightarrow> grpc_conn boot" where
  "boot_connect ans endpoint s =
     (case Connect (bt_dial ans) endpoint of
        Value (Inr conn) \<Rightarrow> (Value conn, s @ [ConnectedTo endpoint])
      | Value (Inl err) \<Rightarrow> (Exited ''did not connect'', s)
      | Exited m \<Rightarrow> (Exited m, s)
      | Panicked p \<Rightarrow> (Panicked p, s))"

definition builder_serviceRegister :: "boot_answers \<Rightarrow> boot_step list \<Rightarrow> service_context boot" where
  "builder_serviceRegister ans s =
     run_then (connectToK8s (bt_cluster ans), s) (\<lambda>_ s.
     run_then (boot_log ClusterConnected s) (\<lambda>_ s.
     run_then (NewDB ans ''builder'' s) (\<lambda>db s.
     (Value \<lparr>sc_db = db_or_nil db, sc_conns = []\<rparr>,
      s @ [Registered ''BuilderService'', Registered ''Operations'', Registered ''reflection'']))))"

definition engine_serviceRegister :: "boot_answers \<Rightarrow> boot_step list \<Rightarrow> service_context boot" where
  "engine_serviceRegister ans s =
     run_then (NewDB ans ''engine'' s) (\<lambda>db s.
     run_then (boot_connect ans ''eval-cache.eval.svc.cluster.local:50051'' s) (\<lambda>conn s.
     (Value \<lparr>sc_db = db_or_nil db, sc_conns = [conn]\<rparr>,
      s @ [Registered ''EngineService'', Registered ''Operations'', Registered ''reflection''])))"

definition cache_serviceRegister :: "boot_answers \<Rightarrow> boot_step list \<Rightarrow> service_context boot" where
  "cache_serviceRegister ans s =
     run_then (NewDB ans ''cache'' s) (\<lambda>db s.
     run_then (boot_connect ans ''eval-runner.eval.svc.cluster.local:50051'' s) (\<lambda>runner s.
     run_then (boot_connect ans ''eval-builder.eval.svc.cluster.local:50051'' s) (\<lambda>builder s.
     (Value \<lparr>sc_db = db_or_nil db, sc_conns = [runner, builder]\<rparr>,
      s @ [Registered ''CacheService'', Registered ''Operations'', Registered ''reflection'']))))"

text \<open>The three \<open>main\<close> functions: build the server, register the services, start.\<close>

definition service_main ::
    "(boot_answers \<Rightarrow> boot_step list \<Rightarrow> service_context boot) \<Rightarrow> string \<Rightarrow> boot_answers \<Rightarrow>
     boot_step list \<Rightarrow> service_context boot" where
  "service_main register port ans s =
     run_then (server_Build ans port s) (\<lambda>srv s.
     run_then (register ans s) (\<lambda>context s.
     run_then (server_Start ans srv s) (\<lambda>_ s. (Value context, s))))"

definition builder_main :: "boot_answers \<Rightarrow> boot_step list \<Rightarrow> service_context boot" where
  "builder_main = service_main builder_serviceRegister '':50051''"

text \<open>
  Beside the server the \<open>main\<close> of the builder runs the worker. The library asynq hands a task to the
  pattern its type begins with; the only pattern is that of \<open>HandleBuildTask\<close>. A worker that cannot
  run ends the whole process.
\<close>

definition worker_pattern :: string where
  "worker_pattern = ''image:build''"

definition worker_handle ::
    "worker_answers \<Rightarrow> builder_state \<Rightarrow> build_task \<Rightarrow> go_error option run \<times> builder_state" where
  "worker_handle ans s t =
     (if take (length worker_pattern) (task_type t) = worker_pattern then HandleBuildTask ans s t
      else (Value (Some (ErrText ''handler not found for task'')), s))"

definition worker_main :: "go_error option \<Rightarrow> unit run" where
  "worker_main run_error =
     (case run_error of
        Some err \<Rightarrow> Exited (''could not run server: '' @ error_text err)
      | None \<Rightarrow> Value ())"

text \<open>So every task the builder has queued reaches \<open>HandleBuildTask\<close>.\<close>

lemma queued_task_is_handled:
  assumes "builder_inv s" and "Enqueue t \<in> set (builder_trace s)"
  shows "worker_handle ans s t = HandleBuildTask ans s t"
proof -
  from assms obtain info ts where "t = task_for info ts" by (auto simp: builder_inv_def)
  then show ?thesis by (simp add: worker_handle_def worker_pattern_def task_for_def NewBuildTask_def)
qed

text \<open>
  Beside the engine's server its \<open>main\<close> serves two pages; when their port cannot be served the whole
  process ends, with or without calls.
\<close>

definition engine_page :: "string \<Rightarrow> string mux_reply" where
  "engine_page = mux_serve [(''/'', ''hello''), (''/hi'', ''Hi'')]"

lemma engine_page_cases:
  "engine_page path =
     (if clean_path path \<noteq> path then Redirected (clean_path path)
      else Handled (if path = ''/hi'' then ''Hi'' else ''hello''))"
  using clean_path_rooted [of path] by (auto simp: engine_page_def mux_serve_def pattern_matches_def)

definition engine_pages :: "boot_answers \<Rightarrow> unit run" where
  "engine_pages ans =
     (case bt_listen ans '':8081'' of Some err \<Rightarrow> Exited (error_text err) | None \<Rightarrow> Value ())"

definition engine_main :: "boot_answers \<Rightarrow> boot_step list \<Rightarrow> service_context boot" where
  "engine_main = service_main engine_serviceRegister ''0.0.0.0:50051''"

definition cache_main :: "boot_answers \<Rightarrow> boot_step list \<Rightarrow> service_context boot" where
  "cache_main = service_main cache_serviceRegister ''0.0.0.0:50051''"

text \<open>The runner does by hand what \<open>server_Build\<close> does, in another order and without a configuration.\<close>

definition runner_connectToK8s :: "connect_answers \<Rightarrow> unit run" where
  "runner_connectToK8s ans =
     (case ca_client ans of
        Some err \<Rightarrow> Exited (error_text err)
      | None \<Rightarrow> Value ())"

definition runner_main :: "boot_answers \<Rightarrow> boot_step list \<Rightarrow> unit boot" where
  "runner_main ans s =
     run_then (grpcCredentials ans s) (\<lambda>creds s.
     run_then (runner_connectToK8s (bt_cluster ans), s) (\<lambda>_ s.
     (case bt_listen ans '':50051'' of
        Some err \<Rightarrow> (Exited ''failed to listen'', s @ [ClusterConnected, Registered ''RunnerService''])
      | None \<Rightarrow>
     (case bt_serve ans of
        Some err \<Rightarrow> (Exited ''failed to serve'',
          s @ [ClusterConnected, Registered ''RunnerService'', Listening '':50051'', Serving])
      | None \<Rightarrow> (Value (),
          s @ [ClusterConnected, Registered ''RunnerService'', Listening '':50051'', Serving])))))"

section \<open>When a service starts\<close>

definition server_ready :: "boot_answers \<Rightarrow> string \<Rightarrow> bool" where
  "server_ready ans port \<longleftrightarrow>
     \<not> isl (bt_key_pair ans (path_in cert_dir ''tls.crt'') (path_in cert_dir ''tls.key'')) \<and>
     (\<exists>bs. bt_read_file ans (path_in cert_dir ''ca.crt'') = Inr bs \<and> bt_pem_ok ans bs) \<and>
     bt_listen ans port = None \<and> \<not> isl (bt_config ans ''/app/config/config.yaml'')"

definition can_connect :: "boot_answers \<Rightarrow> string \<Rightarrow> bool" where
  "can_connect ans endpoint \<longleftrightarrow> returns (Connect (bt_dial ans) endpoint)"

definition log_level :: "boot_answers \<Rightarrow> string" where
  "log_level ans =
     (case projr (bt_config ans ''/app/config/config.yaml'') ''log.level'' of None \<Rightarrow> ''info'' | Some l \<Rightarrow> l)"

lemma Connect_cases: "(\<exists>conn. Connect d n = Value (Inr conn)) \<or> (\<exists>m. Connect d n = Exited m)"
  by (auto simp: Connect_def split: sum.splits)

lemma boot_connect_ready:
  assumes "can_connect ans n"
  obtains conn where "\<And>s. boot_connect ans n s = (Value conn, s @ [ConnectedTo n])"
  using assms Connect_cases [of "bt_dial ans" n] by (auto simp: can_connect_def boot_connect_def)

lemma boot_connect_fails:
  assumes "\<not> can_connect ans n"
  obtains m where "\<And>s. boot_connect ans n s = (Exited m, s)"
  using assms Connect_cases [of "bt_dial ans" n] by (auto simp: can_connect_def boot_connect_def)

lemma server_Build_ready:
  assumes "server_ready ans port"
  obtains srv where "server_Build ans port s =
    (Value srv, s @ [CredentialsLoaded, Listening port, ConfigRead (log_level ans)])"
proof -
  from assms obtain bs where "bt_read_file ans (path_in cert_dir ''ca.crt'') = Inr bs" "bt_pem_ok ans bs"
    by (auto simp: server_ready_def)
  moreover obtain cert where "bt_key_pair ans (path_in cert_dir ''tls.crt'') (path_in cert_dir ''tls.key'') = Inr cert"
    using assms by (cases "bt_key_pair ans (path_in cert_dir ''tls.crt'') (path_in cert_dir ''tls.key'')")
      (simp_all add: server_ready_def)
  moreover obtain vs where "bt_config ans ''/app/config/config.yaml'' = Inr vs"
    using assms by (cases "bt_config ans ''/app/config/config.yaml''") (simp_all add: server_ready_def)
  moreover have "bt_listen ans port = None" using assms by (simp add: server_ready_def)
  ultimately show ?thesis
    by (intro that) (simp add: server_Build_def grpcCredentials_def log_level_def)
qed

lemma server_Build_fails:
  assumes "\<not> server_ready ans port"
  obtains m xs where "server_Build ans port s = (Exited m, s @ xs)" and "Serving \<notin> set xs"
proof -
  have "\<exists>m xs. server_Build ans port s = (Exited m, s @ xs) \<and> Serving \<notin> set xs"
    using assms
    by (auto simp: server_ready_def server_Build_def grpcCredentials_def isl_def split: sum.splits option.splits)
  with that show ?thesis by blast
qed

text \<open>The runner, which reads no configuration, serves when it has its certificates, its client and its port.\<close>

lemma runner_serves_iff:
  "Serving \<in> set (snd (runner_main ans [])) \<longleftrightarrow>
     \<not> isl (bt_key_pair ans (path_in cert_dir ''tls.crt'') (path_in cert_dir ''tls.key'')) \<and>
     (\<exists>bs. bt_read_file ans (path_in cert_dir ''ca.crt'') = Inr bs \<and> bt_pem_ok ans bs) \<and>
     ca_client (bt_cluster ans) = None \<and> bt_listen ans '':50051'' = None"
  by (auto simp: runner_main_def grpcCredentials_def runner_connectToK8s_def isl_def
      split: sum.splits option.splits)

lemma NewDB_cases:
  "bt_db_open ans (''/data/sqlite/'' @ n @ ''.db'') = None \<Longrightarrow>
     NewDB ans n s = (case bt_db_migrate ans of
       Some err \<Rightarrow> (Value (Inl err), s)
     | None \<Rightarrow> (Value (Inr (''/data/sqlite/'' @ n @ ''.db'')), s @ [DbOpened (''/data/sqlite/'' @ n @ ''.db'')]))"
  "bt_db_open ans (''/data/sqlite/'' @ n @ ''.db'') = Some err \<Longrightarrow>
     NewDB ans n s = (Panicked ''failed to connect database'', s)"
  by (auto simp: NewDB_def Let_def split: option.splits)

abbreviation cache_ready :: "boot_answers \<Rightarrow> bool" where
  "cache_ready ans \<equiv>
     server_ready ans ''0.0.0.0:50051'' \<and> bt_db_open ans ''/data/sqlite/cache.db'' = None \<and>
     can_connect ans ''eval-runner.eval.svc.cluster.local:50051'' \<and>
     can_connect ans ''eval-builder.eval.svc.cluster.local:50051''"

lemma cache_main_ready:
  assumes "cache_ready ans"
  obtains r where "cache_main ans [] = (r,
    [CredentialsLoaded, Listening ''0.0.0.0:50051'', ConfigRead (log_level ans)] @
    (if bt_db_migrate ans = None then [DbOpened ''/data/sqlite/cache.db''] else []) @
    [ConnectedTo ''eval-runner.eval.svc.cluster.local:50051'',
     ConnectedTo ''eval-builder.eval.svc.cluster.local:50051'',
     Registered ''CacheService'', Registered ''Operations'', Registered ''reflection'', Serving])"
proof -
  let ?p = "''0.0.0.0:50051''" and ?r = "''eval-runner.eval.svc.cluster.local:50051''"
    and ?b = "''eval-builder.eval.svc.cluster.local:50051''"
  let ?s0 = "[CredentialsLoaded, Listening ?p, ConfigRead (log_level ans)]"
  obtain srv where srv: "server_Build ans ?p [] = (Value srv, ?s0)"
    using assms server_Build_ready [of ans ?p "[]"] by auto
  obtain c1 where c1: "\<And>s. boot_connect ans ?r s = (Value c1, s @ [ConnectedTo ?r])"
    by (rule boot_connect_ready [of ans ?r]) (use assms in simp_all)
  obtain c2 where c2: "\<And>s. boot_connect ans ?b s = (Value c2, s @ [ConnectedTo ?b])"
    by (rule boot_connect_ready [of ans ?b]) (use assms in simp_all)
  have "snd (cache_main ans []) =
    ?s0 @ (if bt_db_migrate ans = None then [DbOpened ''/data/sqlite/cache.db''] else []) @
    [ConnectedTo ?r, ConnectedTo ?b, Registered ''CacheService'', Registered ''Operations'',
     Registered ''reflection'', Serving]"
    using assms NewDB_cases(1) [of ans "''cache''"]
    by (cases "bt_db_migrate ans")
      (simp_all add: cache_main_def service_main_def srv cache_serviceRegister_def c1 c2 server_Start_def
        split: option.split)
  then show ?thesis using that [of "fst (cache_main ans [])"] by (metis append.assoc prod.collapse)
qed

lemma cache_not_ready:
  assumes "\<not> cache_ready ans"
  shows "Serving \<notin> set (snd (cache_main ans []))"
proof (cases "server_ready ans ''0.0.0.0:50051''")
  case False
  obtain m xs where "server_Build ans ''0.0.0.0:50051'' [] = (Exited m, [] @ xs)" "Serving \<notin> set xs"
    by (rule server_Build_fails [OF False])
  then show ?thesis by (simp add: cache_main_def service_main_def)
next
  case True
  let ?s0 = "[] @ [CredentialsLoaded, Listening ''0.0.0.0:50051'', ConfigRead (log_level ans)]"
  obtain srv where build: "server_Build ans ''0.0.0.0:50051'' [] = (Value srv, ?s0)"
    by (rule server_Build_ready [OF True])
  define s0 where "s0 = ?s0"
  have srv: "server_Build ans ''0.0.0.0:50051'' [] = (Value srv, s0)" "Serving \<notin> set s0"
    using build by (simp_all add: s0_def)
  have "Serving \<notin> set (snd (cache_serviceRegister ans s0)) \<and> \<not> returns (fst (cache_serviceRegister ans s0))"
  proof (cases "bt_db_open ans ''/data/sqlite/cache.db''")
    case (Some err)
    then show ?thesis
      using NewDB_cases(2) [of ans "''cache''" err s0] srv(2) by (simp add: cache_serviceRegister_def)
  next
    case None
    obtain db s1 where db: "NewDB ans ''cache'' s0 = (Value db, s1)" "Serving \<notin> set s1"
      using NewDB_cases(1) [of ans "''cache''" s0] None srv(2) by (auto split: option.splits)
    show ?thesis
    proof (cases "can_connect ans ''eval-runner.eval.svc.cluster.local:50051''")
      case False
      then obtain m where "\<And>s. boot_connect ans ''eval-runner.eval.svc.cluster.local:50051'' s = (Exited m, s)"
        by (rule boot_connect_fails) blast
      with db show ?thesis by (simp add: cache_serviceRegister_def)
    next
      case ok: True
      then obtain c1 where c1: "\<And>s. boot_connect ans ''eval-runner.eval.svc.cluster.local:50051'' s =
          (Value c1, s @ [ConnectedTo ''eval-runner.eval.svc.cluster.local:50051''])"
        by (rule boot_connect_ready) blast
      have "\<not> can_connect ans ''eval-builder.eval.svc.cluster.local:50051''"
        using assms True None ok by simp
      then obtain m where "\<And>s. boot_connect ans ''eval-builder.eval.svc.cluster.local:50051'' s = (Exited m, s)"
        by (rule boot_connect_fails) blast
      with db c1 show ?thesis by (simp add: cache_serviceRegister_def)
    qed
  qed
  then show ?thesis
    using srv(1) by (cases "cache_serviceRegister ans s0"; cases "fst (cache_serviceRegister ans s0)")
      (auto simp: cache_main_def service_main_def)
qed

section \<open>Properties\<close>

text \<open>
  C28. The cache serves calls exactly when it has its certificates, its port, its configuration, its
  database file and a connection to the runner and to the builder; it then took these steps in this
  order and serves last. In every other case the process ends without serving.
\<close>

theorem cache_serves_iff_ready:
  "Serving \<in> set (snd (cache_main ans [])) \<longleftrightarrow>
     cache_ready ans \<and>
     snd (cache_main ans []) =
       [CredentialsLoaded, Listening ''0.0.0.0:50051'', ConfigRead (log_level ans)] @
       (if bt_db_migrate ans = None then [DbOpened ''/data/sqlite/cache.db''] else []) @
       [ConnectedTo ''eval-runner.eval.svc.cluster.local:50051'',
        ConnectedTo ''eval-builder.eval.svc.cluster.local:50051'',
        Registered ''CacheService'', Registered ''Operations'', Registered ''reflection'', Serving]"
proof (cases "cache_ready ans")
  case True
  obtain r where "cache_main ans [] = (r,
    [CredentialsLoaded, Listening ''0.0.0.0:50051'', ConfigRead (log_level ans)] @
    (if bt_db_migrate ans = None then [DbOpened ''/data/sqlite/cache.db''] else []) @
    [ConnectedTo ''eval-runner.eval.svc.cluster.local:50051'',
     ConnectedTo ''eval-builder.eval.svc.cluster.local:50051'',
     Registered ''CacheService'', Registered ''Operations'', Registered ''reflection'', Serving])"
    by (rule cache_main_ready [OF True])
  with True show ?thesis by simp
next
  case False
  with cache_not_ready [OF False] show ?thesis by blast
qed

text \<open>
  The engine starts and serves although the tables of its database could not be made: the error
  is dropped and the database it goes on with is nil.
\<close>

theorem engine_starts_without_database:
  assumes "server_ready ans ''0.0.0.0:50051''" and "bt_db_open ans ''/data/sqlite/engine.db'' = None"
    and "bt_db_migrate ans = Some err" and "can_connect ans ''eval-cache.eval.svc.cluster.local:50051''"
    and "bt_serve ans = None"
  shows "\<exists>context s. engine_main ans [] = (Value context, s) \<and> Serving \<in> set s \<and> sc_db context = None"
proof -
  let ?s0 = "[] @ [CredentialsLoaded, Listening ''0.0.0.0:50051'', ConfigRead (log_level ans)]"
  obtain srv where srv: "server_Build ans ''0.0.0.0:50051'' [] = (Value srv, ?s0)"
    by (rule server_Build_ready [OF assms(1)])
  obtain c where c: "\<And>s. boot_connect ans ''eval-cache.eval.svc.cluster.local:50051'' s =
      (Value c, s @ [ConnectedTo ''eval-cache.eval.svc.cluster.local:50051''])"
    using assms(4) by (rule boot_connect_ready) blast
  have "NewDB ans ''engine'' ?s0 = (Value (Inl err), ?s0)"
    using NewDB_cases(1) [of ans "''engine''" ?s0] assms(2,3) by simp
  with srv c assms(5) show ?thesis
    by (simp add: engine_main_def service_main_def engine_serviceRegister_def db_or_nil_def server_Start_def)
qed

definition sample_boot :: boot_answers where
  "sample_boot =
     \<lparr>bt_key_pair = (\<lambda>cert key. Inr ''cert''), bt_read_file = (\<lambda>file. Inr ''ca''), bt_pem_ok = (\<lambda>ca. True),
      bt_listen = (\<lambda>port. None), bt_config = (\<lambda>file. Inr Map.empty), bt_serve = None,
      bt_cluster = \<lparr>ca_config = None, ca_client = None\<rparr>, bt_db_open = (\<lambda>path. None),
      bt_db_migrate = Some (ErrText ''no such column''),
      bt_dial = \<lparr>dial_key_pair = (\<lambda>cert key. Inr ''cert''), dial_read_file = (\<lambda>file. Inr ''ca''),
        dial_pem_ok = (\<lambda>ca. True), dial_result = (\<lambda>endpoint. None)\<rparr>\<rparr>"

theorem engine_starts_without_database_witness:
  "\<exists>context s. engine_main sample_boot [] = (Value context, s) \<and> Serving \<in> set s \<and> sc_db context = None"
proof (rule engine_starts_without_database [of sample_boot "ErrText ''no such column''"])
  show "server_ready sample_boot ''0.0.0.0:50051''" by (simp add: server_ready_def sample_boot_def)
  show "can_connect sample_boot ''eval-cache.eval.svc.cluster.local:50051''"
    by (simp add: can_connect_def Connect_def NewConnection_def SplitHostPort_def Let_def sample_boot_def)
qed (simp_all add: sample_boot_def)

end
