(* ===== verification/Fixture.thy ===== *)
theory Fixture
  imports Evalctl
begin

text \<open>
  \<open>pkg/fixture\<close>: the example graph of actions by their full names, against which the completions of
  \<open>evalctl\<close> are written.
\<close>

section \<open>Types\<close>

text \<open>The types of values; the interface \<open>Type\<close> is implemented by maps and built-in types.\<close>

datatype BasicKind = Invalid | Int | Float | String

datatype ftype = FMap "(string \<times> ftype option) list" | FBuiltin BasicKind string

text \<open>The underlying type of a map or a built-in type is itself.\<close>

definition Underlying :: "ftype \<Rightarrow> ftype" where
  "Underlying t = t"

record Bag =
  bag_Len :: int
  bag_Type :: "ftype option"

section \<open>Actions\<close>

record fixture_commit =
  fc_Name :: string
  fc_Branch :: string
  fc_CommitSHA :: string
  fc_CommitRequired :: string

definition zero_commit :: fixture_commit where
  "zero_commit = \<lparr>fc_Name = [], fc_Branch = [], fc_CommitSHA = [], fc_CommitRequired = []\<rparr>"

text \<open>A channel has a type, which may be nil; nil maps are empty ones.\<close>

record fixture_channel =
  fch_Type :: "ftype option"

record fixture_action =
  fa_Inputs :: "string \<rightharpoonup> fixture_channel"
  fa_Outputs :: "string \<rightharpoonup> fixture_channel"
  fa_Config :: "string \<rightharpoonup> fixture_channel"
  fa_CommitPoint :: fixture_commit
  fa_Implementation :: string

definition zero_action :: fixture_action where
  "zero_action =
     \<lparr>fa_Inputs = Map.empty, fa_Outputs = Map.empty, fa_Config = Map.empty,
      fa_CommitPoint = zero_commit, fa_Implementation = []\<rparr>"

text \<open>The kinds of actions, each an embedded \<open>Action\<close>.\<close>

datatype fixture_kind =
    GenerateAction fixture_action
  | ProcessAction fixture_action
  | AggregateAction fixture_action
  | ModelTrainAction fixture_action
  | AnalyzeAction fixture_action
  | SummarizeAction fixture_action
  | ImageBuildAction fixture_action

definition fixture_NewGenerateAction :: "string \<Rightarrow> fixture_kind" where
  "fixture_NewGenerateAction commit =
     GenerateAction (zero_action
       \<lparr>fa_Inputs := [''imageset_uuid'' \<mapsto> \<lparr>fch_Type = None\<rparr>],
        fa_Outputs := [''imageset'' \<mapsto> \<lparr>fch_Type = None\<rparr>]\<rparr>)"

definition NewProcessAction :: "string \<Rightarrow> string \<Rightarrow> fixture_kind" where
  "NewProcessAction commit inp = ProcessAction zero_action"

definition NewAggregateAction :: "string \<Rightarrow> string \<Rightarrow> fixture_kind" where
  "NewAggregateAction commit inp = AggregateAction zero_action"

definition NewModelTrainAction :: "string \<Rightarrow> string \<Rightarrow> fixture_kind" where
  "NewModelTrainAction commit inp = ModelTrainAction zero_action"

definition NewAnalyzeAction :: "string \<Rightarrow> string \<Rightarrow> fixture_kind" where
  "NewAnalyzeAction commit inp = AnalyzeAction zero_action"

definition NewSummarizeAction :: "string \<Rightarrow> string \<Rightarrow> string \<Rightarrow> fixture_kind" where
  "NewSummarizeAction commit inputA inputB = SummarizeAction zero_action"

definition NewImageBuildAction :: fixture_kind where
  "NewImageBuildAction = ImageBuildAction zero_action"

definition AG :: "string \<rightharpoonup> fixture_kind" where
  "AG =
     [''compare.baseline.train.features.generate'' \<mapsto> fixture_NewGenerateAction ''golden'',
      ''compare.baseline.train.features.process'' \<mapsto>
        NewProcessAction ''golden'' ''compare.baseline.train.features.generate.images'',
      ''compare.baseline.train.features.aggregate'' \<mapsto>
        NewAggregateAction ''golden'' ''compare.baseline.train.features.process.out'',
      ''compare.baseline.train.model_train'' \<mapsto>
        NewModelTrainAction ''golden'' ''compare.baseline.train.features.aggregate.out'',
      ''compare.baseline.analyze'' \<mapsto> NewAnalyzeAction ''golden'' ''compare.baseline.train.model_train.out'',
      ''compare.exp.train.features.generate'' \<mapsto> fixture_NewGenerateAction ''dev'',
      ''compare.exp.train.features.process'' \<mapsto>
        NewProcessAction ''dev'' ''compare.exp.train.features.generate.images'',
      ''compare.exp.train.features.aggregate'' \<mapsto>
        NewAggregateAction ''dev'' ''compare.exp.train.features.process.out'',
      ''compare.exp.train.model_train'' \<mapsto>
        NewModelTrainAction ''dev'' ''compare.exp.train.features.aggregate.out'',
      ''compare.exp.analyze'' \<mapsto> NewAnalyzeAction ''dev'' ''compare.exp.train.model_train.out'',
      ''compare.summarize'' \<mapsto>
        NewSummarizeAction ''golden'' ''compare.baseline.anlyze.out'' ''compare.baseline.anlyze.out'',
      ''image.build'' \<mapsto> NewImageBuildAction]"

section \<open>What the graph says\<close>

text \<open>
  The commits and inputs the graph is written with are in none of its actions: the baseline and the
  experiment are the same graph twice.
\<close>

lemma AG_ignores_commits:
  "list_all (\<lambda>x. AG (''compare.baseline.'' @ x) = AG (''compare.exp.'' @ x) \<and> AG (''compare.exp.'' @ x) \<noteq> None)
     [''train.features.generate'', ''train.features.process'', ''train.features.aggregate'',
      ''train.model_train'', ''analyze'']"
  by (simp add: AG_def fixture_NewGenerateAction_def NewProcessAction_def NewAggregateAction_def
      NewModelTrainAction_def NewAnalyzeAction_def)

text \<open>The completions are the names of the actions and two names of their outputs.\<close>

lemma completions_are_actions:
  "filter (\<lambda>n. AG n = None) GenerateCompletions =
     [''compare.baseline.train.features.generate.images'', ''compare.baseline.train.features.process.out''] \<and>
   dom AG \<subseteq> set GenerateCompletions"
  by (simp add: AG_def GenerateCompletions_def)

text \<open>None of the outputs that the graph's inputs and the completions name exists.\<close>

fun kind_action :: "fixture_kind \<Rightarrow> fixture_action" where
  "kind_action (GenerateAction a) = a"
| "kind_action (ProcessAction a) = a"
| "kind_action (AggregateAction a) = a"
| "kind_action (ModelTrainAction a) = a"
| "kind_action (AnalyzeAction a) = a"
| "kind_action (SummarizeAction a) = a"
| "kind_action (ImageBuildAction a) = a"

lemma AG_outputs: "AG n = Some k \<Longrightarrow> fa_Outputs (kind_action k) x \<noteq> None \<Longrightarrow> x = ''imageset''"
  by (auto simp: AG_def fixture_NewGenerateAction_def NewProcessAction_def NewAggregateAction_def
      NewModelTrainAction_def NewAnalyzeAction_def NewSummarizeAction_def NewImageBuildAction_def
      zero_action_def split: if_splits)

end
