(* ===== verification/Calls_End.thy ===== *)
theory Calls_End
  imports Deployment_Run
begin

text \<open>
  No call of the engine is left hanging. Every step of the deployment either leaves the calls in flight
  alone, or starts a new one, or takes from the work that is left of those in flight, which is a number.
  So once no new calls come, all calls end.
\<close>

section \<open>The work left of a call\<close>

text \<open>How often a goroutine still calls the cache after the call it is in.\<close>

fun rounds :: "'any goroutine \<Rightarrow> nat" where
  "rounds (Evaluating ident req vs found) = length vs"
| "rounds (Polling n rows seen) = length rows"

fun call_work :: "'any call \<Rightarrow> nat" where
  "call_work (AskBuild x) = 2"
| "call_work (AskOp n m) = 2"
| "call_work (GotBuild d a reply) = 1"
| "call_work (GotOp n reply) = 1"

fun stage_work :: "'any stage \<Rightarrow> nat" where
  "stage_work (Ready g) = 5 * rounds g + 1"
| "stage_work (InCache None x) = call_work x"
| "stage_work (InCache (Some g) x) = 5 * (rounds g - 1) + 3 + call_work x"
| "stage_work (Answered g reply) = 5 * (rounds g - 1) + 2"

definition deploy_work :: "'any stage multiset \<Rightarrow> nat" where
  "deploy_work gs = sum_mset (image_mset stage_work gs)"

lemma deploy_work_simps [simp]:
  "deploy_work {#} = 0"
  "deploy_work (add_mset s gs) = stage_work s + deploy_work gs"
  "deploy_work (gs + gs') = deploy_work gs + deploy_work gs'"
  by (simp_all add: deploy_work_def)

lemma stage_work_pos: "0 < stage_work s"
proof -
  have "0 < call_work x" for x :: "'a call" by (cases x) simp_all
  then show ?thesis by (cases s rule: stage_work.cases) simp_all
qed

lemma deploy_work_0: "deploy_work gs = 0 \<longleftrightarrow> gs = {#}"
  by (cases gs) (simp_all add: stage_work_pos)

section \<open>Steps take from it\<close>

lemma answer_work: "deploy_work (answer g reply) < stage_work (InCache g x)"
proof -
  have "0 < call_work x" by (cases x) simp_all
  then show ?thesis by (cases g) (simp_all add: answer_def)
qed

lemma cut_off_work: "cut_off gs = gs \<or> deploy_work (cut_off gs) < deploy_work gs"
proof (induction gs)
  case (add s gs)
  show ?case
  proof (cases s)
    case (InCache g x)
    have "deploy_work (cut_off gs) \<le> deploy_work gs" using add.IH by auto
    moreover have "deploy_work (answer g (Inl ErrUnavailable)) < stage_work s"
      unfolding InCache by (rule answer_work)
    moreover have "cut_off (add_mset s gs) = answer g (Inl ErrUnavailable) + cut_off gs"
      by (simp add: cut_off_def InCache)
    ultimately show ?thesis by simp
  qed (use add.IH in \<open>auto simp: cut_off_def\<close>)
qed (simp add: cut_off_def)

lemma orphaned_work: "orphaned gs = gs \<or> deploy_work (orphaned gs) < deploy_work gs"
proof (induction gs)
  case (add s gs)
  have le: "deploy_work (orphaned gs) \<le> deploy_work gs" using add.IH by auto
  show ?case
  proof (cases s)
    case (InCache g x)
    have "orphaned (add_mset s gs) = add_mset (InCache None x) (orphaned gs)"
      by (simp add: orphaned_def InCache)
    then show ?thesis using InCache le add.IH by (cases g) auto
  qed (use le in \<open>auto simp: orphaned_def\<close>)
qed (simp add: orphaned_def)

lemma cut_off_le: "deploy_work (cut_off gs) \<le> deploy_work gs"
  using cut_off_work [of gs] by auto

lemma orphaned_le: "deploy_work (orphaned gs) \<le> deploy_work gs"
  using orphaned_work [of gs] by auto

lemma broken_off_work: "broken_off err x = x \<or> call_work (broken_off err x) < call_work x"
  by (cases "(err, x)" rule: broken_off.cases) simp_all

lemma in_cache_work: "call_work y < call_work x \<Longrightarrow> stage_work (InCache g y) < stage_work (InCache g x)"
  by (cases g) simp_all

text \<open>One step: the calls in flight are as they were, or one has come, or some work is done.\<close>

lemma deploy_step_work:
  assumes "deploy_step L parse load (e, w, gs, H) ts (e', w', gs', H')"
  shows "gs' = gs \<or> (\<exists>g. gs' = add_mset (Ready g) gs) \<or> deploy_work gs' < deploy_work gs"
  using assms
proof cases
  case (c_get_dies g ident req v vs found bld ks create ans res w1 gs1)
  with cut_off_le [of gs1] show ?thesis by simp
next
  case (c_get_end ans d a reply v g gs1)
  with answer_work [of g v "GotBuild d a reply"] show ?thesis by simp
next
  case (c_get_end_dies ans d a reply res w1 g gs1)
  with answer_work [of g "Inl ErrUnavailable" "GotBuild d a reply"] cut_off_le [of gs1] show ?thesis by simp
next
  case (c_poll_end ans n reply c v c' b r g gs1)
  with answer_work [of g "Inr v" "GotOp n reply"] show ?thesis by simp
next
  case (c_poll_dies ans n reply c res c' b r g gs1)
  with answer_work [of g "Inl ErrUnavailable" "GotOp n reply"] cut_off_le [of gs1] show ?thesis by simp
next
  case c_restarts
  then show ?thesis using cut_off_work [of gs] by auto
next
  case (b_build y b q reply b' c r g d a gs1)
  with in_cache_work [of "GotBuild d a reply" "AskBuild (d, a, q)" g] show ?thesis by simp
next
  case (b_poll reg b m reply b' c r g n gs1)
  with in_cache_work [of "GotOp n reply" "AskOp n m" g] show ?thesis by simp
next
  case (n_builder g x gs1 err)
  with in_cache_work [of "broken_off err x" x g] broken_off_work [of err x] show ?thesis by auto
next
  case (e_eval_take_dies v reply found ident req vs gs1)
  with orphaned_le [of gs1] show ?thesis by simp
next
  case (e_eval_end_dies found ea ident req res gs1)
  with orphaned_le [of gs1] show ?thesis by simp
next
  case (e_poll_take_dies row reply seen n rows gs1)
  with orphaned_le [of gs1] show ?thesis by simp
next
  case (e_poll_end_dies n seen gs1)
  with orphaned_le [of gs1] show ?thesis by simp
next
  case e_restarts
  then show ?thesis using orphaned_work [of gs] by auto
qed auto

section \<open>Every call ends\<close>

definition in_flight :: "'any deployment \<Rightarrow> 'any stage multiset" where
  "in_flight D = (case D of (e, w, gs, H) \<Rightarrow> gs)"

definition moved_at :: "(nat \<Rightarrow> 'any deployment) \<Rightarrow> nat \<Rightarrow> bool" where
  "moved_at \<sigma> i \<longleftrightarrow> in_flight (\<sigma> (Suc i)) \<noteq> in_flight (\<sigma> i)"

definition call_starts :: "(nat \<Rightarrow> 'any deployment) \<Rightarrow> nat \<Rightarrow> bool" where
  "call_starts \<sigma> i \<longleftrightarrow> (\<exists>g. in_flight (\<sigma> (Suc i)) = add_mset (Ready g) (in_flight (\<sigma> i)))"

lemma moving_step_work:
  assumes "deploy_step L parse load (\<sigma> i) ts (\<sigma> (Suc i))" and "\<not> call_starts \<sigma> i" and "moved_at \<sigma> i"
  shows "deploy_work (in_flight (\<sigma> (Suc i))) < deploy_work (in_flight (\<sigma> i))"
proof -
  obtain e w gs H where D: "\<sigma> i = (e, w, gs, H)" by (rule prod_cases4)
  obtain e' w' gs' H' where D': "\<sigma> (Suc i) = (e', w', gs', H')" by (rule prod_cases4)
  from deploy_step_work [OF assms(1) [unfolded D D']] assms(2,3) show ?thesis
    by (auto simp: D D' in_flight_def call_starts_def moved_at_def)
qed

text \<open>The moves of a run spend the work, so a run in which no call starts has only so many of them.\<close>

lemma moves_spend_work:
  assumes "\<And>i. N \<le> i \<Longrightarrow> moved_at \<sigma> i \<Longrightarrow>
      deploy_work (in_flight (\<sigma> (Suc i))) < deploy_work (in_flight (\<sigma> i))"
  shows "card {i. N \<le> i \<and> i < N + n \<and> moved_at \<sigma> i} + deploy_work (in_flight (\<sigma> (N + n))) \<le>
    deploy_work (in_flight (\<sigma> N))"
proof (induction n)
  case (Suc n)
  let ?M = "\<lambda>n. {i. N \<le> i \<and> i < N + n \<and> moved_at \<sigma> i}"
  show ?case
  proof (cases "moved_at \<sigma> (N + n)")
    case True
    then have "?M (Suc n) = insert (N + n) (?M n)" by auto
    with Suc assms [OF _ True] show ?thesis by simp
  next
    case False
    then have "?M (Suc n) = ?M n" by (auto simp: less_Suc_eq)
    with Suc False show ?thesis by (simp add: moved_at_def)
  qed
qed simp

lemma moves_finite:
  assumes "\<And>i. N \<le> i \<Longrightarrow> moved_at \<sigma> i \<Longrightarrow>
      deploy_work (in_flight (\<sigma> (Suc i))) < deploy_work (in_flight (\<sigma> i))"
  shows "finite {i. N \<le> i \<and> moved_at \<sigma> i}"
    and "card {i. N \<le> i \<and> moved_at \<sigma> i} \<le> deploy_work (in_flight (\<sigma> N))"
proof -
  have "finite {i. N \<le> i \<and> moved_at \<sigma> i} \<and>
      card {i. N \<le> i \<and> moved_at \<sigma> i} \<le> deploy_work (in_flight (\<sigma> N))"
  proof (rule finite_if_finite_subsets_card_bdd)
    fix G
    assume G: "G \<subseteq> {i. N \<le> i \<and> moved_at \<sigma> i}" "finite G"
    then have "G \<subseteq> {i. N \<le> i \<and> i < N + Suc (Max G) \<and> moved_at \<sigma> i}"
      by (auto simp: less_Suc_eq_le trans_le_add2)
    from card_mono [OF _ this] moves_spend_work [of N \<sigma> "Suc (Max G)", OF assms]
    show "card G \<le> deploy_work (in_flight (\<sigma> N))" by (simp del: add_Suc_right)
  qed
  then show "finite {i. N \<le> i \<and> moved_at \<sigma> i}"
    and "card {i. N \<le> i \<and> moved_at \<sigma> i} \<le> deploy_work (in_flight (\<sigma> N))" by auto
qed

lemma stays_from:
  assumes "\<And>i. M \<le> i \<Longrightarrow> \<not> moved_at \<sigma> i" and "M \<le> k"
  shows "in_flight (\<sigma> k) = in_flight (\<sigma> M)"
  using assms(2) by (induction rule: dec_induct) (use assms(1) in \<open>auto simp: moved_at_def\<close>)

text \<open>
  C11. The whole deployment finishes what it was asked. In an infinite run of engine, cache, builder,
  workers and network, in which the cache or the builder may restart and connections may break at
  any time, suppose that from some moment on no client makes a new call and that, as long as a call
  is in flight, some call is eventually moved. Then the calls in flight move only finitely often, at
  most five times for each value or row still to be asked for and once more for each call, and after
  that no call is in flight, in the engine or in the cache, for ever.
\<close>

theorem every_call_ends:
  assumes "\<forall>i. \<exists>ts. deploy_step L parse load (\<sigma> i) ts (\<sigma> (Suc i))"
    and "\<forall>i \<ge> N. \<not> call_starts \<sigma> i"
    and "\<forall>i \<ge> N. in_flight (\<sigma> i) \<noteq> {#} \<longrightarrow> (\<exists>j \<ge> i. moved_at \<sigma> j)"
  shows "card {i. N \<le> i \<and> moved_at \<sigma> i} \<le> deploy_work (in_flight (\<sigma> N)) \<and>
    (\<exists>j \<ge> N. \<forall>k \<ge> j. in_flight (\<sigma> k) = {#})"
proof -
  have work: "deploy_work (in_flight (\<sigma> (Suc i))) < deploy_work (in_flight (\<sigma> i))"
    if "N \<le> i" "moved_at \<sigma> i" for i
    using assms(1,2) that moving_step_work by blast
  let ?M = "{i. N \<le> i \<and> moved_at \<sigma> i}"
  let ?j = "N + Suc (Max ?M)"
  have still: "\<not> moved_at \<sigma> i" if "?j \<le> i" for i
  proof
    assume "moved_at \<sigma> i"
    then have "i \<le> Max ?M" using Max_ge [OF moves_finite(1) [of N \<sigma>, OF work]] that by simp
    with that show False by simp
  qed
  have "in_flight (\<sigma> ?j) = {#}" using assms(3) still by (meson le_add1)
  then have "\<forall>k \<ge> ?j. in_flight (\<sigma> k) = {#}" using stays_from [of ?j \<sigma>, OF still] by metis
  then show ?thesis using moves_finite(2) [of N \<sigma>, OF work] le_add1 by blast
qed

definition sample_flight :: "nat \<Rightarrow> tagged_any deployment" where
  "sample_flight i =
     (if i = 1 then (engine_init, backend_init,
          {#Ready (Polling ''eval1'' [] (True, Map.empty))#}, \<lparr>used = {}, asked = Map.empty\<rparr>)
      else deploy_init)"

lemma sample_flight_steps: "\<exists>ts. deploy_step tagged_lib Inr db_rows (sample_flight i) ts (sample_flight (Suc i))"
proof -
  let ?H = "\<lparr>used = {}, asked = Map.empty\<rparr> :: tagged_any history"
  have none: "db_rows (engine_trace engine_init) n = []" for n
    by (simp add: db_rows_def engine_init_def evaluations_of_def)
  have "deploy_step tagged_lib Inr db_rows deploy_init [] (sample_flight 1)"
    using e_poll [of tagged_lib Inr db_rows engine_init backend_init "{#}" ?H "''eval1''"]
    by (simp add: sample_flight_def deploy_init_def none)
  moreover obtain a where "eval_reply tagged_lib ''eval1'' True Map.empty = Value (Inr (reply_operation ''eval1'' True a))"
    using sample_runtime eval_reply_total unfolding runtime_ok_def by metis
  then have "\<exists>ts. deploy_step tagged_lib Inr db_rows (sample_flight 1) ts deploy_init"
    unfolding sample_flight_def deploy_init_def
    using e_poll_ends [of tagged_lib "''eval1''" "(True, Map.empty)"] by fastforce
  moreover have "deploy_step tagged_lib Inr db_rows deploy_init [] deploy_init"
    using c_restarts [of tagged_lib Inr db_rows engine_init backend_init "{#}" ?H]
    by (simp add: deploy_init_def cut_off_def backend_init_def cache_restart_def)
  moreover have "sample_flight 0 = deploy_init" "i \<noteq> 1 \<Longrightarrow> sample_flight i = deploy_init" for i
    by (simp_all add: sample_flight_def)
  ultimately show ?thesis by (cases "i = 0"; cases "i = 1") auto
qed

theorem every_call_ends_witness:
  "card {i. 1 \<le> i \<and> moved_at sample_flight i} \<le> deploy_work (in_flight (sample_flight 1)) \<and> (\<exists>j \<ge> 1. \<forall>k \<ge> j. in_flight (sample_flight k) = {#})"
proof -
  have flight: "in_flight (sample_flight i) = (if i = 1 then {#Ready (Polling ''eval1'' [] (True, Map.empty))#} else {#})"
    for i by (simp add: sample_flight_def in_flight_def deploy_init_def)
  have "\<forall>i \<ge> 1. \<not> call_starts sample_flight i" "\<forall>i \<ge> 1. in_flight (sample_flight i) \<noteq> {#} \<longrightarrow>
      (\<exists>j \<ge> i. moved_at sample_flight j)"
    by (auto simp: call_starts_def moved_at_def flight)
  from every_call_ends [OF _ this, of tagged_lib Inr db_rows] sample_flight_steps show ?thesis by blast
qed

end
