(* ===== verification/Task_Pool.thy ===== *)
theory Task_Pool
  imports Go_Prelude "HOL-Library.Word"
begin

text \<open>
  \<open>experimental/queue/queue.go\<close>: a thousand greetings and then a thousand numbers to add up, each
  handed as a task to a pool of goroutines. The pool is the library ants, which is not part of the
  repository. What the program relies on is that a task the pool took is run once; when, and beside
  which others, is the scheduler's choice, so the program is a step relation in which any accepted
  task may do its next piece at any time. The pool may also refuse a task: the program drops the error.
\<close>

section \<open>The program\<close>

text \<open>The pieces a task is made of; those of two tasks may interleave. \<open>atomic.AddInt32\<close> is one piece.\<close>

datatype piece = SayHello | AddInt32 "32 word" | SayRun "32 word" | WgDone

definition demoFunc :: "piece list" where
  "demoFunc = [SayHello]"

definition syncCalculateSum :: "piece list" where
  "syncCalculateSum = demoFunc @ [WgDone]"

definition myFunc :: "32 word \<Rightarrow> piece list" where
  "myFunc n = [AddInt32 n, SayRun n]"

definition pool_function :: "32 word \<Rightarrow> piece list" where
  "pool_function i = myFunc i @ [WgDone]"

definition runTimes :: nat where
  "runTimes = 1000"

text \<open>
  The counter of the wait group, the variable \<open>sum\<close>, the tasks the pool has, and the lines printed. How
  many tasks the pool refused is recorded beside them; the program does not look at it.
\<close>

record queue_state =
  q_sum :: "32 word"
  q_wg :: int
  q_tasks :: "piece list multiset"
  q_refused :: nat
  q_lines :: "string list"

text \<open>Where \<open>main\<close> is: in its first loop, at its first \<open>wg.Wait\<close>, in its second loop, at its second.\<close>

datatype place = Submitting nat | WaitFirst | Invoking nat | WaitSecond | Ended | Died string

definition int32_text :: "32 word \<Rightarrow> string" where
  "int32_text n = (if sint n < 0 then ''-'' @ decimal (nat (- sint n)) else decimal (nat (sint n)))"

definition hello_line :: string where
  "hello_line = ''Hello World!''"

definition run_line :: "32 word \<Rightarrow> string" where
  "run_line n = ''run with '' @ int32_text n"

definition running_line :: "nat \<Rightarrow> string" where
  "running_line k = ''running goroutines: '' @ decimal k"

definition result_line :: "32 word \<Rightarrow> string" where
  "result_line s = ''finish all tasks, result is '' @ int32_text s"

definition say :: "string \<Rightarrow> queue_state \<Rightarrow> queue_state" where
  "say line q = q\<lparr>q_lines := q_lines q @ [line]\<rparr>"

text \<open>One piece. \<open>wg.Done\<close> panics when it would take the counter below zero.\<close>

fun run_piece :: "piece \<Rightarrow> queue_state \<Rightarrow> queue_state run" where
  "run_piece SayHello q = Value (say hello_line q)"
| "run_piece (AddInt32 n) q = Value (q\<lparr>q_sum := q_sum q + n\<rparr>)"
| "run_piece (SayRun n) q = Value (say (run_line n) q)"
| "run_piece WgDone q =
     (if q_wg q - 1 < 0 then Panicked ''sync: negative WaitGroup counter''
      else Value (q\<lparr>q_wg := q_wg q - 1\<rparr>))"

text \<open>What handing a task to the pool does: \<open>wg.Add(1)\<close>, and the pool has one more task if it takes it.\<close>

definition hand_over :: "bool \<Rightarrow> piece list \<Rightarrow> queue_state \<Rightarrow> queue_state" where
  "hand_over taken task q =
     q\<lparr>q_wg := q_wg q + 1, q_tasks := (if taken then add_mset task (q_tasks q) else q_tasks q),
       q_refused := (if taken then q_refused q else q_refused q + 1)\<rparr>"

definition task_rest :: "piece list \<Rightarrow> piece list multiset" where
  "task_rest ps = (if ps = [] then {#} else {#ps#})"

inductive queue_step :: "place \<times> queue_state \<Rightarrow> place \<times> queue_state \<Rightarrow> bool" where
  submit: "i < runTimes \<Longrightarrow>
    queue_step (Submitting i, q) (Submitting (Suc i), hand_over taken syncCalculateSum q)"
| submitted: "\<not> i < runTimes \<Longrightarrow> queue_step (Submitting i, q) (WaitFirst, q)"
| waited_first: "q_wg q = 0 \<Longrightarrow>
    queue_step (WaitFirst, q) (Invoking 0, say ''finish all tasks.'' (say (running_line k) q))"
| invoke: "i < runTimes \<Longrightarrow>
    queue_step (Invoking i, q) (Invoking (Suc i), hand_over taken (pool_function (word_of_nat i)) q)"
| invoked: "\<not> i < runTimes \<Longrightarrow> queue_step (Invoking i, q) (WaitSecond, q)"
| waited_second: "q_wg q = 0 \<Longrightarrow>
    queue_step (WaitSecond, q) (Ended, say (result_line (q_sum q)) (say (running_line k) q))"
| task_piece: "pl \<noteq> Ended \<Longrightarrow> \<forall>m. pl \<noteq> Died m \<Longrightarrow> q_tasks q = add_mset (p # ps) ts \<Longrightarrow>
    run_piece p q = Value q' \<Longrightarrow>
    queue_step (pl, q) (pl, q'\<lparr>q_tasks := task_rest ps + ts\<rparr>)"
| task_panics: "pl \<noteq> Ended \<Longrightarrow> \<forall>m. pl \<noteq> Died m \<Longrightarrow> q_tasks q = add_mset (p # ps) ts \<Longrightarrow>
    run_piece p q = Panicked m \<Longrightarrow> queue_step (pl, q) (Died m, q)"

definition queue_start :: "place \<times> queue_state" where
  "queue_start = (Submitting 0, \<lparr>q_sum = 0, q_wg = 0, q_tasks = {#}, q_refused = 0, q_lines = []\<rparr>)"

abbreviation queue_reaches :: "place \<times> queue_state \<Rightarrow> bool" where
  "queue_reaches \<equiv> queue_step\<^sup>*\<^sup>* queue_start"

section \<open>What is still owed\<close>

text \<open>What the rest of a task will add and print, and what main's place says was asked for so far.\<close>

fun piece_adds :: "piece \<Rightarrow> 32 word" where
  "piece_adds (AddInt32 n) = n"
| "piece_adds _ = 0"

fun piece_says :: "piece \<Rightarrow> string multiset" where
  "piece_says SayHello = {#hello_line#}"
| "piece_says (SayRun n) = {#run_line n#}"
| "piece_says _ = {#}"

definition owed_sum :: "queue_state \<Rightarrow> 32 word" where
  "owed_sum q = (\<Sum>t \<in># q_tasks q. sum_list (map piece_adds t))"

definition owed_lines :: "queue_state \<Rightarrow> string multiset" where
  "owed_lines q = (\<Sum>t \<in># q_tasks q. sum_list (map piece_says t))"

definition run_lines :: "nat \<Rightarrow> string multiset" where
  "run_lines i = image_mset (\<lambda>k. run_line (word_of_nat k)) (mset [0..<i])"

definition first_lines :: "nat \<Rightarrow> string multiset" where
  "first_lines k = replicate_mset runTimes hello_line + {#running_line k, ''finish all tasks.''#}"

fun asked_sum :: "place \<Rightarrow> 32 word" where
  "asked_sum (Invoking i) = (\<Sum>k<i. word_of_nat k)"
| "asked_sum WaitSecond = (\<Sum>k<runTimes. word_of_nat k)"
| "asked_sum Ended = (\<Sum>k<runTimes. word_of_nat k)"
| "asked_sum _ = 0"

fun asked_lines :: "nat \<Rightarrow> nat \<Rightarrow> place \<Rightarrow> string multiset" where
  "asked_lines k k' (Submitting i) = replicate_mset i hello_line"
| "asked_lines k k' WaitFirst = replicate_mset runTimes hello_line"
| "asked_lines k k' (Invoking i) = first_lines k + run_lines i"
| "asked_lines k k' WaitSecond = first_lines k + run_lines runTimes"
| "asked_lines k k' Ended = first_lines k + run_lines runTimes +
     {#running_line k', result_line (\<Sum>k<runTimes. word_of_nat k)#}"
| "asked_lines k k' (Died m) = {#}"

fun within :: "place \<Rightarrow> bool" where
  "within (Submitting i) \<longleftrightarrow> i \<le> runTimes"
| "within (Invoking i) \<longleftrightarrow> i \<le> runTimes"
| "within (Died m) \<longleftrightarrow> False"
| "within _ \<longleftrightarrow> True"

definition one_done :: "piece list \<Rightarrow> bool" where
  "one_done t \<longleftrightarrow> t \<noteq> [] \<and> last t = WgDone \<and> WgDone \<notin> set (butlast t)"

text \<open>
  The wait group counts the tasks in the pool and those it refused. As long as none was refused,
  what is summed and printed together with what is owed is what was asked for.
\<close>

definition queue_inv :: "place \<times> queue_state \<Rightarrow> bool" where
  "queue_inv s =
     (case s of (pl, q) \<Rightarrow>
        within pl \<and> (\<forall>t \<in># q_tasks q. one_done t) \<and> q_wg q = int (size (q_tasks q) + q_refused q) \<and>
        (q_refused q = 0 \<longrightarrow>
           q_sum q + owed_sum q = asked_sum pl \<and>
           (\<exists>k k'. mset (q_lines q) + owed_lines q = asked_lines k k' pl)))"

lemma owed_simps [simp]:
  "q_tasks q = {#} \<Longrightarrow> owed_sum q = 0" "q_tasks q = {#} \<Longrightarrow> owed_lines q = {#}"
  "owed_sum (say l q) = owed_sum q" "owed_lines (say l q) = owed_lines q"
  by (simp_all add: owed_sum_def owed_lines_def say_def)

lemma say_refused: "q_refused (say l q) = q_refused q"
  by (simp add: say_def)

lemma hand_over_simps [simp]:
  "q_tasks (hand_over taken t q) = (if taken then add_mset t (q_tasks q) else q_tasks q)"
  "q_wg (hand_over taken t q) = q_wg q + 1"
  "q_refused (hand_over taken t q) = (if taken then q_refused q else q_refused q + 1)" "q_sum (hand_over taken t q) = q_sum q"
  "q_lines (hand_over taken t q) = q_lines q"
  by (simp_all add: hand_over_def)

lemma hand_over_owed:
  "owed_sum (hand_over taken t q) = owed_sum q + (if taken then sum_list (map piece_adds t) else 0)"
  "owed_lines (hand_over taken t q) = owed_lines q + (if taken then sum_list (map piece_says t) else {#})"
  by (simp_all add: owed_sum_def owed_lines_def)

lemma task_sums [simp]:
  "sum_list (map piece_adds syncCalculateSum) = 0" "sum_list (map piece_says syncCalculateSum) = {#hello_line#}"
  "sum_list (map piece_adds (pool_function n)) = n" "sum_list (map piece_says (pool_function n)) = {#run_line n#}"
  "one_done syncCalculateSum" "one_done (pool_function n)"
  by (simp_all add: syncCalculateSum_def demoFunc_def pool_function_def myFunc_def one_done_def)

lemma one_done_cons: "one_done (p # ps) \<longleftrightarrow> (if ps = [] then p = WgDone else p \<noteq> WgDone \<and> one_done ps)"
  by (auto simp: one_done_def)

text \<open>A piece pays what it owed.\<close>

lemma piece_pays:
  assumes "run_piece p q = Value q'" and "q_tasks q = add_mset (p # ps) ts"
    and q'': "q'' = q'\<lparr>q_tasks := task_rest ps + ts\<rparr>"
  shows "q_sum q'' + owed_sum q'' = q_sum q + owed_sum q"
    and "mset (q_lines q'') + owed_lines q'' = mset (q_lines q) + owed_lines q"
    and "q_wg q'' = q_wg q - (if p = WgDone then 1 else 0)" and "q_refused q'' = q_refused q"
  using assms(1,2) unfolding q''
  by (cases p; auto simp: owed_sum_def owed_lines_def say_def task_rest_def split: if_splits)+

lemma queue_inv_piece:
  assumes inv: "queue_inv (pl, q)" and tasks: "q_tasks q = add_mset (p # ps) ts" and "run_piece p q = Value q'"
  shows "queue_inv (pl, q'\<lparr>q_tasks := task_rest ps + ts\<rparr>)"
proof -
  let ?q = "q'\<lparr>q_tasks := task_rest ps + ts\<rparr>"
  note pays = piece_pays [OF assms(3) tasks refl]
  have one: "one_done (p # ps)" using inv tasks by (simp add: queue_inv_def)
  then have size: "int (size (q_tasks ?q)) - q_wg ?q = int (size (q_tasks q)) - q_wg q"
    using pays(3) tasks by (auto simp: one_done_cons task_rest_def split: if_splits)
  moreover have "\<forall>t \<in># q_tasks ?q. one_done t"
    using inv tasks one by (auto simp: queue_inv_def one_done_cons task_rest_def split: if_splits)
  ultimately show ?thesis using inv pays(1,2,4) by (auto simp: queue_inv_def)
qed

lemma queue_inv_no_panic:
  assumes "queue_inv (pl, q)" and "q_tasks q = add_mset (p # ps) ts"
  shows "run_piece p q \<noteq> Panicked m"
  using assms by (cases p) (auto simp: queue_inv_def)

lemma queue_inv_hand_over:
  assumes "queue_inv (pl, q)" and "one_done t" and "within pl'"
    and "asked_sum pl' = asked_sum pl + sum_list (map piece_adds t)"
    and "\<And>k k'. asked_lines k k' pl' = asked_lines k k' pl + sum_list (map piece_says t)"
  shows "queue_inv (pl', hand_over taken t q)"
proof (cases "q_refused q = 0 \<and> taken")
  case True
  with assms(1) obtain k k' where "mset (q_lines q) + owed_lines q = asked_lines k k' pl"
    and "q_sum q + owed_sum q = asked_sum pl" by (auto simp: queue_inv_def)
  with True have "mset (q_lines q) + owed_lines (hand_over taken t q) = asked_lines k k' pl'"
    and "q_sum q + owed_sum (hand_over taken t q) = asked_sum pl'"
    using assms(4,5) by (simp_all add: hand_over_owed add.assoc [symmetric])
  with True show ?thesis using assms(1-3) by (auto simp: queue_inv_def)
next
  case False
  then show ?thesis using assms(1-3) by (auto simp: queue_inv_def)
qed

lemma queue_inv_place:
  assumes "queue_inv (pl, q)" and "within pl'" and "asked_sum pl' = asked_sum pl"
    and "\<And>k k'. asked_lines k k' pl' = asked_lines k k' pl"
  shows "queue_inv (pl', q)"
  using assms by (simp add: queue_inv_def)

text \<open>With nothing left to wait for, everything asked for is done.\<close>

lemma queue_inv_waited:
  assumes "queue_inv (pl, q)" and "q_wg q = 0"
  shows "q_tasks q = {#}" and "q_refused q = 0" and "q_sum q = asked_sum pl" and "\<exists>k k'. mset (q_lines q) = asked_lines k k' pl"
proof -
  show tasks: "q_tasks q = {#}" and refused: "q_refused q = 0"
    using assms by (simp_all add: queue_inv_def add_nonneg_eq_0_iff)
  show "q_sum q = asked_sum pl" and "\<exists>k k'. mset (q_lines q) = asked_lines k k' pl"
    using assms tasks refused by (auto simp: queue_inv_def)
qed

lemma queue_inv_step:
  assumes "queue_step s s'" and "queue_inv s"
  shows "queue_inv s'"
  using assms
proof cases
  case (submit i q taken)
  with assms(2) show ?thesis by (auto intro!: queue_inv_hand_over [where pl = "Submitting i"])
next
  case (submitted i q)
  with assms(2) have "i = runTimes" by (simp add: queue_inv_def)
  with submitted assms(2) show ?thesis by (auto intro: queue_inv_place [where pl = "Submitting i"])
next
  case (waited_first q k)
  from queue_inv_waited [OF assms(2) [unfolded waited_first(1)] waited_first(3)] show ?thesis
    unfolding waited_first by (auto simp: queue_inv_def waited_first(3) say_def first_lines_def run_lines_def)
next
  case (invoke i q taken)
  with assms(2) show ?thesis
    by (auto intro!: queue_inv_hand_over [where pl = "Invoking i"] simp: run_lines_def add.commute)
next
  case (invoked i q)
  with assms(2) have "i = runTimes" by (simp add: queue_inv_def)
  with invoked assms(2) show ?thesis by (auto intro: queue_inv_place [where pl = "Invoking i"])
next
  case (waited_second q k)
  from queue_inv_waited [OF assms(2) [unfolded waited_second(1)] waited_second(3)] show ?thesis
    unfolding waited_second by (fastforce simp: queue_inv_def waited_second(3) say_def)
next
  case (task_piece pl q p ps ts q')
  with assms(2) queue_inv_piece show ?thesis by blast
next
  case (task_panics pl q p ps ts m)
  with assms(2) queue_inv_no_panic show ?thesis by blast
qed

lemma queue_reaches_inv: "queue_reaches s \<Longrightarrow> queue_inv s"
proof (induction rule: rtranclp_induct)
  case base
  show ?case by (simp add: queue_start_def queue_inv_def)
qed (rule queue_inv_step)

text \<open>The end is reached only by the second wait.\<close>

lemma queue_ended:
  assumes "queue_reaches (Ended, q)"
  obtains q0 k where "queue_inv (WaitSecond, q0)" and "q_wg q0 = 0"
    and "q = say (result_line (q_sum q0)) (say (running_line k) q0)"
proof -
  have "queue_start \<noteq> (Ended, q)" by (simp add: queue_start_def)
  with assms obtain s where "queue_reaches s" and step: "queue_step s (Ended, q)"
    by (metis rtranclp.cases)
  then have "queue_inv s" using queue_reaches_inv by blast
  with step show ?thesis by cases (use that in auto)
qed

lemma runTimes_sum: "(\<Sum>k<runTimes. word_of_nat k :: 32 word) = 499500"
proof -
  have "(\<Sum>k<n. word_of_nat k :: 32 word) = word_of_nat (n * (n - 1) div 2)" for n
  proof (induction n)
    case (Suc n)
    have "n + n * (n - 1) div 2 = Suc n * (Suc n - 1) div 2" by (cases n) simp_all
    then have "word_of_nat (n * (n - 1) div 2) + word_of_nat n = (word_of_nat (Suc n * (Suc n - 1) div 2) :: 32 word)"
      by (metis add.commute of_nat_add)
    with Suc show ?case by simp
  qed simp
  then show ?thesis by (simp add: runTimes_def)
qed

section \<open>A run that ends\<close>

lemma queue_piece:
  assumes "queue_reaches (pl, q)" and "q_tasks q = {#p # ps#}" and "pl \<noteq> Ended" and "\<forall>m. pl \<noteq> Died m"
    and "q'' = q'\<lparr>q_tasks := task_rest ps\<rparr>" and "run_piece p q = Value q'"
  shows "queue_reaches (pl, q'')"
  using rtranclp.rtrancl_into_rtrancl [OF assms(1) task_piece [OF assms(3,4,2,6)]] assms(5) by simp

text \<open>Each task may be done before the next one is handed over.\<close>

lemma queue_submits:
  "i \<le> runTimes \<Longrightarrow> \<exists>q. queue_reaches (Submitting i, q) \<and> q_tasks q = {#} \<and> q_wg q = 0"
proof (induction i)
  case 0
  show ?case by (rule exI [of _ "snd queue_start"]) (simp add: queue_start_def)
next
  case (Suc i)
  then obtain q where q: "queue_reaches (Submitting i, q)" "q_tasks q = {#}" "q_wg q = 0" by auto
  have "i < runTimes" using Suc.prems by simp
  from rtranclp.rtrancl_into_rtrancl [OF q(1) submit [OF this, where taken = True]] q
  have "queue_reaches (Submitting (Suc i), hand_over True syncCalculateSum q)" by simp
  then have "queue_reaches (Submitting (Suc i),
      (say hello_line (hand_over True syncCalculateSum q))\<lparr>q_tasks := {#[WgDone]#}\<rparr>)"
    by (rule queue_piece [where p = SayHello and ps = "[WgDone]"])
      (simp_all add: q syncCalculateSum_def demoFunc_def task_rest_def)
  then have "queue_reaches (Submitting (Suc i),
      (say hello_line (hand_over True syncCalculateSum q))\<lparr>q_wg := 0, q_tasks := {#}\<rparr>)"
    by (rule queue_piece [where p = WgDone and ps = "[]"]) (simp_all add: q task_rest_def say_def)
  then show ?case by fastforce
qed

lemma queue_invokes:
  "i \<le> runTimes \<Longrightarrow> \<exists>q. queue_reaches (Invoking i, q) \<and> q_tasks q = {#} \<and> q_wg q = 0"
proof (induction i)
  case 0
  obtain q where q: "queue_reaches (Submitting runTimes, q)" "q_tasks q = {#}" "q_wg q = 0"
    using queue_submits by blast
  let ?q = "say ''finish all tasks.'' (say (running_line 0) q)"
  have "queue_step (Submitting runTimes, q) (WaitFirst, q)" by (rule submitted) simp
  moreover have "queue_step (WaitFirst, q) (Invoking 0, ?q)" using q(3) by (rule waited_first)
  ultimately have "queue_reaches (Invoking 0, ?q)" using q(1) by (meson rtranclp.rtrancl_into_rtrancl)
  with q(2,3) show ?case by (intro exI [of _ ?q]) (simp add: say_def)
next
  case (Suc i)
  then obtain q where q: "queue_reaches (Invoking i, q)" "q_tasks q = {#}" "q_wg q = 0" by auto
  have "i < runTimes" using Suc.prems by simp
  let ?n = "word_of_nat i :: 32 word"
  let ?q = "hand_over True (pool_function ?n) q"
  from rtranclp.rtrancl_into_rtrancl [OF q(1) invoke [OF \<open>i < runTimes\<close>, where taken = True]]
  have "queue_reaches (Invoking (Suc i), ?q)" by simp
  then have "queue_reaches (Invoking (Suc i), ?q\<lparr>q_sum := q_sum q + ?n, q_tasks := {#[SayRun ?n, WgDone]#}\<rparr>)"
    by (rule queue_piece [where p = "AddInt32 ?n" and ps = "[SayRun ?n, WgDone]"]) (simp_all add: q pool_function_def myFunc_def task_rest_def)
  then have "queue_reaches (Invoking (Suc i),
      (say (run_line ?n) ?q)\<lparr>q_sum := q_sum q + ?n, q_tasks := {#[WgDone]#}\<rparr>)"
    by (rule queue_piece [where p = "SayRun ?n" and ps = "[WgDone]"]) (simp_all add: q task_rest_def say_def)
  then have "queue_reaches (Invoking (Suc i),
      (say (run_line ?n) ?q)\<lparr>q_sum := q_sum q + ?n, q_wg := 0, q_tasks := {#}\<rparr>)"
    by (rule queue_piece [where p = WgDone and ps = "[]"]) (simp_all add: q task_rest_def say_def)
  then show ?case by fastforce
qed

lemma queue_can_end: "\<exists>q. queue_reaches (Ended, q)"
proof -
  obtain q where q: "queue_reaches (Invoking runTimes, q)" "q_tasks q = {#}" "q_wg q = 0"
    using queue_invokes by blast
  have "queue_step (Invoking runTimes, q) (WaitSecond, q)" by (rule invoked) simp
  moreover have "queue_step (WaitSecond, q) (Ended, say (result_line (q_sum q)) (say (running_line 0) q))"
    using q(3) by (rule waited_second)
  ultimately show ?thesis using q(1) by (meson rtranclp.rtrancl_into_rtrancl)
qed

section \<open>What the program does\<close>

text \<open>
  C25. However the pool schedules and interleaves the two thousand tasks, whichever of them it
  refuses, a program that ends has run them all, once each: no task is left, the wait group is at
  zero, the 32-bit sum has not wrapped around and is the sum of 0 to 999, each greeting and each of
  the thousand numbers was printed exactly once, and the result is the last line.
\<close>

theorem queue_result:
  assumes "queue_reaches (Ended, q)"
  shows "sint (q_sum q) = (\<Sum>i<1000. int i) \<and> q_tasks q = {#} \<and> q_wg q = 0 \<and>
    last (q_lines q) = ''finish all tasks, result is 499500'' \<and>
    (\<exists>k k'. mset (q_lines q) =
       replicate_mset 1000 hello_line + {#running_line k, ''finish all tasks.''#} +
       image_mset (\<lambda>i. run_line (word_of_nat i)) (mset [0..<1000]) +
       {#running_line k', ''finish all tasks, result is 499500''#})"
proof -
  obtain q0 k' where inv: "queue_inv (WaitSecond, q0)" and zero: "q_wg q0 = 0"
    and q: "q = say (result_line (q_sum q0)) (say (running_line k') q0)"
    using assms by (rule queue_ended)
  note waited = queue_inv_waited [OF inv zero]
  have sum: "q_sum q0 = 499500" using waited(3) runTimes_sum by simp
  have result: "result_line 499500 = ''finish all tasks, result is 499500''"
    by (simp add: result_line_def int32_text_def decimal.simps)
  have gauss: "(\<Sum>i<n. int i) = int n * (int n - 1) div 2" for n
    by (induction n) (simp_all add: algebra_simps)
  obtain k where "mset (q_lines q0) = first_lines k + run_lines 1000"
    using waited(4) by (auto simp: runTimes_def)
  then have "mset (q_lines q) = replicate_mset 1000 hello_line + {#running_line k, ''finish all tasks.''#} +
      image_mset (\<lambda>i. run_line (word_of_nat i)) (mset [0..<1000]) +
      {#running_line k', ''finish all tasks, result is 499500''#}"
    by (simp add: q say_def sum result first_lines_def run_lines_def runTimes_def)
  then show ?thesis using waited(1) zero by (auto simp: q say_def sum result gauss)
qed

theorem queue_result_witness:
  "\<exists>q. queue_reaches (Ended, q) \<and> sint (q_sum q) = (\<Sum>i<1000. int i)"
  using queue_can_end queue_result by blast

fun place_left :: "place \<Rightarrow> nat" where
  "place_left (Submitting i) = 3 * (runTimes - i) + 4 * runTimes + 5"
| "place_left WaitFirst = 4 * runTimes + 4"
| "place_left (Invoking i) = 4 * (runTimes - i) + 3"
| "place_left WaitSecond = 2"
| "place_left Ended = 1"
| "place_left (Died m) = 0"

definition queue_left :: "place \<times> queue_state \<Rightarrow> nat" where
  "queue_left s = place_left (fst s) + (\<Sum>t \<in># q_tasks (snd s). length t)"

lemma queue_step_left: "queue_step s s' \<Longrightarrow> queue_left s' < queue_left s"
proof (induction rule: queue_step.induct)
  case (task_piece pl q p ps ts q')
  then show ?case by (simp add: queue_left_def task_rest_def)
next
  case (task_panics pl q p ps ts m)
  then show ?case by (cases pl) (simp_all add: queue_left_def)
qed (auto simp: queue_left_def say_def syncCalculateSum_def demoFunc_def pool_function_def myFunc_def)

text \<open>
  C26. No schedule lets the program run for ever, and it never panics. When it cannot go on, either it has
  ended and the pool had refused nothing, or it hangs in one of its two waits with nothing left to run
  and the counter of the wait group is the number of tasks the pool refused, at least one: their error
  is dropped after \<open>wg.Add(1)\<close> and nobody calls \<open>wg.Done\<close> for them.
\<close>

theorem queue_ends_or_waits:
  assumes "queue_reaches (pl, q)" and "\<forall>s. \<not> queue_step (pl, q) s"
  shows "wf {(s', s). queue_step s s'} \<and>
    (pl = Ended \<and> q_refused q = 0 \<or>
     (pl = WaitFirst \<or> pl = WaitSecond) \<and> q_tasks q = {#} \<and> q_wg q = int (q_refused q) \<and> 0 < q_refused q)"
proof -
  have inv: "queue_inv (pl, q)" using assms(1) by (rule queue_reaches_inv)
  have "wf {(s', s). queue_step s s'}"
    by (rule wf_subset [OF wf_measure [of queue_left]]) (use queue_step_left in auto)
  moreover have "q_tasks q = {#}" if "pl \<noteq> Ended"
  proof (rule ccontr)
    assume "q_tasks q \<noteq> {#}"
    then obtain t ts where ts: "q_tasks q = add_mset t ts" by (meson multiset_cases)
    with inv obtain p ps where t: "t = p # ps" by (cases t) (auto simp: queue_inv_def one_done_def)
    have "\<forall>m. pl \<noteq> Died m" using inv by (auto simp: queue_inv_def)
    then have "\<forall>q'. run_piece p q \<noteq> Value q'" using assms(2) task_piece that ts t by blast
    with queue_inv_no_panic [OF inv ts [unfolded t]] show False
      by (cases p) (auto split: if_splits)
  qed
  moreover have "q_refused q = 0" if "pl = Ended"
    using assms(1) that queue_ended queue_inv_waited(2) by (metis say_refused)
  moreover have "pl = Ended \<or> (pl = WaitFirst \<or> pl = WaitSecond) \<and> q_wg q \<noteq> 0"
  proof (cases pl)
    case (Submitting i)
    then show ?thesis using assms(2) submit submitted by blast
  next
    case (Invoking i)
    then show ?thesis using assms(2) invoke invoked by blast
  next
    case WaitFirst
    then have "q_wg q \<noteq> 0" using assms(2) waited_first by blast
    then show ?thesis using WaitFirst inv by (auto simp: queue_inv_def)
  next
    case WaitSecond
    then have "q_wg q \<noteq> 0" using assms(2) waited_second by blast
    then show ?thesis using WaitSecond inv by (auto simp: queue_inv_def)
  qed (use inv in \<open>auto simp: queue_inv_def\<close>)
  ultimately show ?thesis using inv by (auto simp: queue_inv_def)
qed

theorem queue_ends_or_waits_witness:
  "\<exists>q. queue_reaches (Ended, q) \<and> wf {(s', s). queue_step s s'}"
proof -
  obtain q where q: "queue_reaches (Ended, q)" using queue_can_end by blast
  have "\<forall>s. \<not> queue_step (Ended, q) s" by (auto elim: queue_step.cases)
  from queue_ends_or_waits [OF q this] q show ?thesis by blast
qed

end
