(* ===== verification/Small_Programs.thy ===== *)
theory Small_Programs
  imports Runner
begin

text \<open>
  The programs that are run inside containers (\<open>actions/\<close>, \<open>test/\<close>) and the small ones of \<open>pkg/\<close>.
  What the operating system gives them (the output of a command, a directory, a file) is an
  argument. A program is what it writes to its standard output, its log, which zerolog writes to the
  standard error, and how it ends.
\<close>

section \<open>Running commands\<close>

text \<open>\<open>exec.Command(path).Output()\<close>: what the command wrote to its standard output, and an error.\<close>

type_synonym exec_world = "string \<Rightarrow> string \<times> go_error option"

datatype log_entry = LogPrint string | LogErr "go_error option" string

record go_program =
  prog_out :: string
  prog_log :: "log_entry list"
  prog_end :: "unit run"

definition newline :: string where
  "newline = [CHR 0x0A]"

definition line :: "string \<Rightarrow> string" where
  "line s = s @ newline"

text \<open>What a program looks like to the one that runs it as a command.\<close>

definition command_result :: "go_program \<Rightarrow> string \<times> go_error option" where
  "command_result p =
     (prog_out p, case prog_end p of
        Value _ \<Rightarrow> None
      | Panicked m \<Rightarrow> Some (ErrText ''exit status 2'')
      | Exited m \<Rightarrow> Some (ErrText ''exit status 1''))"

section \<open>The actions\<close>

definition generate_main :: go_program where
  "generate_main =
     \<lparr>prog_out = [], prog_log = [LogPrint ''Starting generate action''], prog_end = Value ()\<rparr>"

definition process_main :: go_program where
  "process_main =
     \<lparr>prog_out = [], prog_log = [LogPrint ''Starting process action''], prog_end = Value ()\<rparr>"

text \<open>\<open>fmt.Print\<close> of a slice of bytes prints their numbers in brackets.\<close>

definition print_bytes :: "string \<Rightarrow> string" where
  "print_bytes bytes = ''['' @ join_with '' '' (map (\<lambda>c. decimal (of_char c)) bytes) @ '']''"

definition wrapper_main :: "exec_world \<Rightarrow> go_program" where
  "wrapper_main exec =
     (case exec ''/app/actions/generate/generate_/generate'' of
        (out, err) \<Rightarrow>
          \<lparr>prog_out = print_bytes out,
           prog_log = [LogPrint ''Starting action wrapper 3'', LogErr err ''generate''],
           prog_end = Value ()\<rparr>)"

text \<open>
  The wrapper never fails, even when the action cannot be run, and what it prints is not what the
  action printed: never a line of the action's output, nothing but numbers for it.
\<close>

lemma wrapper_never_fails: "prog_end (wrapper_main exec) = Value ()"
  by (simp add: wrapper_main_def split: prod.splits)

lemma wrapper_prints_numbers:
  assumes "exec ''/app/actions/generate/generate_/generate'' = (out, err)"
  shows "prog_out (wrapper_main exec) \<noteq> out"
proof
  assume same: "prog_out (wrapper_main exec) = out"
  have longer: "length bs \<le> length (join_with sep (map (\<lambda>c. decimal (of_char c)) bs))" for sep and bs :: string
  proof (induction bs)
    case (Cons b bs)
    have "0 < length (decimal n)" for n by (simp add: decimal.simps)
    then have "1 \<le> length (decimal (of_char b))" by (simp add: Suc_le_eq)
    with Cons show ?case by (cases bs) (simp_all del: length_greater_0_conv)
  qed simp
  from arg_cong [OF same, of length] longer [of out "'' ''"] show False
    by (simp add: wrapper_main_def assms print_bytes_def)
qed

text \<open>The action logs to its standard error, so beside it the wrapper prints an empty pair of brackets.\<close>

lemma wrapper_of_generate:
  "prog_out (wrapper_main (\<lambda>path. command_result generate_main)) = ''[]''"
  by (simp add: wrapper_main_def command_result_def generate_main_def print_bytes_def)

section \<open>The test image\<close>

definition sub_main :: go_program where
  "sub_main = \<lparr>prog_out = line ''This is sub'', prog_log = [], prog_end = Value ()\<rparr>"

definition another_main :: go_program where
  "another_main = \<lparr>prog_out = line ''This is another'', prog_log = [], prog_end = Value ()\<rparr>"

definition says :: "string \<Rightarrow> string \<Rightarrow> string" where
  "says who out = line (who @ '' says '' @ out)"

definition test_header :: "go_error + string \<Rightarrow> string" where
  "test_header getwd =
     ''Runner VERY NEW MORE THAN THAT. Listing .:'' @ line ''------------'' @
     (case getwd of Inl err \<Rightarrow> line (error_text err) @ line [] | Inr mydir \<Rightarrow> line mydir) @
     line ''------------''"

definition test_runner_main :: "go_error + string \<Rightarrow> exec_world \<Rightarrow> go_program" where
  "test_runner_main getwd exec =
     (case exec ''/app/test/sub_/sub'' of
        (out, Some err) \<Rightarrow>
          \<lparr>prog_out = test_header getwd @ line ''ERROR'', prog_log = [], prog_end = Exited (error_text err)\<rparr>
      | (out, None) \<Rightarrow>
          (case exec ''/app/test/another_/another'' of
             (out', Some err) \<Rightarrow>
               \<lparr>prog_out = test_header getwd @ says ''sub'' out @ line ''ERROR'', prog_log = [],
                prog_end = Exited (error_text err)\<rparr>
           | (out', None) \<Rightarrow>
               \<lparr>prog_out = test_header getwd @ says ''sub'' out @ says ''another'' out', prog_log = [],
                prog_end = Value ()\<rparr>))"

lemma test_runner_ends_iff:
  "returns (prog_end (test_runner_main getwd exec)) \<longleftrightarrow>
     snd (exec ''/app/test/sub_/sub'') = None \<and> snd (exec ''/app/test/another_/another'') = None"
  by (simp add: test_runner_main_def split: prod.splits option.splits)

text \<open>The image, with its two other programs where the build puts them.\<close>

definition test_image :: exec_world where
  "test_image path =
     (if path = ''/app/test/sub_/sub'' then command_result sub_main
      else if path = ''/app/test/another_/another'' then command_result another_main
      else ([], Some (ErrText ''no such file or directory'')))"

lemma test_image_runs:
  "test_runner_main getwd test_image =
     \<lparr>prog_out = test_header getwd @ says ''sub'' (line ''This is sub'') @
        says ''another'' (line ''This is another''), prog_log = [], prog_end = Value ()\<rparr>"
  by (simp add: test_runner_main_def test_image_def command_result_def sub_main_def another_main_def)

section \<open>Demonstrations of packages\<close>

text \<open>
  \<open>pkg/bin/amain.go\<close> and \<open>pkg/egraph/amain.go\<close> are the same program: the names in the current
  directory, and whether one file can be read.
\<close>

definition amain :: "go_error + string list \<Rightarrow> go_error option \<Rightarrow> go_program" where
  "amain files readFile =
     (let start = line ''hello world'' @ line ''------------------''
      in case files of
           Inl err \<Rightarrow> \<lparr>prog_out = start, prog_log = [], prog_end = Exited (error_text err)\<rparr>
         | Inr fs \<Rightarrow>
             \<lparr>prog_out = start @ concat (map line fs) @
                (case readFile of Some err \<Rightarrow> line (''Failure  '' @ error_text err) | None \<Rightarrow> line ''Success''),
              prog_log = [], prog_end = Value ()\<rparr>)"

definition egraph_amain :: "go_error + string list \<Rightarrow> go_error option \<Rightarrow> go_program" where
  "egraph_amain = amain"

text \<open>
  \<open>pkg/runner/exec.go\<close> prints two task states. The type has no method \<open>String\<close>, so they are numbers;
  fifty is none of the states.
\<close>

definition state_line :: "int \<Rightarrow> string" where
  "state_line n = line (''>> '' @ decimal (nat n))"

definition exec_main :: go_program where
  "exec_main =
     \<lparr>prog_out = state_line (status_number Running) @ state_line 50, prog_log = [], prog_end = Value ()\<rparr>"

lemma exec_main_prints: "prog_out exec_main = line ''>> 3'' @ line ''>> 50''"
  by (simp add: exec_main_def state_line_def decimal.simps)

lemma fifty_is_no_status: "status_number s \<noteq> 50"
  by (cases s) simp_all

text \<open>\<open>pkg/protoflags\<close> does not look at its argument.\<close>

definition FlagsFromProtobuf :: "'message \<Rightarrow> string" where
  "FlagsFromProtobuf message = ''Inspecting protobuf''"

end
