(* ===== verification/Spec2Isabelle.thy ===== *)
theory Spec2Isabelle
  imports Deployment_Run Many_Values Build_Workers Ui_Service Client_Shell Graph_Program Object_Sizes Startup
    Fixture Calls_End Task_Pool Small_Programs
begin

text \<open>
  A model of \<open>eval\<close>, a build and evaluation service in Go, and what it does right and wrong.

  The program. A user runs \<open>evalctl eval image.build\<close> (\<open>cmd/evalctl\<close>). The client picks one of the
  built-in action graphs (\<open>pkg/agraph\<close>, \<open>pkg/actions\<close>), applies the user's substitutions and sends
  the graph to the engine (\<open>cmd/engine\<close>). The engine asks the cache (\<open>cmd/cache\<close>) for every
  requested value and records the operations it gets in a database. The cache answers from what it
  has, under the digest of the action, or asks the builder (\<open>cmd/builder\<close>), which queues a task; a
  worker submits a Kubernetes job and marks the build done when the watch says so. The client polls
  the engine, the engine polls the cache, the cache polls the builder. Before a miss the cache also
  calls the runner (\<open>cmd/runner\<close>). All services answer with the long-running operations of
  \<open>proto/async_service\<close>.

  The theories, in the order they build on each other.
  \<^item> \<open>Go_Prelude\<close>: how a Go call ends (a value, a panic, \<open>log.Fatal\<close>), remote calls that see a dead
    server, strings, and ranging over a map in an arbitrary order.
  \<^item> \<open>Go_Sha256\<close>: SHA-256 and hexadecimal text, from the standard library, on 32-bit words.
  \<^item> \<open>Json_Text\<close>: the JSON text of a list of strings and why it determines the list.
  \<^item> \<open>Proto_Messages\<close>: one record per message of \<open>proto/\<close>. The protobuf runtime is the parameter
    \<open>proto_lib\<close>, its documented laws are \<open>proto_laws\<close>; \<open>tagged_lib\<close> is an instance that has them.
  \<^item> \<open>Value_Types\<close> (\<open>pkg/types\<close>), \<open>Actions\<close> (\<open>pkg/actions\<close>, \<open>pkg/agraph\<close>), \<open>Cache_Store\<close>
    (\<open>pkg/cache\<close>), \<open>K8s_Model\<close> (\<open>pkg/k8s\<close>), \<open>Runner\<close> (\<open>cmd/runner\<close>, \<open>pkg/runner\<close>), \<open>Grpc_Client\<close>
    (\<open>pkg/grpc/client\<close>) and \<open>Helpers\<close> (\<open>pkg/git\<close>, \<open>pkg/pointer\<close>, \<open>pkg/hash\<close>).
  \<^item> \<open>Service_Contracts\<close>: the contracts as locales. \<open>operations_service\<close> is what a poller relies on;
    \<open>builder_service\<close> adds what the cache relies on.
  \<^item> \<open>Builder\<close>, \<open>Cache_Server\<close>, \<open>Engine\<close>: the three services. The builder is an interpretation of
    \<open>builder_service\<close>; any builder with that contract gives a cache that is an \<open>operations_service\<close>
    (a sublocale), and any such service gives an engine that is one (\<open>engine_backend\<close>), so the
    deployed chain is obtained by interpretation.
  \<^item> \<open>Build_Workers\<close>: the builder's two workers side by side, each waiting for events of the cluster that
    reach both.
  \<^item> \<open>Evalctl\<close>: the client. \<open>Client_Shell\<close>: the program around its commands. \<open>Fixture\<close> (\<open>pkg/fixture\<close>): the example graph its completions are written for.
  \<^item> \<open>System\<close>: the cache, the builder and the runner as one step relation, with calls, workers and
    restarts of the processes interleaved; the invariants of its reachable states.
  \<^item> \<open>Backend_Spec\<close>: what the backend promises, an abstract machine of operations that wait, are built or
    are held, and the simulation by which the step relation refines it (the locale \<open>refinement\<close>).
  \<^item> \<open>Overlapping_Calls\<close>: the cache with several calls in flight, the invariants it keeps, and a run in
    which a late reply undoes a finished build.
  \<^item> \<open>Deployment\<close>: the engine in front of it, its handlers cut at their calls of the cache, so that
    evaluations and polls overlap too, whatever they ask for; \<open>Told_Images\<close>: the invariant that what a
    client is told is an image of what it asked for, when all evaluations ask for image builds;
    \<open>Told_Types\<close>: the invariant that it has the type of one, in all runs; \<open>Deployment_Run\<close>: these
    properties on a concrete run; \<open>Calls_End\<close>: the work left of the calls in flight, which every step of
    theirs takes from.
  \<^item> \<open>Many_Values\<close>: waiting for several values, each poll of which asks for all of them again.
  \<^item> \<open>End_To_End\<close>: one evaluation from the arguments of \<open>evalctl\<close> to what it prints.
  \<^item> \<open>Startup\<close>: how the services start (\<open>pkg/grpc/server\<close>, \<open>pkg/db\<close>, the \<open>serviceRegister\<close> and \<open>main\<close>
    functions), as the list of the steps a start takes, and how a server stops.
  \<^item> \<open>Http_Mux\<close>: which handler the standard library's mux gives a request to. \<open>Ui_Service\<close> (\<open>cmd/ui\<close>): the
    web page and the order in which \<open>fx\<close> puts it together.
  \<^item> \<open>Module_Loader\<close> (\<open>pkg/egraph\<close>): the loader of Starlark graphs with its cache and cycle check;
    \<open>Graph_Program\<close>: the older way to run a graph file.
  \<^item> \<open>Object_Sizes\<close> (\<open>pkg/sizeof\<close>): the size of an object through its pointers, slices and maps.
  \<^item> \<open>Task_Pool\<close> (\<open>experimental/queue\<close>): a program that hands tasks to a pool of goroutines, under any
    schedule; \<open>Small_Programs\<close>: the programs run in containers (\<open>actions\<close>, \<open>test\<close>) and those of \<open>pkg\<close>.
  \<^item> \<open>Sample_Run\<close>: a concrete run, on which the properties are witnessed.

  State and effects. The state of a service is the record of its maps (\<open>builder_state\<close> for
  \<open>buildDone\<close> and \<open>buildInfo\<close>, \<open>cache_state\<close> for \<open>CacheBackend\<close> and \<open>downstreamOperation\<close>). What it asks
  of the outside world (database rows, queued tasks, cluster jobs) is appended to a trace in that
  state, which a restart keeps while the maps are lost. What the outside world answers during a call
  is an argument of the handler: identifiers, errors, the events of a watch, the order of a loop over
  a map. Calls between services go through stubs that carry the server's state along. In \<open>System\<close>
  a handler runs as one step, so the steps of different calls interleave but do not overlap. In
  \<open>Overlapping_Calls\<close> the handlers of the cache are cut at their calls of the builder, with the calls
  in flight as part of the state; what holds there holds however calls overlap, and every run of
  \<open>System\<close> is one of its runs. \<open>Deployment\<close> does the same for the engine, on top of it: every step of the
  deployment is a run of \<open>Overlapping_Calls\<close>. A worker of the builder, one step in \<open>System\<close>, is cut in
  \<open>Build_Workers\<close> at the events it waits for; its pieces are steps of \<open>Overlapping_Calls\<close> and \<open>Deployment\<close>,
  which do not keep apart the workers. Below that the model does not go: the Go maps are not locked, so two
  calls that touch them at the same instant are a data race.

  Termination. Every loop of the services is a recursion over a list. Three recursions of the program
  have no bound and are \<open>partial_function (option)\<close>, whose value \<open>None\<close> is a run that never ends: the
  client's polling loop (C9, C10 and C17 say when it ends), the module loader (C21) and the size of an
  object (C24, and C39 for an object on which it does not end). No fuel is used. That the calls of the
  deployment end, and the tasks of the pool, is shown of their step relations, by measures (C11, C26).

  Assumptions. New identifiers are fresh where the step relation says so. The text \<open>fmt\<close> prints for a
  commit point, which the digest covers, is a function of the commit point (the runtime fixes its
  spacing per binary). The database answers as \<open>db_law\<close> says where a property names it. A file of the
  module loader is what its execution does: the loads it comes to, and how it ends; that it stops at
  a load that failed (\<open>stops_on_error\<close>) is documented behaviour of the interpreter.

  The properties are C1 to C40, the most important ones first. Among them C10, C26, C27, C29 to
  C36, C39 and C40 state behaviour of the code that its clients cannot want, exactly as the code has it.

  How far the properties reach. C6, C8 and C16 are about \<open>System\<close> and hold as long as handlers do not
  overlap; C30 is a run in which they do. C2 to C5, C7, C11 and C12 hold however they overlap; of these C2,
  C3 and C7 need every client to ask for image builds that are the action \<open>build\<close> of their graph, because
  \<open>Get\<close> builds that action whatever it is asked for (C36). An image is one of a record of the builder, but
  a builder that restarted has lost the record in its memory and leaves name and tag empty (C35), which
  the properties on images allow as \<open>image_or_lost\<close>. C1 and C9 are about one client whose services nobody
  else moves but the workers.

  Not modelled: the libraries themselves (gRPC, TLS, gorm, viper, cobra, fx, go-git, Starlark), whose
  answers are parameters; the code of \<open>Eval\<close> after its return and other code that cannot be reached;
  and progress messages.
\<close>

section \<open>The whole evaluation\<close>

text \<open>
  C1. What the user sees: \<open>evalctl eval image.build\<close>, on a configuration the cache has no
  compatible entry for, or with caching skipped, ends and prints the name and tag of the image that was
  built and the digest the registry answers for it (an empty one when it answers an error). The
  hypotheses are that the client connects and reads its home, host and repository, that the services
  answer and record, with identifiers not in use, that the database returns the rows written to it, that
  a worker marks the build done after some number of polls, and that while the client waits only the
  builder works, with its records kept: no other call reaches the engine or the cache, and none of the
  processes restarts (C29 and C35 are what happens then).
\<close>

theorem evalctl_prints_the_image:
  assumes "runtime_ok L" and "packs_all (pack_build_image_config L)"
    and "client_ready ec" and "skip \<or> not_cached L c (substituted_config m)"
    and "ans_enqueue y = None" and "cache_uuid ca = Inr cid" and "eng_uuid ea = Inr eid"
    and "eng_create_error ea = None" and "eng_order ea = [''image.build'']"
    and "parse cid = Inr cid" and "db_law load" and "rows_of (engine_trace e) eid = []"
    and "cb_upstream c cid = None" and "\<forall>s. buildInfo (work s) = buildInfo s"
    and "buildDone ((work ^^ k) (requested_state y b (asked_build m))) (fst (ans_buildID y)) = Some True"
  shows "\<exists>x reg ans w'. env x 0 = (reg, ans) \<and>
    evalCmdImpl L ec
      (\<lambda>md. engine_call_Eval L parse (\<lambda>i. backend_Get L y job ca) (called_with extra md ea))
      (engine_poll L load env) (sleeping work) m skip [''image.build''] (e, c, b, r) =
    Some (Value
      [eval_header @ image_rows (cache_value_order ans) (fst (ans_imageTag y))
         (case getDigest reg ''eval'' (fst (ans_imageTag y)) of Inl err \<Rightarrow> [] | Inr d \<Rightarrow> d)], w')"
proof -
  let ?eval = "\<lambda>md. engine_call_Eval L parse (\<lambda>i. backend_Get L y job ca) (called_with extra md ea)"
  let ?conf = "substituted_config m"
  have laws: "proto_laws L" using assms(1) by (simp add: runtime_ok_def)
  obtain a refs md where a: "unpack_build_image_config L (Some a) = (?conf, None)"
    and md: "WithRequesterInfo (ec_requester ec) Map.empty = Value md"
    and calls: "evalCmdImpl L ec ?eval (engine_poll L load env) (sleeping work) m skip [''image.build'']
        (e, c, b, r) =
      call_and_wait L (?eval md) (engine_poll L load env) (sleeping work)
        (eval_request_for skip (image_graph_with L (Some a)) (fst refs) (snd refs) [''image.build'']) (e, c, b, r)"
    by (rule evalCmdImpl_calls [OF laws assms(2,3)])
  let ?req = "eval_request_for skip (image_graph_with L (Some a)) (fst refs) (snd refs) [''image.build'']"
  obtain cp where cp: "bic_commit_point ?conf = Some cp"
    using substituted_commit_point by blast
  have asked: "asked_build m = requested cp ?conf" using cp by (simp add: asked_build_def)
  have req: "er_context ?req = Some (the (er_context ?req))"
    "ctx_actions (the (er_context ?req)) = Some (image_graph_with L (Some a))"
    "er_values ?req = [''image.build'']" "er_skip_caching ?req \<or> not_cached L c ?conf"
    using assms(4) by (simp_all add: eval_request_for_def)
  have ea: "eng_uuid (called_with extra md ea) = Inr eid" "caller_known (called_with extra md ea)"
    "eng_create_error (called_with extra md ea) = None" "eng_order (called_with extra md ea) = [''image.build'']"
    using assms(7-9) caller_known_requester [OF md] by (simp_all add: called_with_def)
  show ?thesis
    by (rule Eval_then_await [where parse = parse and load = load and env = env and job = job and r = r,
          OF assms(1) req(4) assms(5,6) ea assms(10-14) assms(15) [unfolded asked] req(1-3) a cp])
      (unfold calls call_and_wait_def, intro exI conjI, assumption, simp)
qed

theorem evalctl_prints_the_image_witness:
  "\<exists>w'. evalCmdImpl tagged_lib sample_client
      (\<lambda>md. engine_call_Eval tagged_lib Inr (\<lambda>i. backend_Get tagged_lib sample_y ([], None) sample_ans)
        (called_with [''user-agent'' \<mapsto> [''grpc-go'']] md sample_engine_answers))
      (engine_poll tagged_lib db_rows sample_env) (sleeping sample_work) Map.empty False [''image.build'']
      (\<lparr>engine_trace = []\<rparr>, NewCacheBackend, builder_init, sample_runner) =
    Some (Value
      [[[''compare.baseline.train.features.generate.images''], [[]],
        [''image.build'', ''image_name'', ''eval''], [[], ''image_tag'', ''tag1''],
        [[], ''image_digest'', ''sha256:0'']]], w')"
proof -
  have "not_cached tagged_lib NewCacheBackend (substituted_config Map.empty)"
    by (rule not_cached_empty) (simp add: NewCacheBackend_def)
  then have miss: "False \<or> not_cached tagged_lib NewCacheBackend (substituted_config Map.empty)" by simp
  have "buildDone ((sample_work ^^ 1)
      (requested_state sample_y builder_init (asked_build Map.empty))) (fst (ans_buildID sample_y)) = Some True"
    unfolding sample_asked sample_requested by (rule sample_work_done)
  from evalctl_prints_the_image [where ca = sample_ans and ea = sample_engine_answers and parse = Inr
      and load = db_rows and env = sample_env and e = "\<lparr>engine_trace = []\<rparr>" and c = NewCacheBackend
      and skip = False and job = "([], None)" and r = sample_runner and cid = "''op1''" and eid = "''eval1''",
      OF sample_runtime _ sample_ready miss _ _ _ _ _ _ _ _ _ sample_work_info this]
  show ?thesis
    by (simp add: packs_all_def NewCacheBackend_def sample_y_def sample_ans_def sample_engine_answers_def
        rows_of_def sample_env_def image_rows_def sample_order_def eval_header_def getDigest_def
        sample_registry_def)
qed

section \<open>The image a client is told about\<close>

text \<open>
  Whatever the clients, the workers and the restarts of the processes do, when the cache says an
  operation is done that it was waiting for, its response is the dictionary of an image the builder
  answered for one recorded build, the build the operation stands for: a job for exactly that build
  was submitted to the cluster, every request the operation was started for is that build's, and the
  name and tag are those of its record (or empty, when the process that knew the build is gone).
\<close>

theorem done_answer_names_image:
  assumes "proto_laws L" and "reachable L ok (c, b, r)" and "waits_for c n m"
    and "backend_GetOperation L (reg, ans) (c, b, r) n = (Inr v, (c', b', r'))" and "op_done v"
  shows "\<exists>info resp. recorded b' info \<and> bi_BuildID info = m \<and> submitted b' info \<and>
    (\<forall>q. builder_serves b' m q \<longrightarrow> records info q) \<and> image_or_lost resp info \<and>
    unpack_get_response L (GetResponse v) = (image_response ans resp, None)"
proof -
  from assms(1,2) have inv: "backend_inv L (c, b, r)" by (rule reachable_inv)
  then have invb: "builder_inv b" by (simp add: cache_inv_simp)
  from assms(3,4) have poll: "poll_downstream L (builder_call_GetOperation L reg) ans (c, b, r) n =
      (Value (Inr v), (c', b', r'))"
    by (simp add: backend_GetOperation_def cache_call_GetOperation_def rpc_Inr waits_for_poll)
  from assms(3) have "downstreamOperation c n = Some m" by (simp add: waits_for_def)
  from poll_downstream_Inr [OF poll this] obtain opn b1 resp where
      get: "builder_call_GetOperation L reg b m = (Inr opn, b1)"
    and w': "(c', b', r') = (c\<lparr>cb_upstream := (cb_upstream c)(n \<mapsto> opn)\<rparr>, b1, r)"
    and un: "(if op_done opn then unpack_build_response L (GetResponse opn)
       else (zero_build_response, None)) = (resp, None)"
    and resp: "respond L n (op_done opn) (image_response ans resp) = Value (Inr v)" .
  from respond_Inr [OF assms(1) resp] assms(5) have v: "op_done opn"
    "unpack_get_response L (GetResponse v) = (image_response ans resp, None)" by simp_all
  from builder_call_GetOperation_built [OF assms(1) invb get v(1)] un v(1) w'
  obtain info where info: "recorded b' info" "bi_BuildID info = m" "submitted b' info" "image_or_lost resp info"
    by (auto simp: builder_built_def)
  have "builder_inv b'"
    using backend_inv_GetOperation [OF assms(1) inv assms(4)] by (simp add: cache_inv_simp)
  then have "\<forall>q. builder_serves b' m q \<longrightarrow> records info q"
    using info(1,2) unfolding builder_inv_def builder_serves_def by blast
  with info v(2) show ?thesis by blast
qed

lemma sample_poll:
  obtains v c' where "backend_GetOperation tagged_lib (sample_registry, sample_ans)
      (sample_cache1, sample_builder2, sample_runner) ''op1'' = (Inr v, (c', sample_builder2, sample_runner))"
    and "op_done v"
proof -
  have "buildDone sample_builder2 ''build1'' = Some True" by (simp add: sample_builder2_def)
  from backend_poll_done [OF sample_runtime sample_waits this] that show ?thesis by metis
qed

theorem done_answer_names_image_witness:
  "\<exists>v info resp. recorded sample_builder2 info \<and> bi_BuildID info = ''build1'' \<and>
     submitted sample_builder2 info \<and>
     (\<forall>q. builder_serves sample_builder2 ''build1'' q \<longrightarrow> records info q) \<and> image_or_lost resp info \<and>
     unpack_get_response tagged_lib (GetResponse v) = (image_response sample_ans resp, None)"
proof -
  obtain v c' where poll: "backend_GetOperation tagged_lib (sample_registry, sample_ans)
      (sample_cache1, sample_builder2, sample_runner) ''op1'' = (Inr v, (c', sample_builder2, sample_runner))"
    and "op_done v" by (rule sample_poll)
  then show ?thesis
    using done_answer_names_image [OF tagged_lib_laws sample_reachable2 [unfolded sample_w2_def]
        sample_waits poll] by blast
qed

section \<open>Waiting ends\<close>

text \<open>
  C9. The client's polling loop ends, for an evaluation of one value whose cache operation waits for a
  build, while nothing but the builder and the runner moves between its polls. If some poll finds the
  build marked done, the loop returns after the first one that does, with a reply that is done and holds
  exactly the requested value: the dictionary of the name and the tag the builder has of the build at
  that poll (empty if it restarted and lost them) and of the digest the registry then answers.
\<close>

theorem evaluation_completes:
  assumes "runtime_ok L" and "load (engine_trace e) n = [row]" and "idle sleep"
    and "waits_for c (or_DependentID row) m" and "op_name opn = n" and "\<not> op_done opn"
    and "buildDone (builder_of (poll_world (engine_poll L load env) sleep n k (e, c, b, r))) m = Some True"
  shows "\<exists>v w' reg ans b' j.
    await (engine_poll L load env) sleep opn (e, c, b, r) = Some (Value v, w') \<and> op_done v \<and>
    unpack_eval_response L (GetResponse v) = (image_values reg ans b' m row, None) \<and>
    b' = builder_of (poll_world (engine_poll L load env) sleep n j (e, c, b, r)) \<and> buildDone b' m = Some True \<and>
    (\<forall>i < j. buildDone (builder_of (poll_world (engine_poll L load env) sleep n i (e, c, b, r))) m \<noteq> Some True) \<and>
    (\<exists>x. env x 0 = (reg, ans))"
  using await_completes [where load = load, OF assms] by metis

definition sample_row :: OperationRow where
  "sample_row = \<lparr>or_EvaluationID = ''eval1'', or_DependentID = ''op1'', or_Value = ''image.build''\<rparr>"

definition sample_engine :: engine_state where
  "sample_engine =
     \<lparr>engine_trace = [CreateOperation sample_row,
        CreateEvaluation \<lparr>ev_ID = ''eval1'', ev_User = ''me'', ev_Hostname = ''here''\<rparr>]\<rparr>"

definition sample_sleep :: "tagged_any deployed \<Rightarrow> tagged_any deployed" where
  "sample_sleep w = (case w of (e, c, b, r) \<Rightarrow> (e, c, builder_process sample_worker b sample_task, r))"

definition sample_eval_reply :: "tagged_any operation" where
  "sample_eval_reply = reply_operation ''eval1'' False (AnyEvalResponse zero_eval_response)"

lemma sample_rows: "db_rows (engine_trace sample_engine) ''eval1'' = [sample_row]"
  by (simp add: db_rows_def sample_engine_def rows_of_def evaluations_of_def sample_row_def)

lemma sample_idle: "idle sample_sleep"
  by (simp add: idle_def sample_sleep_def)

lemma sample_poll_world:
  "buildDone (builder_of (poll_world (engine_poll tagged_lib db_rows sample_env) sample_sleep ''eval1'' 1
     (sample_engine, sample_cache1, sample_builder1, sample_runner))) ''build1'' = Some True"
proof -
  have "buildDone sample_builder1 ''build1'' \<noteq> Some True" by (simp add: sample_builder1_def)
  moreover have "waits_for sample_cache1 (or_DependentID sample_row) ''build1''"
    using sample_waits by (simp add: sample_row_def)
  ultimately obtain v c' where "engine_poll tagged_lib db_rows sample_env
      (sample_engine, sample_cache1, sample_builder1, sample_runner) ''eval1'' =
      (Inr v, (sample_engine, c', sample_builder1, sample_runner))"
    using engine_poll_pending [where load = db_rows, OF sample_runtime sample_rows] by metis
  then show ?thesis
    by (simp add: poll_world_def sample_sleep_def sample_process) (simp add: sample_builder2_def)
qed

theorem evaluation_completes_witness:
  "\<exists>v w' reg ans b'.
    await (engine_poll tagged_lib db_rows sample_env) sample_sleep sample_eval_reply
      (sample_engine, sample_cache1, sample_builder1, sample_runner) = Some (Value v, w') \<and> op_done v \<and>
    unpack_eval_response tagged_lib (GetResponse v) = (image_values reg ans b' ''build1'' sample_row, None) \<and>
    buildDone b' ''build1'' = Some True"
proof -
  have "waits_for sample_cache1 (or_DependentID sample_row) ''build1''"
    using sample_waits by (simp add: sample_row_def)
  moreover have "op_name sample_eval_reply = ''eval1''" "\<not> op_done sample_eval_reply"
    by (simp_all add: sample_eval_reply_def)
  ultimately show ?thesis
    using evaluation_completes [where load = db_rows, OF sample_runtime sample_rows sample_idle _ _ _ sample_poll_world]
    by blast
qed

section \<open>What a hit means\<close>

text \<open>
  As long as the clients ask for image builds, a hit of the cache is right: the operation found
  is one the builder was asked to run, for a configuration whose targets include the requested ones
  and whose base image and commit point hash to the same digest.
\<close>

theorem hit_is_same_build:
  assumes "proto_laws L" and "reachable L asks_build (c, b, r)"
    and "CacheBackend_Get L c action = Value (Inr n)" and "act_kind action = ''build-image''"
    and "unpack_build_image_config L (act_config action) = (new, None)"
  shows "\<exists>old cp m. downstreamOperation c n = Some m \<and> bic_commit_point old = Some cp \<and>
    builder_serves b m (requested cp old) \<and>
    set (bic_bazel_targets new) \<subseteq> set (bic_bazel_targets old) \<and>
    sha256 (digest_input L old) = sha256 (digest_input L new)"
  using hit_is_backed [OF reachable_inv [OF assms(1,2)] _ assms(3-5)] reachable_keyed [OF assms(2)] by simp

lemma sample_hit: "CacheBackend_Get tagged_lib sample_cache1 sample_action = Value (Inr ''op1'')"
  by (simp add: CacheBackend_Get_def sample_cache1_def)

theorem hit_is_same_build_witness:
  "\<exists>old cp m. downstreamOperation sample_cache1 ''op1'' = Some m \<and> bic_commit_point old = Some cp \<and>
    builder_serves sample_builder1 m (requested cp old) \<and>
    set (bic_bazel_targets sample_config) \<subseteq> set (bic_bazel_targets old) \<and>
    sha256 (digest_input tagged_lib old) = sha256 (digest_input tagged_lib sample_config)"
  by (rule hit_is_same_build [OF tagged_lib_laws sample_reachable1 [unfolded sample_w1_def] sample_hit])
    simp_all

section \<open>Builds and jobs\<close>

text \<open>
  A build is marked done only after a job was submitted to the cluster for exactly what was
  recorded of it in the database: the same identifier, branch, commit, targets and image tag.
\<close>

theorem done_only_after_job:
  assumes "proto_laws L" and "reachable L ok (c, b, r)" and "buildDone b n = Some True"
  shows "\<exists>info. recorded b info \<and> bi_BuildID info = n \<and> submitted b info"
  using reachable_inv [OF assms(1,2)] assms(3) by (simp add: cache_inv_simp builder_inv_def)

theorem done_only_after_job_witness:
  "\<exists>info. recorded sample_builder2 info \<and> bi_BuildID info = ''build1'' \<and> submitted sample_builder2 info"
  by (rule done_only_after_job [OF tagged_lib_laws sample_reachable2 [unfolded sample_w2_def]])
    (simp add: sample_builder2_def)

text \<open>
  A build is marked done only after its job ran: whatever happens in between, a job with exactly the
  branch, the commit and the targets of the request behind the build, and with the tag of its record,
  was submitted to the cluster. The record, whose targets are JSON text, belongs to no other request.
\<close>

theorem done_build_is_as_requested:
  assumes "proto_laws L" and "reachable L ok (c, b, r)" and "buildDone b n = Some True"
    and "builder_serves b n q"
  shows "\<exists>info. recorded b info \<and> bi_BuildID info = n \<and> (\<forall>q'. records info q' \<longleftrightarrow> q' = q) \<and>
    CreateK8sJob (buildJobSpec n (br_branch q) (br_commitSHA q) (br_target q) (bi_ImageTag info))
      \<in> set (builder_trace b)"
proof -
  have inv: "builder_inv b" using reachable_inv [OF assms(1,2)] by (simp add: cache_inv_simp)
  with assms(3) obtain info where i: "recorded b info" "bi_BuildID info = n" "submitted b info"
    by (auto simp: builder_inv_def)
  from assms(4) obtain j where j: "recorded b j" "bi_BuildID j = n" "records j q"
    by (auto simp: builder_serves_def)
  from inv i(1,2) j(1,2) have "j = info" by (auto simp: builder_inv_def)
  with i j(3) submitted_job [OF i(3)] records_unique show ?thesis by blast
qed

theorem done_build_is_as_requested_witness:
  "\<exists>info. recorded sample_builder2 info \<and> bi_BuildID info = ''build1'' \<and>
     (\<forall>q'. records info q' \<longleftrightarrow> q' = sample_build) \<and>
     CreateK8sJob (buildJobSpec ''build1'' (br_branch sample_build) (br_commitSHA sample_build)
       (br_target sample_build) (bi_ImageTag info)) \<in> set (builder_trace sample_builder2)"
proof (rule done_build_is_as_requested [OF tagged_lib_laws sample_reachable2 [unfolded sample_w2_def]])
  show "builder_serves sample_builder2 ''build1'' sample_build"
    unfolding builder_serves_def recorded_def
    by (rule exI [of _ sample_info]) (simp add: sample_builder2_def sample_info_def sample_y_def)
qed (simp add: sample_builder2_def)

section \<open>Polling observes\<close>

text \<open>
  C16. As long as calls of the cache are handled one at a time (C30 is what happens otherwise): when the
  engine answers a poll, it says done exactly when the cache has a final answer for every operation
  recorded for the evaluation, and the poll itself finishes or reopens no evaluation.
\<close>

theorem poll_done_iff_all_finished:
  assumes "proto_laws L" and "reachable L ok w"
    and "engine_call_GetOperation L load (\<lambda>i. backend_GetOperation L (xs i)) (e, w) n = (Inr v, (e', w'))"
  shows "(op_done v \<longleftrightarrow>
      (\<forall>row \<in> set (load (engine_trace e) n). cache_finished builder_finished w (or_DependentID row))) \<and>
    (\<forall>k. engine_finished load (cache_finished builder_finished) (e', w') k \<longleftrightarrow>
      engine_finished load (cache_finished builder_finished) (e, w) k)"
proof -
  have inv: "proto_laws L \<and> backend_inv L (snd (e, w))"
    using assms(1) reachable_inv [OF assms(1,2)] by simp
  have call: "engine_call_GetOperation L load
      (\<lambda>i. (\<lambda>(x, ans). cache_call_GetOperation L (builder_call_GetOperation L x) ans) (xs i)) (e, w) n =
      (Inr v, (e', w'))"
    using assms(3) by (simp add: backend_GetOperation_def)
  show ?thesis
    using deployed.engine.done_iff [OF inv call] deployed.engine.finished_get [OF inv call]
    by (simp add: engine_finished_def)
qed

theorem poll_done_iff_all_finished_witness:
  "\<exists>v e' w'. engine_call_GetOperation tagged_lib db_rows
      (\<lambda>i. backend_GetOperation tagged_lib (sample_registry, sample_ans)) (sample_engine, sample_w2) ''eval1'' =
      (Inr v, (e', w')) \<and>
    (op_done v \<longleftrightarrow> (\<forall>row \<in> set (db_rows (engine_trace sample_engine) ''eval1'').
       cache_finished builder_finished sample_w2 (or_DependentID row)))"
proof -
  have wait: "waits_for sample_cache1 (or_DependentID sample_row) ''build1''"
    using sample_waits by (simp add: sample_row_def)
  have dn: "buildDone sample_builder2 ''build1'' = Some True" by (simp add: sample_builder2_def)
  obtain v c' where "engine_poll tagged_lib db_rows sample_env
      (sample_engine, sample_cache1, sample_builder2, sample_runner) ''eval1'' =
      (Inr v, (sample_engine, c', sample_builder2, sample_runner))"
    by (rule engine_poll_done [where load = db_rows, OF sample_runtime sample_rows wait dn])
  then have call: "engine_call_GetOperation tagged_lib db_rows
      (\<lambda>i. backend_GetOperation tagged_lib (sample_registry, sample_ans)) (sample_engine, sample_w2) ''eval1'' =
      (Inr v, (sample_engine, (c', sample_builder2, sample_runner)))"
    by (simp add: engine_poll_def sample_env_def sample_w2_def)
  from poll_done_iff_all_finished [OF tagged_lib_laws sample_reachable2 call] call show ?thesis by blast
qed

text \<open>
  Once the cache has answered done for an operation, it answers done to every later poll of it
  that is answered at all, whatever other operations are polled in between.
\<close>

theorem done_stays_done:
  assumes "proto_laws L" and "reachable L ok w"
    and "backend_GetOperation L x w n = (Inr v, w1)" and "op_done v"
    and "operations_service.poll_all (backend_GetOperation L) polls w1 = (replies, w2)"
    and "\<forall>reply \<in> set replies. \<not> isl reply"
    and "backend_GetOperation L y w2 n = (Inr v', w3)"
  shows "op_done v'"
proof -
  have inv: "proto_laws L \<and> backend_inv L w"
    using assms(1) reachable_inv [OF assms(1,2)] by simp
  show ?thesis
    using builder.cache.done_again [OF inv _ assms(4) _ assms(6)] assms(3,5,7)
    by (simp add: backend_GetOperation_def)
qed

lemma sample_poll_unfolded:
  obtains v a where "backend_GetOperation tagged_lib (sample_registry, sample_ans) sample_w2 ''op1'' =
      (Inr v, (sample_cache1\<lparr>cb_upstream := [''op1'' \<mapsto> reply_operation ''build1'' True a]\<rparr>,
        sample_builder2, sample_runner))" and "op_done v"
proof -
  have "buildDone sample_builder2 ''build1'' = Some True" by (simp add: sample_builder2_def)
  moreover have "cb_upstream sample_cache1 = Map.empty" by (simp add: sample_cache1_def)
  ultimately show ?thesis
    using backend_poll_done [OF sample_runtime sample_waits, of sample_builder2 sample_registry sample_ans
        sample_runner] that unfolding sample_w2_def by metis
qed

theorem done_stays_done_witness:
  "\<exists>v v' w3. backend_GetOperation tagged_lib (sample_registry, sample_ans) sample_w2 ''op1'' = (Inr v, w3) \<and>
     backend_GetOperation tagged_lib (sample_registry, sample_ans) w3 ''op1'' = (Inr v', w3) \<and> op_done v'"
proof -
  obtain v a where poll: "backend_GetOperation tagged_lib (sample_registry, sample_ans) sample_w2 ''op1'' =
      (Inr v, (sample_cache1\<lparr>cb_upstream := [''op1'' \<mapsto> reply_operation ''build1'' True a]\<rparr>,
        sample_builder2, sample_runner))" (is "_ = (_, ?w3)")
    and v: "op_done v" by (rule sample_poll_unfolded)
  have again: "backend_GetOperation tagged_lib (sample_registry, sample_ans) ?w3 ''op1'' =
      (Inr (reply_operation ''build1'' True a), ?w3)"
    by (simp add: backend_GetOperation_def cache_call_GetOperation_def cache_GetOperation_def)
  have none: "operations_service.poll_all (backend_GetOperation tagged_lib) [] ?w3 = ([], ?w3)"
    using builder.cache.poll_all.simps(1) [of tagged_lib ?w3] by (simp add: backend_GetOperation_def)
  have "op_done (reply_operation ''build1'' True a)"
    by (rule done_stays_done [OF tagged_lib_laws sample_reachable2 poll v none _ again]) simp
  with poll again show ?thesis by blast
qed

section \<open>The backend as an abstract machine\<close>

text \<open>
  C6. As long as calls of the cache are handled one at a time, the backend refines the abstract machine;
  handlers that overlap can break this (C30). In any reachable state, what clients, workers and restarts
  made of the cache, the builder and the runner is a run of the machine on the operations the cache knows;
  every further step is a step of the machine; and a poll that is answered says done exactly when the
  machine does.
\<close>

theorem backend_refines_operations:
  assumes "proto_laws L" and "reachable L ok w" and "backend_step L ok w w'"
  shows "spec_step\<^sup>*\<^sup>* Map.empty (operations_of w) \<and> spec_step (operations_of w) (operations_of w') \<and>
    (\<forall>x n v w''. backend_GetOperation L x w' n = (Inr v, w'') \<longrightarrow>
       (op_done v \<longleftrightarrow> spec_done (operations_of w') n))"
proof -
  have "operations_of (backend_init :: 'a backend) = Map.empty"
    by (rule ext) (simp add: backend_init_def operations_of_simp NewCacheBackend_def)
  then have "spec_step\<^sup>*\<^sup>* Map.empty (operations_of w)"
    using refined.runs [of L backend_init ok w] reachable_inv [OF assms(1) reachable_init] assms(1,2)
    by (simp add: reachable_def)
  moreover have "backend_inv L w'"
    using reachable_inv [OF assms(1)] reachable_step [OF assms(2,3)] by blast
  ultimately show ?thesis
    using backend_spec_step [OF reachable_inv [OF assms(1,2)] assms(3)] backend_spec_done [OF assms(1)] by blast
qed

theorem backend_refines_operations_witness:
  "spec_step\<^sup>*\<^sup>* Map.empty (operations_of sample_w1) \<and>
   spec_step (operations_of sample_w1) (operations_of sample_w2) \<and>
   operations_of sample_w1 = [''op1'' \<mapsto> Waiting] \<and> operations_of sample_w2 = [''op1'' \<mapsto> Built]"
proof (intro conjI)
  show "operations_of sample_w1 = [''op1'' \<mapsto> Waiting]" "operations_of sample_w2 = [''op1'' \<mapsto> Built]"
    by (auto simp: sample_w1_def sample_w2_def operations_of_simp phase_of_def sample_cache1_def
        sample_builder1_def sample_builder2_def split: option.splits)
qed (use backend_refines_operations [OF tagged_lib_laws sample_reachable1 sample_step2] in blast)+

text \<open>
  C8. As long as calls of the cache are handled one at a time (C30 is what happens otherwise): once the
  cache has answered done for an operation it knows, every later poll of it that is answered says done,
  whatever clients and workers do and however often the builder starts again in between, until the cache
  loses all its operations.
\<close>

theorem done_until_cache_restart:
  assumes "proto_laws L" and "reachable L ok w"
    and "backend_GetOperation L x w n = (Inr v, w1)" and "op_done v"
    and "downstreamOperation (fst w) n \<noteq> None"
    and "(\<lambda>w w'. backend_step L ok w w' \<and> operations_of w' \<noteq> Map.empty)\<^sup>*\<^sup>* w1 w2"
    and "backend_GetOperation L y w2 n = (Inr v', w3)"
  shows "op_done v'"
proof -
  have inv: "backend_inv L w" using assms(1,2) by (rule reachable_inv)
  then have "backend_inv L w1" using backend_inv_GetOperation [OF assms(1)] assms(3) by blast
  moreover have "operations_of w1 n = Some Held"
    using inv assms(3-5) by (rule answered_Held)
  ultimately have "backend_inv L w2" "operations_of w2 n = Some Held"
    using Held_stays [OF assms(1) _ assms(6)] by blast+
  then show ?thesis
    using backend_spec_done [OF assms(1) _ assms(7)] by (simp add: spec_done_def)
qed

theorem done_until_cache_restart_witness:
  "\<exists>c v w3. backend_GetOperation tagged_lib (sample_registry, sample_ans) sample_w2 ''op1'' =
       (Inr v, (c, sample_builder2, sample_runner)) \<and>
     (\<exists>v'. backend_GetOperation tagged_lib (sample_registry, sample_ans)
        (c, builder_restart sample_builder2, sample_runner) ''op1'' = (Inr v', w3) \<and> op_done v')"
proof -
  obtain v a where poll: "backend_GetOperation tagged_lib (sample_registry, sample_ans) sample_w2 ''op1'' =
      (Inr v, (sample_cache1\<lparr>cb_upstream := [''op1'' \<mapsto> reply_operation ''build1'' True a]\<rparr>,
        sample_builder2, sample_runner))" (is "_ = (_, (?c, _))")
    and v: "op_done v" by (rule sample_poll_unfolded)
  let ?w = "(?c, builder_restart sample_builder2, sample_runner)"
  have again: "backend_GetOperation tagged_lib (sample_registry, sample_ans) ?w ''op1'' =
      (Inr (reply_operation ''build1'' True a), ?w)"
    by (simp add: backend_GetOperation_def cache_call_GetOperation_def cache_GetOperation_def)
  have "operations_of ?w ''op1'' = Some Held"
    by (simp add: operations_of_simp phase_of_def sample_cache1_def)
  then have "operations_of ?w \<noteq> Map.empty" by auto
  then have steps: "(\<lambda>w w'. backend_step tagged_lib asks_build w w' \<and> operations_of w' \<noteq> Map.empty)\<^sup>*\<^sup>*
      (?c, sample_builder2, sample_runner) ?w"
    using step_Builder_restart by (intro r_into_rtranclp) blast
  have "downstreamOperation (fst sample_w2) ''op1'' \<noteq> None"
    by (simp add: sample_w2_def sample_cache1_def)
  from done_until_cache_restart [OF tagged_lib_laws sample_reachable2 poll v this steps again]
  have "op_done (reply_operation ''build1'' True a)" .
  with poll again show ?thesis by blast
qed

section \<open>Calls that overlap\<close>



text \<open>
  C7. Hits stay right when calls overlap: as long as the clients ask for image builds, each the action
  \<open>build\<close> of its graph, an operation the lookup finds for an image build is one the builder
  was asked to run, for at least the requested targets and a base image and commit point with the same
  digest, although other calls of \<open>Get\<close> may be between their own lookup and their
  registration.
\<close>

theorem overlapping_hit_is_same_build:
  assumes "proto_laws L" and "overlap_reachable L asks_build ((c, b, r), cs)"
    and "CacheBackend_Get L c action = Value (Inr n)" and "act_kind action = ''build-image''"
    and "unpack_build_image_config L (act_config action) = (new, None)"
  shows "\<exists>old cp m. downstreamOperation c n = Some m \<and> bic_commit_point old = Some cp \<and>
    builder_serves b m (requested cp old) \<and>
    set (bic_bazel_targets new) \<subseteq> set (bic_bazel_targets old) \<and>
    sha256 (digest_input L old) = sha256 (digest_input L new)"
proof (rule hit_is_backed [OF _ _ assms(3-5)])
  show "backend_inv L (c, b, r)"
    using overlap_reachable_inv [OF assms(1,2)] by (simp add: overlap_inv_def)
  show "cache_keyed L c" using overlap_reachable_keyed [OF assms(2)] by (simp add: overlap_keyed_def)
qed

theorem overlapping_hit_is_same_build_witness:
  "\<exists>old cp. bic_commit_point old = Some cp \<and> builder_serves sample_builder1 ''build1'' (requested cp old) \<and>
     set (bic_bazel_targets sample_config) \<subseteq> set (bic_bazel_targets old)"
proof -
  obtain cs where "overlap_reachable tagged_lib asks_build (sample_w1, cs)"
    using reachable_overlaps [OF sample_reachable1] by blast
  from overlapping_hit_is_same_build [OF tagged_lib_laws this [unfolded sample_w1_def] sample_hit, of sample_config]
  show ?thesis by (auto simp: sample_cache1_def)
qed

text \<open>
  C30. A late reply undoes a finished build. A poll that asked while the build ran may be answered after a
  later poll was told done; the cache then puts the old reply over the final one. When the builder
  starts again before the next poll, that poll is told the build is not done, and no process of the
  cache ended in between.
\<close>

theorem late_reply_reopens_operation:
  assumes "runtime_ok L" and "waits_for c n m" and "buildDone b m \<noteq> Some True"
    and "Enqueue t \<in> set (builder_trace b)" and "buildDone (builder_process wa b t) m = Some True"
  shows "\<exists>c'. overlap_run L ok ((c, b, r), cs) [(n, True), (n, False), (n, False)]
    ((c', builder_restart (builder_process wa b t), r), cs)"
  by (rule late_reply_run [OF assms])

theorem late_reply_reopens_operation_witness:
  "\<exists>c'. overlap_run tagged_lib asks_build ((sample_cache1, sample_builder1, sample_runner), {#})
     [(''op1'', True), (''op1'', False), (''op1'', False)]
     ((c', builder_restart sample_builder2, sample_runner), {#})"
proof -
  have "buildDone sample_builder1 ''build1'' \<noteq> Some True" "Enqueue sample_task \<in> set (builder_trace sample_builder1)"
    by (simp_all add: sample_builder1_def)
  moreover have "buildDone (builder_process sample_worker sample_builder1 sample_task) ''build1'' = Some True"
    unfolding sample_process by (simp add: sample_builder2_def)
  ultimately show ?thesis
    using late_reply_reopens_operation [OF sample_runtime sample_waits, of sample_builder1 sample_task sample_worker]
    unfolding sample_process by blast
qed

section \<open>Where the services let each other down\<close>

text \<open>
  The first poll that finds the build done is answered, and the next one ends the engine's
  process: the cache then hands out the builder's own operation, whose response is not the type the
  engine unpacks.
\<close>

theorem second_poll_exits:
  assumes "runtime_ok L" and "load (engine_trace e) n = [row]" and "waits_for c (or_DependentID row) m"
    and "buildDone b m = Some True"
    and "engine_poll L load env (e, c, b, r) n = (reply, w1)"
  shows "op_done (projr reply) \<and>
    engine_GetOperation L load (\<lambda>i. backend_GetOperation L (env' i)) w1 n =
      (Exited ''Cannot unmarhshal result'', w1)"
proof -
  obtain v c' a where v: "engine_poll L load env (e, c, b, r) n = (Inr v, (e, c', b, r))" "op_done v"
      "cb_upstream c' (or_DependentID row) = Some (reply_operation m True a)"
      "pack_build_response L (built_response (fst (env (e, c, b, r) 0)) b m) = Inr a"
    by (rule engine_poll_done [where load = load, OF assms(1-4)])
  have "\<exists>err. unpack_get_response L (Some a) = (zero_get_response, Some err)"
    using proto_laws_reject(3) [OF _ v(4)] assms(1) by (simp add: runtime_ok_def)
  moreover obtain reg ans where "env' 0 = (reg, ans)" by (rule prod.exhaust)
  moreover have "(reply, w1) = (Inr v, (e, c', b, r))" using v(1) assms(5) by simp
  ultimately show ?thesis
    using v(2,3) assms(2)
    by (auto simp: engine_GetOperation_def backend_GetOperation_def cache_call_GetOperation_def
        cache_GetOperation_def)
qed

theorem second_poll_exits_witness:
  "\<exists>reply w1. engine_poll tagged_lib db_rows sample_env
      (sample_engine, sample_cache1, sample_builder2, sample_runner) ''eval1'' = (reply, w1) \<and>
    engine_GetOperation tagged_lib db_rows
      (\<lambda>i. backend_GetOperation tagged_lib (sample_registry, sample_ans)) w1 ''eval1'' =
      (Exited ''Cannot unmarhshal result'', w1)"
proof -
  have wait: "waits_for sample_cache1 (or_DependentID sample_row) ''build1''"
    using sample_waits by (simp add: sample_row_def)
  have dn: "buildDone sample_builder2 ''build1'' = Some True" by (simp add: sample_builder2_def)
  obtain reply w1 where poll: "engine_poll tagged_lib db_rows sample_env
      (sample_engine, sample_cache1, sample_builder2, sample_runner) ''eval1'' = (reply, w1)"
    by (rule prod.exhaust)
  from second_poll_exits [where load = db_rows and env' = "\<lambda>i. (sample_registry, sample_ans)",
      OF sample_runtime sample_rows wait dn poll] poll
  show ?thesis by blast
qed

text \<open>
  C29. An evaluation does not survive a restart of the cache: the engine's rows name operations the new
  process does not know, which it says are done without a result; the next poll ends the engine's
  process, and the client that waits ends with it instead of being told.
\<close>

theorem cache_restart_ends_evaluation:
  assumes "proto_laws L" and "load (engine_trace e) n = row # rows"
    and "op_name opn = n" and "\<not> op_done opn"
  shows "engine_GetOperation L load (\<lambda>i. backend_GetOperation L (xs i)) (e, cache_restart w) n =
      (Exited ''Cannot unmarhshal result'', (e, cache_restart w)) \<and>
    await (engine_poll L load env) sleep opn (e, cache_restart w) =
      Some (Panicked nil_dereference, sleep (e, cache_restart w))"
proof -
  have exits: "engine_GetOperation L load (\<lambda>i. backend_GetOperation L (ys i)) (e, cache_restart w) n =
      (Exited ''Cannot unmarhshal result'', (e, cache_restart w))" for ys
    using assms(1,2) by (rule engine_poll_unknown)
  then have "engine_poll L load env (e, cache_restart w) n = (Inl ErrUnavailable, (e, cache_restart w))"
    by (simp add: engine_poll_def engine_call_GetOperation_def rpc_def engine_restart_def)
  with exits assms(3,4) show ?thesis by (simp add: await.simps)
qed

theorem cache_restart_ends_evaluation_witness:
  "await (engine_poll tagged_lib db_rows sample_env) sample_sleep sample_eval_reply
     (sample_engine, cache_restart sample_w1) =
   Some (Panicked nil_dereference, sample_sleep (sample_engine, cache_restart sample_w1))"
  by (rule conjunct2 [OF cache_restart_ends_evaluation
        [where load = db_rows and xs = "\<lambda>i. (sample_registry, sample_ans)", OF tagged_lib_laws sample_rows]])
    (simp_all add: sample_eval_reply_def)

text \<open>
  C31. No job of the runner is ever started: the cache's request to it carries no graph, and the
  runner's process dies on the nil graph before it talks to the cluster.
\<close>

theorem runner_starts_no_job:
  assumes "reachable L ok w"
  shows "runner_jobs (snd (snd w)) = []"
  using assms
proof (induction rule: reachable_induct)
  case init
  then show ?case by (simp add: backend_init_def)
next
  case (step w w')
  from step.hyps(2) have "snd (snd w') = snd (snd w)"
  proof cases
    case (step_Get req y ans job reply)
    then obtain res w1 where "cache_Get L (stubs_for (builder_call_Build y)
        (call_CreateJob (fst job) (snd job))) ans w req = (res, w1)" "w' = w1 \<or> w' = cache_restart w1"
      unfolding backend_Get_def by (auto elim: cache_call_Get_cases)
    then show ?thesis
      using cache_Get_runner [of L "builder_call_Build y" "fst job" "snd job" ans w req]
      by (auto simp: cache_restart_def split: prod.splits)
  next
    case (step_GetOperation x n reply)
    obtain reg ans where x: "x = (reg, ans)" by (cases x)
    obtain res w1 where g: "cache_GetOperation L (builder_call_GetOperation L reg) ans w n = (res, w1)"
      by (rule prod.exhaust)
    have "snd (snd w1) = snd (snd w)"
      using g by (auto simp: cache_GetOperation_def poll_downstream_def Let_def
          split: prod.splits option.splits sum.splits if_splits)
    moreover have "w' = w1 \<or> w' = cache_restart w1"
      using step_GetOperation g x
      by (auto simp: backend_GetOperation_def cache_call_GetOperation_def rpc_def
          split: run.splits sum.splits)
    ultimately show ?thesis by (auto simp: cache_restart_def split: prod.splits)
  qed (auto simp: cache_restart_def split: prod.splits)
  with step.IH show ?case by simp
qed

theorem runner_starts_no_job_witness: "runner_jobs (snd (snd sample_w2)) = []"
  by (rule runner_starts_no_job [OF sample_reachable2])

end
